(* ===== verification/Prelude.thy ===== *)
theory Prelude
  imports Main "HOL-Library.Word" "HOL-Library.List_Lexorder"
begin

unbundle bit_operations_syntax

text \<open>
  Shared vocabulary of the development: bytes and memory blocks, the ways in which a C++
  operation can end other than by returning, sequencing of operations that may end in such a
  way, host and network byte order, and \<open>std::map\<close> as a strictly ascending association list.
\<close>

section \<open>Bytes and faults\<close>

type_synonym byte = "8 word"

text \<open>Lengths that come from the wire are kept as \<open>unat\<close>, also inside of \<open>int\<close>.\<close>

declare of_nat_unat [simp del]

text \<open>A C string literal is the list of its character codes.\<close>

definition str :: "string \<Rightarrow> byte list" where
  "str s = map of_char s"

lemma length_str [simp]: "length (str s) = length s"
  by (simp add: str_def)

abbreviation LF :: byte where "LF \<equiv> 10"
abbreviation CR :: byte where "CR \<equiv> 13"
abbreviation SP :: byte where "SP \<equiv> 32"

text \<open>
  The ways in which an operation of the source can fail to return. \<open>OutOfBounds\<close> is an access
  outside of an allocated array, \<open>EmptyQueue\<close> is \<open>front\<close>, \<open>back\<close> or \<open>pop\<close> on an empty container,
  \<open>NullPointer\<close> is the dereference of an empty \<open>shared_ptr\<close> (all undefined behaviour in C++);
  \<open>BadAlloc\<close> and \<open>LengthError\<close> are the exceptions of the standard library for a negative size;
  \<open>ParseError\<close> and \<open>Proxy\<close> are the exceptions \<open>cdpi_parse_error\<close> and \<open>cdpi_proxy\<close> of the
  program; \<open>Diverges\<close> is a loop that never ends.
\<close>

datatype fault =
    OutOfBounds
  | EmptyQueue
  | NullPointer
  | BadAlloc
  | LengthError
  | ParseError
  | Proxy
  | Diverges

type_synonym 'a result = "fault + 'a"

text \<open>Sequencing: the second operation runs only when the first one returned.\<close>

definition bindR :: "'a result \<Rightarrow> ('a \<Rightarrow> 'b result) \<Rightarrow> 'b result" where
  "bindR m f = (case m of Inl e \<Rightarrow> Inl e | Inr x \<Rightarrow> f x)"

lemma bindR_Inr [simp]: "bindR (Inr x) f = f x"
  and bindR_Inl [simp]: "bindR (Inl e) f = Inl e"
  by (simp_all add: bindR_def)

lemma bindR_cong [fundef_cong]:
  "m = m' \<Longrightarrow> (\<And>x. m' = Inr x \<Longrightarrow> f x = f' x) \<Longrightarrow> bindR m f = bindR m' f'"
  by (simp add: bindR_def split: sum.splits)

lemma bindR_eq_Inr: "bindR m f = Inr y \<longleftrightarrow> (\<exists>x. m = Inr x \<and> f x = Inr y)"
  by (cases m) auto

lemma bindR_eq_Inl: "bindR m f = Inl e \<longleftrightarrow> m = Inl e \<or> (\<exists>x. m = Inr x \<and> f x = Inl e)"
  by (cases m) auto

text \<open>An operation that returns.\<close>

definition returns :: "'a result \<Rightarrow> bool" where
  "returns m \<longleftrightarrow> (\<exists>x. m = Inr x)"

lemma returns_Inr [simp, intro]: "returns (Inr x)"
  and returns_Inl [simp]: "\<not> returns (Inl e)"
  by (simp_all add: returns_def)

lemma returns_bindR: "returns (bindR m f) \<longleftrightarrow> (\<exists>x. m = Inr x \<and> returns (f x))"
  by (auto simp: returns_def bindR_eq_Inr)

section \<open>Reading memory\<close>

text \<open>One byte, and a run of bytes, of an allocated array.\<close>

definition rd :: "byte list \<Rightarrow> nat \<Rightarrow> byte result" where
  "rd m i = (if i < length m then Inr (m ! i) else Inl OutOfBounds)"

definition rds :: "byte list \<Rightarrow> nat \<Rightarrow> nat \<Rightarrow> byte list result" where
  "rds m i n = (if i + n \<le> length m then Inr (take n (drop i m)) else Inl OutOfBounds)"

named_theorems mem_simps \<open>reads inside of an array\<close>

lemma rd_ok [mem_simps]: "i < length m \<Longrightarrow> rd m i = Inr (m ! i)"
  by (simp add: rd_def)

lemma rds_ok [mem_simps]: "i + n \<le> length m \<Longrightarrow> rds m i n = Inr (take n (drop i m))"
  by (simp add: rds_def)

lemma rd_eq_Inr: "rd m i = Inr x \<longleftrightarrow> i < length m \<and> x = m ! i"
  by (auto simp: rd_def)

lemma rds_eq_Inr: "rds m i n = Inr bs \<longleftrightarrow> i + n \<le> length m \<and> bs = take n (drop i m)"
  by (auto simp: rds_def)

lemma rds_length: "rds m i n = Inr bs \<Longrightarrow> length bs = n"
  by (auto simp: rds_eq_Inr)

text \<open>The array holds the bytes \<open>xs\<close> from index \<open>i\<close> on.\<close>

definition holds_at :: "byte list \<Rightarrow> nat \<Rightarrow> byte list \<Rightarrow> bool" where
  "holds_at m i xs \<longleftrightarrow> i + length xs \<le> length m \<and> take (length xs) (drop i m) = xs"

lemma holds_at_bound: "holds_at m i xs \<Longrightarrow> i + length xs \<le> length m"
  by (simp add: holds_at_def)

lemma holds_at_append:
  "holds_at m i (xs @ ys) \<longleftrightarrow> holds_at m i xs \<and> holds_at m (i + length xs) ys"
  by (auto simp: holds_at_def take_add add.commute)

lemma holds_at_Cons: "holds_at m i (x # xs) \<longleftrightarrow> rd m i = Inr x \<and> holds_at m (i + 1) xs"
proof -
  have "holds_at m i [x] \<longleftrightarrow> rd m i = Inr x"
    by (cases "i < length m") (auto simp: holds_at_def rd_def Cons_nth_drop_Suc [symmetric])
  then show ?thesis using holds_at_append [of m i "[x]" xs] by simp
qed

lemma holds_at_Nil [simp]: "holds_at m i [] \<longleftrightarrow> i \<le> length m"
  by (simp add: holds_at_def)

lemma holds_at_rds: "holds_at m i xs \<Longrightarrow> length xs = n \<Longrightarrow> rds m i n = Inr xs"
  by (auto simp: holds_at_def rds_def)

lemma holds_at_whole [simp]: "holds_at (pre @ xs @ post) (length pre) xs"
  and holds_at_prefix [simp]: "holds_at (xs @ post) 0 xs"
  by (simp_all add: holds_at_def)

text \<open>Writing a run of bytes over an array.\<close>

definition overwrite :: "byte list \<Rightarrow> nat \<Rightarrow> byte list \<Rightarrow> byte list" where
  "overwrite m i xs = take i m @ xs @ drop (i + length xs) m"

lemma length_overwrite [simp]: "i + length xs \<le> length m \<Longrightarrow> length (overwrite m i xs) = length m"
  by (simp add: overwrite_def)

lemma overwrite_eq_Nil [simp]: "i + length xs \<le> length m \<Longrightarrow> overwrite m i xs = [] \<longleftrightarrow> m = []"
  by (metis length_0_conv length_overwrite)

lemma nth_overwrite:
  "i + length xs \<le> length m \<Longrightarrow> j < length m \<Longrightarrow>
     overwrite m i xs ! j = (if i \<le> j \<and> j < i + length xs then xs ! (j - i) else m ! j)"
  by (auto simp: overwrite_def nth_append min_def)

lemma take_drop_overwrite_same:
  "i + length xs \<le> length m \<Longrightarrow> n = length xs \<Longrightarrow> take n (drop i (overwrite m i xs)) = xs"
  by (simp add: overwrite_def)

lemma take_drop_overwrite_other:
  assumes "i + length xs \<le> length m" "j + n \<le> i \<or> i + length xs \<le> j" "j + n \<le> length m"
  shows "take n (drop j (overwrite m i xs)) = take n (drop j m)"
  using assms by (intro nth_equalityI) (auto simp: nth_overwrite)

lemma rd_overwrite_other:
  "i + length xs \<le> length m \<Longrightarrow> j < i \<or> i + length xs \<le> j \<Longrightarrow>
     rd (overwrite m i xs) j = rd m j"
  by (auto simp: rd_def nth_overwrite split: if_splits)

section \<open>Byte order\<close>

text \<open>
  The host is little-endian: a \<open>uint16_t\<close> or \<open>uint32_t\<close> that \<open>memcpy\<close> fills from the wire is the
  little-endian value of its bytes, and \<open>ntohs\<close> and \<open>ntohl\<close> reverse the bytes.
\<close>

fun le_nat :: "byte list \<Rightarrow> nat" where
  "le_nat [] = 0"
| "le_nat (b # bs) = unat b + 256 * le_nat bs"

fun le_bytes :: "nat \<Rightarrow> nat \<Rightarrow> byte list" where
  "le_bytes 0 n = []"
| "le_bytes (Suc k) n = word_of_nat n # le_bytes k (n div 256)"

definition be_nat :: "byte list \<Rightarrow> nat" where
  "be_nat bs = le_nat (rev bs)"

definition be_bytes :: "nat \<Rightarrow> nat \<Rightarrow> byte list" where
  "be_bytes k n = rev (le_bytes k n)"

definition ntohs :: "16 word \<Rightarrow> 16 word" where
  "ntohs w = word_of_nat (be_nat (le_bytes 2 (unat w)))"

definition ntohl :: "32 word \<Rightarrow> 32 word" where
  "ntohl w = word_of_nat (be_nat (le_bytes 4 (unat w)))"

text \<open>\<open>memcpy\<close> of two or four bytes into an integer variable.\<close>

definition u16_of :: "byte list \<Rightarrow> 16 word" where
  "u16_of bs = word_of_nat (le_nat bs)"

definition u32_of :: "byte list \<Rightarrow> 32 word" where
  "u32_of bs = word_of_nat (le_nat bs)"

lemma le_bytes_numeral:
  "le_bytes (numeral k) n = word_of_nat n # le_bytes (pred_numeral k) (n div 256)"
  by (simp only: numeral_eq_Suc [of k] le_bytes.simps)

lemma length_le_bytes [simp]: "length (le_bytes k n) = k"
  by (induction k arbitrary: n) auto

lemma length_be_bytes [simp]: "length (be_bytes k n) = k"
  by (simp add: be_bytes_def)

lemma unat_byte_less [simp]: "unat (b :: byte) < 256"
  using unsigned_less [of b] by simp

lemma le_nat_less: "le_nat bs < 256 ^ length bs"
proof (induction bs)
  case (Cons b bs)
  have "unat b < 256" by (rule unat_byte_less)
  with Cons.IH have "unat b + 256 * le_nat bs < 256 * 256 ^ length bs" by linarith
  then show ?case by simp
qed simp

lemma unat_of_nat_byte [simp]: "unat (word_of_nat n :: byte) = n mod 256"
  by (simp add: unat_of_nat)

lemma le_nat_le_bytes [simp]: "le_nat (le_bytes k n) = n mod 256 ^ k"
proof (induction k arbitrary: n)
  case (Suc k)
  have "n mod (256 * 256 ^ k) = 256 * (n div 256 mod 256 ^ k) + n mod 256"
    by (rule mod_mult2_eq)
  with Suc show ?case by simp
qed simp

lemma le_bytes_le_nat [simp]: "length bs = k \<Longrightarrow> le_bytes k (le_nat bs) = bs"
proof (induction bs arbitrary: k)
  case (Cons b bs)
  have less: "unat b < 256" by simp
  have "(unat b + 256 * le_nat bs) div 256 = le_nat bs"
    using less by (simp add: div_add1_eq)
  moreover have "(word_of_nat (unat b + 256 * le_nat bs) :: byte) = b"
  proof -
    have "unat (word_of_nat (unat b + 256 * le_nat bs) :: byte) = unat b"
      using less by (simp only: unat_of_nat_byte) simp
    then show ?thesis by (simp only: word_unat_eq_iff)
  qed
  ultimately show ?case using Cons by auto
qed simp

lemma be_nat_be_bytes [simp]: "be_nat (be_bytes k n) = n mod 256 ^ k"
  by (simp add: be_nat_def be_bytes_def)

lemma be_bytes_2: "be_bytes 2 n = [word_of_nat (n div 256), word_of_nat n]"
  unfolding be_bytes_def numeral_2_eq_2 by simp

lemma be_nat_less: "be_nat bs < 256 ^ length bs"
  using le_nat_less [of "rev bs"] by (simp add: be_nat_def)

lemma be_bytes_be_nat [simp]: "length bs = k \<Longrightarrow> be_bytes k (be_nat bs) = bs"
  by (simp add: be_nat_def be_bytes_def)

text \<open>What \<open>ntohs\<close> and \<open>ntohl\<close> make of a variable filled from the wire.\<close>

lemma unat_ntohs_u16 [simp]:
  assumes "length bs = 2"
  shows "unat (ntohs (u16_of bs)) = be_nat bs"
proof -
  have "le_nat bs < 65536" using le_nat_less [of bs] assms by simp
  then have "unat (u16_of bs) = le_nat bs"
    by (simp add: u16_of_def unat_of_nat)
  moreover have "be_nat bs < 65536" using be_nat_less [of bs] assms by simp
  ultimately show ?thesis using assms by (simp add: ntohs_def unat_of_nat)
qed

lemma unat_ntohl_u32 [simp]:
  assumes "length bs = 4"
  shows "unat (ntohl (u32_of bs)) = be_nat bs"
proof -
  have "le_nat bs < 4294967296" using le_nat_less [of bs] assms by simp
  then have "unat (u32_of bs) = le_nat bs"
    by (simp add: u32_of_def unat_of_nat)
  moreover have "be_nat bs < 4294967296" using be_nat_less [of bs] assms by simp
  ultimately show ?thesis using assms by (simp add: ntohl_def unat_of_nat)
qed

lemma u16_of_le_bytes [simp]: "u16_of (le_bytes 2 (unat w)) = w"
proof -
  have "unat w < 65536" using unsigned_less [of w] by simp
  then show ?thesis by (simp add: u16_of_def of_nat_unat)
qed

lemma le_bytes_u16_of [simp]: "length bs = 2 \<Longrightarrow> le_bytes 2 (unat (u16_of bs)) = bs"
  using le_nat_less [of bs] by (simp add: u16_of_def unat_of_nat)

section \<open>Ordered maps\<close>

text \<open>
  \<open>std::map\<close> keeps its elements in the order of the keys. \<open>omap_insert\<close> is \<open>m[k] = v\<close>,
  \<open>omap_erase\<close> is \<open>erase\<close> and \<open>map_of\<close> is \<open>find\<close>; \<open>size\<close> is the length of the list.
\<close>

type_synonym ('k, 'v) omap = "('k \<times> 'v) list"

fun omap_insert :: "'k::linorder \<Rightarrow> 'v \<Rightarrow> ('k, 'v) omap \<Rightarrow> ('k, 'v) omap" where
  "omap_insert k v [] = [(k, v)]"
| "omap_insert k v ((k', v') # m) =
     (if k < k' then (k, v) # (k', v') # m
      else if k = k' then (k, v) # m
      else (k', v') # omap_insert k v m)"

definition omap_erase :: "'k \<Rightarrow> ('k, 'v) omap \<Rightarrow> ('k, 'v) omap" where
  "omap_erase k m = filter (\<lambda>p. fst p \<noteq> k) m"

definition omap_ok :: "('k::linorder, 'v) omap \<Rightarrow> bool" where
  "omap_ok m \<longleftrightarrow> sorted_wrt (<) (map fst m)"

lemma map_of_omap_insert [simp]:
  "map_of (omap_insert k v m) = (map_of m)(k \<mapsto> v)"
  by (induction k v m rule: omap_insert.induct) (auto simp: fun_eq_iff)

lemma map_of_omap_erase [simp]:
  "map_of (omap_erase k m) = (map_of m)(k := None)"
  by (induction m) (auto simp: omap_erase_def fun_eq_iff)

lemma set_keys_omap_insert [simp]:
  "fst ` set (omap_insert k v m) = insert k (fst ` set m)"
  by (induction k v m rule: omap_insert.induct) auto

lemma omap_ok_Nil [simp]: "omap_ok []"
  by (simp add: omap_ok_def)

lemma omap_ok_Cons: "omap_ok ((k, v) # m) \<longleftrightarrow> (\<forall>k' \<in> fst ` set m. k < k') \<and> omap_ok m"
  by (auto simp: omap_ok_def)

lemma omap_ok_insert [simp]: "omap_ok m \<Longrightarrow> omap_ok (omap_insert k v m)"
proof (induction k v m rule: omap_insert.induct)
  case (2 k v k' v' m)
  then show ?case by (force simp: omap_ok_Cons)
qed (simp add: omap_ok_Cons)

lemma omap_ok_erase [simp]: "omap_ok m \<Longrightarrow> omap_ok (omap_erase k m)"
  by (induction m) (auto simp: omap_ok_Cons omap_erase_def)

lemma omap_ok_distinct: "omap_ok m \<Longrightarrow> distinct (map fst m)"
  by (simp add: omap_ok_def strict_sorted_iff)

lemma length_omap_erase:
  "distinct (map fst m) \<Longrightarrow>
     length (omap_erase k m) = (if map_of m k = None then length m else length m - 1)"
proof (induction m)
  case (Cons p m)
  then have ih: "length (filter (\<lambda>p. fst p \<noteq> k) m) =
      (if k \<in> fst ` set m then length m - 1 else length m)"
    by (simp add: omap_erase_def map_of_eq_None_iff)
  have "0 < length m" if "k \<in> fst ` set m" using that by (cases m) auto
  with ih Cons.prems show ?case
    by (cases p) (force simp: omap_erase_def map_of_eq_None_iff)
qed (simp add: omap_erase_def)

lemma map_of_omap_ok: "omap_ok m \<Longrightarrow> map_of m k = Some v \<longleftrightarrow> (k, v) \<in> set m"
  by (simp add: omap_ok_distinct)

lemma omap_insert_mem: "(k', v') \<in> set (omap_insert k v m) \<Longrightarrow> (k', v') = (k, v) \<or> (k', v') \<in> set m"
  by (induction k v m rule: omap_insert.induct) (auto split: if_splits)

lemma omap_erase_mem: "p \<in> set (omap_erase k m) \<Longrightarrow> p \<in> set m"
  by (simp add: omap_erase_def)

text \<open>A total over the entries changes by what is exchanged.\<close>

lemma sum_omap_insert:
  assumes "omap_ok m" "map_of m k = Some v"
  shows "(\<Sum>(k, v) \<leftarrow> omap_insert k v' m. w v) + w v = (\<Sum>(k, v) \<leftarrow> m. w v) + (w v' :: nat)"
  using assms
proof (induction m)
  case (Cons p m)
  obtain k0 v0 where p: "p = (k0, v0)" by fastforce
  have less: "k0 < k" if "k0 \<noteq> k"
  proof -
    have "k \<in> fst ` set m" using Cons.prems(2) p that by (auto dest: map_of_SomeD intro: rev_image_eqI)
    with Cons.prems(1) p show ?thesis by (auto simp: omap_ok_Cons)
  qed
  show ?case
  proof (cases "k0 = k")
    case True
    with Cons.prems p show ?thesis by simp
  next
    case False
    with less have "\<not> k < k0" "k \<noteq> k0" by auto
    with Cons p show ?thesis by (auto simp: omap_ok_Cons)
  qed
qed simp

lemma sum_omap_erase: "(\<Sum>(k, v) \<leftarrow> omap_erase k' m. w v) \<le> (\<Sum>(k, v) \<leftarrow> m. w v :: nat)"
  by (induction m) (auto simp: omap_erase_def)

lemma length_omap_erase_less: "map_of m k = Some v \<Longrightarrow> length (omap_erase k m) < length m"
  unfolding omap_erase_def by (rule length_filter_less [of "(k, v)"]) (auto dest: map_of_SomeD)

text \<open>The interface of \<open>std::map\<close> that the components rely on.\<close>

locale ordered_map =
  fixes find :: "'m \<Rightarrow> 'k \<Rightarrow> 'v option"
    and insert :: "'k \<Rightarrow> 'v \<Rightarrow> 'm \<Rightarrow> 'm"
    and erase :: "'k \<Rightarrow> 'm \<Rightarrow> 'm"
    and invar :: "'m \<Rightarrow> bool"
  assumes find_insert: "find (insert k v m) = (find m)(k \<mapsto> v)"
    and find_erase: "find (erase k m) = (find m)(k := None)"
    and invar_insert: "invar m \<Longrightarrow> invar (insert k v m)"
    and invar_erase: "invar m \<Longrightarrow> invar (erase k m)"
begin

lemma find_insert_same: "find (insert k v m) k = Some v"
  by (simp add: find_insert)

lemma find_insert_other: "k' \<noteq> k \<Longrightarrow> find (insert k v m) k' = find m k'"
  by (simp add: find_insert)

lemma find_erase_same: "find (erase k m) k = None"
  by (simp add: find_erase)

lemma find_erase_other: "k' \<noteq> k \<Longrightarrow> find (erase k m) k' = find m k'"
  by (simp add: find_erase)

end

interpretation omap: ordered_map map_of omap_insert omap_erase omap_ok
  by unfold_locales simp_all

end
