(* ===== verification/Bytes.thy ===== *)
theory Bytes
  imports Prelude
begin

text \<open>
  \<open>cdpi_bytes.hpp\<close> and \<open>cdpi_bytes.cpp\<close>: the shared byte blocks, their comparison, and the reading
  and skipping of a list of blocks, which is the form in which a stream buffers its data.
  A list of blocks stands for one byte string, its \<open>contents\<close>; the lemmas show that
  \<open>read_bytes\<close>, \<open>read_bytes_ec\<close> and \<open>skip_bytes\<close> are the prefix, the line and the suffix
  of that string, wherever the block boundaries fall.
\<close>

section \<open>Blocks\<close>

text \<open>\<open>m_ptr\<close> is the allocated array, \<open>None\<close> for the empty \<open>shared_array\<close>.\<close>

record cdpi_bytes =
  m_ptr :: "byte list option"
  m_pos :: int
  m_len :: int

definition empty_bytes :: cdpi_bytes where
  "empty_bytes = \<lparr>m_ptr = None, m_pos = 0, m_len = 0\<rparr>"

text \<open>The array, and the \<open>n\<close> bytes from its position on, which a read has to find inside of it.\<close>

definition ptr_mem :: "cdpi_bytes \<Rightarrow> byte list" where
  "ptr_mem b = (case m_ptr b of None \<Rightarrow> [] | Some a \<Rightarrow> a)"

definition rdsi :: "byte list \<Rightarrow> int \<Rightarrow> int \<Rightarrow> byte list result" where
  "rdsi m i n = (if i < 0 \<or> n < 0 then Inl OutOfBounds else rds m (nat i) (nat n))"

definition block_bytes :: "cdpi_bytes \<Rightarrow> byte list" where
  "block_bytes b = take (nat (m_len b)) (drop (nat (m_pos b)) (ptr_mem b))"

text \<open>
  \<open>operator=(const char*)\<close> and \<open>set_buf\<close>: a copy of \<open>len\<close> bytes. A negative length makes
  \<open>new char[len]\<close> throw. \<open>alloc\<close> leaves the position alone and the new array uninitialised:
  \<open>fresh\<close> stands for what the fresh memory holds.
\<close>

definition assign_str :: "byte list \<Rightarrow> cdpi_bytes" where
  "assign_str s = \<lparr>m_ptr = Some s, m_pos = 0, m_len = int (length s)\<rparr>"

definition set_buf :: "byte list \<Rightarrow> int \<Rightarrow> cdpi_bytes result" where
  "set_buf buf len =
     (if len < 0 then Inl BadAlloc
      else bindR (rdsi buf 0 len) (\<lambda>a.
        Inr \<lparr>m_ptr = Some a, m_pos = 0, m_len = len\<rparr>))"

definition alloc :: "(nat \<Rightarrow> byte) \<Rightarrow> int \<Rightarrow> cdpi_bytes \<Rightarrow> cdpi_bytes result" where
  "alloc fresh len b =
     (if len < 0 then Inl BadAlloc
      else Inr (b\<lparr>m_ptr := Some (map fresh [0..<nat len]), m_len := len\<rparr>))"

definition clear_bytes :: "cdpi_bytes \<Rightarrow> cdpi_bytes" where
  "clear_bytes b = b\<lparr>m_ptr := None, m_pos := 0, m_len := 0\<rparr>"

text \<open>
  \<open>fill_zero\<close> and \<open>is_zero\<close>. The latter compares \<open>m_len - m_pos\<close> bytes from the start of the
  array, not \<open>m_len\<close> bytes from the position.
\<close>

definition fill_zero :: "cdpi_bytes \<Rightarrow> cdpi_bytes result" where
  "fill_zero b = bindR (rdsi (ptr_mem b) (m_pos b) (m_len b)) (\<lambda>_.
     Inr (b\<lparr>m_ptr := map_option (\<lambda>a. take (nat (m_pos b)) a @ replicate (nat (m_len b)) 0
       @ drop (nat (m_pos b) + nat (m_len b)) a) (m_ptr b)\<rparr>))"

definition is_zero :: "cdpi_bytes \<Rightarrow> bool result" where
  "is_zero b =
     (if m_len b - m_pos b < 0 then Inl BadAlloc
      else bindR (rdsi (ptr_mem b) 0 (m_len b - m_pos b)) (\<lambda>bs.
        Inr (bs = replicate (nat (m_len b - m_pos b)) 0)))"

section \<open>Comparison\<close>

text \<open>\<open>memcmp\<close> compares as unsigned bytes; only the sign of its result is specified.\<close>

fun memcmp :: "byte list \<Rightarrow> byte list \<Rightarrow> int" where
  "memcmp (x # xs) (y # ys) =
     (if x = y then memcmp xs ys else if x < y then - 1 else 1)"
| "memcmp _ _ = 0"

definition bytes_eq :: "cdpi_bytes \<Rightarrow> cdpi_bytes \<Rightarrow> bool result" where
  "bytes_eq a b =
     (if m_len a \<noteq> m_len b then Inr False
      else bindR (rdsi (ptr_mem a) (m_pos a) (m_len a)) (\<lambda>xs.
        bindR (rdsi (ptr_mem b) (m_pos b) (m_len a)) (\<lambda>ys.
          Inr (memcmp xs ys = 0))))"

definition bytes_less :: "cdpi_bytes \<Rightarrow> cdpi_bytes \<Rightarrow> bool result" where
  "bytes_less a b =
     (if m_len a = m_len b
      then bindR (rdsi (ptr_mem a) (m_pos a) (m_len a)) (\<lambda>xs.
        bindR (rdsi (ptr_mem b) (m_pos b) (m_len a)) (\<lambda>ys.
          Inr (memcmp xs ys < 0)))
      else let len = (if m_len a < m_len b then m_len a else m_len b) in
        bindR (rdsi (ptr_mem a) (m_pos a) len) (\<lambda>xs.
          bindR (rdsi (ptr_mem b) (m_pos b) len) (\<lambda>ys.
            let r = memcmp xs ys in
            Inr (if r < 0 then True else if r > 0 then False else m_len a < m_len b))))"

definition bytes_greater :: "cdpi_bytes \<Rightarrow> cdpi_bytes \<Rightarrow> bool result" where
  "bytes_greater a b = bytes_less b a"

section \<open>Lists of blocks\<close>

text \<open>
  \<open>read_bytes_ec\<close>: bytes are copied until \<open>len\<close> of them were read or the byte \<open>c\<close> was. The inner
  loop runs over one block and says whether the function returned in it; \<open>acc\<close> is what was
  written to the buffer, so \<open>read_len\<close> is its length. Blocks without an array are stepped over.
\<close>

fun ec_block :: "byte list \<Rightarrow> int \<Rightarrow> byte \<Rightarrow> byte list \<Rightarrow> bool \<times> byte list" where
  "ec_block [] len c acc = (False, acc)"
| "ec_block (x # xs) len c acc =
     (if int (length acc) \<ge> len then (True, acc)
      else if x = c then (True, acc @ [x])
      else ec_block xs len c (acc @ [x]))"

fun read_bytes_ec :: "cdpi_bytes list \<Rightarrow> int \<Rightarrow> byte \<Rightarrow> byte list \<Rightarrow> byte list" where
  "read_bytes_ec [] len c acc = acc"
| "read_bytes_ec (b # bs) len c acc =
     (if m_ptr b = None then read_bytes_ec bs len c acc
      else case ec_block (block_bytes b) len c acc of
        (True, acc') \<Rightarrow> acc'
      | (False, acc') \<Rightarrow> read_bytes_ec bs len c acc')"

text \<open>
  \<open>skip_bytes\<close> returns the list that is left and how much was skipped. A block without an array
  sends the loop back to its start with the same iterator, so it never ends.
\<close>

fun skip_bytes :: "cdpi_bytes list \<Rightarrow> int \<Rightarrow> int \<Rightarrow> (cdpi_bytes list \<times> int) result" where
  "skip_bytes [] len skip_len = Inr ([], skip_len)"
| "skip_bytes (b # bs) len skip_len =
     (let remain = len - skip_len in
      if m_ptr b = None then Inl Diverges
      else if remain < m_len b
      then Inr (b\<lparr>m_pos := m_pos b + remain, m_len := m_len b - remain\<rparr> # bs, skip_len + remain)
      else skip_bytes bs len (skip_len + m_len b))"

text \<open>
  \<open>read_bytes\<close> copies without removing anything. A negative \<open>remain\<close> would be a huge \<open>size_t\<close>
  for \<open>memcpy\<close>.
\<close>

fun read_bytes :: "cdpi_bytes list \<Rightarrow> int \<Rightarrow> byte list \<Rightarrow> byte list result" where
  "read_bytes [] len acc = Inr acc"
| "read_bytes (b # bs) len acc =
     (let remain = len - int (length acc) in
      if m_ptr b = None then read_bytes bs len acc
      else if remain < m_len b
      then bindR (rdsi (ptr_mem b) (m_pos b) remain) (\<lambda>xs. Inr (acc @ xs))
      else bindR (rdsi (ptr_mem b) (m_pos b) (m_len b)) (\<lambda>xs. read_bytes bs len (acc @ xs)))"

section \<open>Strings\<close>

text \<open>\<open>find_char\<close>: the loop counter is the index of the first \<open>c\<close>.\<close>

fun find_char_from :: "int \<Rightarrow> byte list \<Rightarrow> byte \<Rightarrow> int" where
  "find_char_from n [] c = - 1"
| "find_char_from n (x # xs) c = (if x = c then n else find_char_from (n + 1) xs c)"

definition find_char :: "byte list \<Rightarrow> byte \<Rightarrow> int" where
  "find_char buf c = find_char_from 0 buf c"

text \<open>\<open>bin2str\<close> (and \<open>print_binary\<close>, which prints the same text): two digits for each byte.\<close>

definition hex_digits :: "byte list" where
  "hex_digits = str ''0123456789abcdef''"

definition bin2str :: "byte list \<Rightarrow> byte list" where
  "bin2str buf = concat (map (\<lambda>b.
     [hex_digits ! unat (drop_bit 4 b AND 0x0f), hex_digits ! unat (b AND 0x0f)]) buf)"

text \<open>\<open>tolower\<close> of the C locale and its use on a whole string.\<close>

definition lower_case :: "byte \<Rightarrow> byte" where
  "lower_case c = (if 65 \<le> c \<and> c \<le> 90 then c + 32 else c)"

definition to_lower_str :: "byte list \<Rightarrow> byte list" where
  "to_lower_str s = map lower_case s"

section \<open>A list of blocks as one byte string\<close>

text \<open>
  A well-formed block has an array, and its window lies inside of it. The contents of a list is
  the concatenation of the windows.
\<close>

definition wf_block :: "cdpi_bytes \<Rightarrow> bool" where
  "wf_block b \<longleftrightarrow> m_ptr b \<noteq> None \<and> 0 \<le> m_pos b \<and> 0 \<le> m_len b \<and>
     m_pos b + m_len b \<le> int (length (ptr_mem b))"

definition wf_blocks :: "cdpi_bytes list \<Rightarrow> bool" where
  "wf_blocks bs \<longleftrightarrow> (\<forall>b \<in> set bs. wf_block b)"

definition contents :: "cdpi_bytes list \<Rightarrow> byte list" where
  "contents bs = concat (map block_bytes bs)"

lemma contents_simps [simp]:
  "contents [] = []" "contents (b # bs) = block_bytes b @ contents bs"
  "contents (bs @ bs') = contents bs @ contents bs'"
  by (simp_all add: contents_def)

lemma wf_blocks_simps [simp]:
  "wf_blocks []" "wf_blocks (b # bs) \<longleftrightarrow> wf_block b \<and> wf_blocks bs"
  "wf_blocks (bs @ bs') \<longleftrightarrow> wf_blocks bs \<and> wf_blocks bs'"
  by (auto simp: wf_blocks_def)

lemma wf_block_ptr: "wf_block b \<Longrightarrow> m_ptr b \<noteq> None"
  by (simp add: wf_block_def)

lemma int_length_block_bytes: "wf_block b \<Longrightarrow> int (length (block_bytes b)) = m_len b"
  by (auto simp: wf_block_def block_bytes_def)

lemma length_block_bytes: "wf_block b \<Longrightarrow> length (block_bytes b) = nat (m_len b)"
  by (auto simp: wf_block_def block_bytes_def)

lemma rdsi_block_prefix:
  "wf_block b \<Longrightarrow> 0 \<le> n \<Longrightarrow> n \<le> m_len b \<Longrightarrow>
     rdsi (ptr_mem b) (m_pos b) n = Inr (take (nat n) (block_bytes b))"
  by (auto simp: rdsi_def rds_def wf_block_def block_bytes_def min_def)

lemma rdsi_block:
  "wf_block b \<Longrightarrow> rdsi (ptr_mem b) (m_pos b) (m_len b) = Inr (block_bytes b)"
  using rdsi_block_prefix [of b "m_len b"] by (simp add: length_block_bytes wf_block_def)

lemma wf_block_advance:
  "wf_block b \<Longrightarrow> 0 \<le> n \<Longrightarrow> n \<le> m_len b \<Longrightarrow>
     wf_block (b\<lparr>m_pos := m_pos b + n, m_len := m_len b - n\<rparr>)"
  by (auto simp: wf_block_def ptr_mem_def)

lemma block_bytes_advance:
  "wf_block b \<Longrightarrow> 0 \<le> n \<Longrightarrow> n \<le> m_len b \<Longrightarrow>
     block_bytes (b\<lparr>m_pos := m_pos b + n, m_len := m_len b - n\<rparr>) = drop (nat n) (block_bytes b)"
  by (simp add: wf_block_def block_bytes_def ptr_mem_def drop_take nat_diff_distrib nat_add_distrib
      add.commute)

lemma wf_block_set_buf: "set_buf buf len = Inr b \<Longrightarrow> wf_block b"
  by (auto simp: set_buf_def wf_block_def ptr_mem_def bindR_eq_Inr rdsi_def rds_eq_Inr
      split: if_splits)

lemma block_bytes_set_buf: "set_buf buf len = Inr b \<Longrightarrow> block_bytes b = take (nat len) buf"
  by (auto simp: set_buf_def block_bytes_def ptr_mem_def bindR_eq_Inr rdsi_def rds_eq_Inr
      split: if_splits)

lemma wf_block_assign_str [simp]: "wf_block (assign_str s)"
  and block_bytes_assign_str [simp]: "block_bytes (assign_str s) = s"
  by (simp_all add: wf_block_def block_bytes_def assign_str_def ptr_mem_def)

text \<open>\<open>read_bytes\<close> is the prefix and \<open>skip_bytes\<close> leaves the suffix.\<close>

lemma read_bytes_contents:
  "wf_blocks bs \<Longrightarrow> int (length acc) \<le> len \<Longrightarrow>
     read_bytes bs len acc = Inr (acc @ take (nat len - length acc) (contents bs))"
proof (induction bs arbitrary: acc)
  case (Cons b bs)
  let ?remain = "len - int (length acc)"
  from Cons.prems have wf: "wf_block b" "wf_blocks bs" by simp_all
  from wf obtain a where ptr: "m_ptr b = Some a" using wf_block_ptr by fastforce
  have len: "int (length (block_bytes b)) = m_len b"
    using wf(1) by (rule int_length_block_bytes)
  show ?case
  proof (cases "?remain < m_len b")
    case True
    with len Cons.prems have "nat len - length acc \<le> length (block_bytes b)" by simp
    moreover have "nat ?remain = nat len - length acc" by simp
    ultimately show ?thesis
      using True ptr Cons.prems rdsi_block_prefix [OF wf(1), of ?remain]
      by (simp add: Let_def)
  next
    case False
    with len have le: "length (block_bytes b) \<le> nat len - length acc" by simp
    have "read_bytes bs len (acc @ block_bytes b) =
        Inr ((acc @ block_bytes b) @ take (nat len - length (acc @ block_bytes b)) (contents bs))"
      using wf(2) False len by (intro Cons.IH) simp_all
    with False ptr le rdsi_block [OF wf(1)] show ?thesis by (simp add: Let_def)
  qed
qed simp

lemma skip_bytes_contents:
  "wf_blocks bs \<Longrightarrow> k \<le> len \<Longrightarrow>
     \<exists>bs'. skip_bytes bs len k = Inr (bs', k + min (len - k) (int (length (contents bs)))) \<and>
       wf_blocks bs' \<and> contents bs' = drop (nat (len - k)) (contents bs)"
proof (induction bs arbitrary: k)
  case (Cons b bs)
  from Cons.prems have wf: "wf_block b" "wf_blocks bs" by simp_all
  from wf obtain a where ptr: "m_ptr b = Some a" using wf_block_ptr by fastforce
  have len: "int (length (block_bytes b)) = m_len b"
    using wf(1) by (rule int_length_block_bytes)
  show ?case
  proof (cases "len - k < m_len b")
    case True
    with Cons.prems ptr len wf show ?thesis
      by (simp add: Let_def wf_block_advance block_bytes_advance)
  next
    case False
    have "0 \<le> m_len b" using wf(1) by (simp add: wf_block_def)
    with False have "k + m_len b \<le> len" by simp
    from Cons.IH [OF wf(2) this] obtain bs' where
      "skip_bytes bs len (k + m_len b) =
         Inr (bs', k + m_len b + min (len - (k + m_len b)) (int (length (contents bs))))"
      "wf_blocks bs'" "contents bs' = drop (nat (len - (k + m_len b))) (contents bs)" by blast
    moreover have "nat (len - k) - length (block_bytes b) = nat (len - (k + m_len b))"
      using len by linarith
    ultimately show ?thesis using False ptr len by (auto simp: Let_def)
  qed
qed simp

text \<open>\<open>read_bytes_ec\<close> is the first line, cut at \<open>len\<close>.\<close>

fun first_line :: "nat \<Rightarrow> byte \<Rightarrow> byte list \<Rightarrow> byte list" where
  "first_line 0 c xs = []"
| "first_line (Suc n) c [] = []"
| "first_line (Suc n) c (x # xs) = (if x = c then [x] else x # first_line n c xs)"

lemma first_line_Nil [simp]: "first_line n c [] = []"
  by (cases n) auto

lemma first_line_append:
  "first_line n c (xs @ ys) =
     (if c \<in> set (take n xs) then first_line n c xs
      else take n xs @ first_line (n - length xs) c ys)"
proof (induction n c xs rule: first_line.induct)
  case (1 c xs)
  then show ?case by simp
next
  case (2 n c)
  then show ?case by simp
next
  case (3 n c x xs)
  then show ?case by auto
qed

lemma first_line_eq:
  "first_line n c xs = takeWhile (\<lambda>x. x \<noteq> c) (take n xs) @ (if c \<in> set (take n xs) then [c] else [])"
  by (induction n c xs rule: first_line.induct) auto

lemma first_line_take: "\<exists>k \<le> n. first_line n c xs = take k xs"
proof (induction n c xs rule: first_line.induct)
  case (3 n c x xs)
  then show ?case
    by (cases "x = c") (auto intro: exI [of _ 1] exI [of _ "Suc k" for k])
qed auto

lemma first_line_prefix: "take (length (first_line n c xs)) xs = first_line n c xs"
  using first_line_take [of n c xs] by (auto simp: min_def)

lemma length_first_line:
  "length (first_line n c xs) \<le> n" "length (first_line n c xs) \<le> length xs"
  by (induction n c xs rule: first_line.induct) auto

lemma first_line_eq_Nil: "first_line n c xs = [] \<longleftrightarrow> n = 0 \<or> xs = []"
  by (cases n; cases xs) auto

lemma ec_block_first_line:
  "c \<notin> set acc \<Longrightarrow> int (length acc) \<le> len \<Longrightarrow>
     ec_block xs len c acc =
       (c \<in> set (take (nat len - length acc) xs) \<or> nat len - length acc < length xs,
        acc @ first_line (nat len - length acc) c xs)"
proof (induction xs arbitrary: acc)
  case (Cons x xs)
  show ?case
  proof (cases "int (length acc) \<ge> len")
    case True
    with Cons.prems have "nat len - length acc = 0" by simp
    with True show ?thesis by simp
  next
    case False
    then obtain n where n: "nat len - length acc = Suc n" by (cases "nat len - length acc") auto
    then have n': "nat len - length (acc @ [x]) = n" by simp
    show ?thesis
    proof (cases "x = c")
      case True
      with False n show ?thesis by simp
    next
      case neq: False
      have "ec_block xs len c (acc @ [x]) =
          (c \<in> set (take n xs) \<or> n < length xs, (acc @ [x]) @ first_line n c xs)"
        using Cons.IH [of "acc @ [x]"] Cons.prems False neq n' by simp
      with False neq n show ?thesis by auto
    qed
  qed
qed simp

lemma read_bytes_ec_contents:
  "wf_blocks bs \<Longrightarrow> c \<notin> set acc \<Longrightarrow> int (length acc) \<le> len \<Longrightarrow>
     read_bytes_ec bs len c acc = acc @ first_line (nat len - length acc) c (contents bs)"
proof (induction bs arbitrary: acc)
  case (Cons b bs)
  let ?n = "nat len - length acc" and ?xs = "block_bytes b"
  from Cons.prems obtain a where ptr: "m_ptr b = Some a" using wf_block_ptr by fastforce
  have ec: "ec_block ?xs len c acc =
      (c \<in> set (take ?n ?xs) \<or> ?n < length ?xs, acc @ first_line ?n c ?xs)"
    using Cons.prems(2,3) by (rule ec_block_first_line)
  show ?case
  proof (cases "c \<in> set (take ?n ?xs) \<or> ?n < length ?xs")
    case True
    then have "first_line ?n c (?xs @ contents bs) = first_line ?n c ?xs"
      by (auto simp: first_line_append first_line_eq)
    with True ec ptr show ?thesis by simp
  next
    case False
    then have fl: "first_line ?n c ?xs = ?xs" and notin: "c \<notin> set ?xs"
      by (auto simp: first_line_eq takeWhile_eq_all_conv)
    have "read_bytes_ec bs len c (acc @ ?xs) =
        (acc @ ?xs) @ first_line (nat len - length (acc @ ?xs)) c (contents bs)"
      using False notin Cons.prems by (intro Cons.IH) auto
    with False ec fl ptr show ?thesis by (simp add: first_line_append)
  qed
qed simp

text \<open>What is left to skip: every call with a positive length on a non-empty list makes it smaller.\<close>

definition block_size :: "cdpi_bytes list \<Rightarrow> nat" where
  "block_size bs = (\<Sum>b \<leftarrow> bs. Suc (nat (m_len b)))"

lemma skip_bytes_size:
  "skip_bytes bs len k = Inr (bs', r) \<Longrightarrow> k \<le> len \<Longrightarrow>
     block_size bs' \<le> block_size bs \<and> (k < len \<and> bs \<noteq> [] \<longrightarrow> block_size bs' < block_size bs)"
proof (induction bs arbitrary: k)
  case (Cons b bs)
  show ?case
  proof (cases "len - k < m_len b")
    case True
    with Cons.prems show ?thesis by (auto simp: Let_def block_size_def split: if_splits)
  next
    case False
    with Cons.prems(1) have "skip_bytes bs len (k + m_len b) = Inr (bs', r)"
      by (simp add: Let_def split: if_splits)
    with Cons.IH [OF this] False show ?thesis by (simp add: block_size_def)
  qed
qed (simp add: block_size_def)

section \<open>The interface to the protocol parsers\<close>

text \<open>
  What the parsers rely on: a queue of bytes from which a prefix can be peeked and then removed,
  with the string it stands for. \<open>size\<close> decreases when something is removed, which is why the
  parsing loops end.
\<close>

locale byte_queue =
  fixes view :: "'q \<Rightarrow> byte list"
    and invar :: "'q \<Rightarrow> bool"
    and peek :: "'q \<Rightarrow> int \<Rightarrow> byte list result"
    and skip :: "'q \<Rightarrow> int \<Rightarrow> ('q \<times> int) result"
  assumes peek: "invar q \<Longrightarrow> 0 \<le> n \<Longrightarrow> peek q n = Inr (take (nat n) (view q))"
    and skip: "invar q \<Longrightarrow> 0 \<le> n \<Longrightarrow>
      \<exists>q'. skip q n = Inr (q', min n (int (length (view q)))) \<and> invar q' \<and>
        view q' = drop (nat n) (view q)"
begin

lemma peek_length: "invar q \<Longrightarrow> 0 \<le> n \<Longrightarrow> peek q n = Inr xs \<Longrightarrow> int (length xs) \<le> n"
  by (auto simp: peek)

lemma peek_exact:
  "invar q \<Longrightarrow> 0 \<le> n \<Longrightarrow> n \<le> int (length (view q)) \<Longrightarrow>
     \<exists>xs. peek q n = Inr xs \<and> int (length xs) = n"
  by (simp add: peek)

lemma skip_invar: "invar q \<Longrightarrow> 0 \<le> n \<Longrightarrow> skip q n = Inr (q', k) \<Longrightarrow> invar q'"
  using skip by fastforce

lemma skip_view:
  "invar q \<Longrightarrow> 0 \<le> n \<Longrightarrow> skip q n = Inr (q', k) \<Longrightarrow> view q' = drop (nat n) (view q)"
  using skip by fastforce

lemma skip_count:
  "invar q \<Longrightarrow> 0 \<le> n \<Longrightarrow> skip q n = Inr (q', k) \<Longrightarrow>
     k = min n (int (length (view q)))"
  using skip by fastforce

lemma peek_skip:
  "invar q \<Longrightarrow> 0 \<le> n \<Longrightarrow> peek q n = Inr xs \<Longrightarrow> skip q n = Inr (q', k) \<Longrightarrow>
     view q = xs @ view q' \<and> k = int (length xs)"
  using peek [of q n] skip_view [of q n q' k] skip_count [of q n q' k] by auto

lemma skip_decreases:
  "invar q \<Longrightarrow> 0 < n \<Longrightarrow> view q \<noteq> [] \<Longrightarrow> skip q n = Inr (q', k) \<Longrightarrow>
     length (view q') < length (view q)"
  using skip_view [of q n q' k] by (cases "view q") auto

lemma skip_returns: "invar q \<Longrightarrow> 0 \<le> n \<Longrightarrow> returns (skip q n)"
  using skip [of q n] by (auto simp: returns_def)

end

text \<open>A queue that also reads one line, cut at a limit.\<close>

locale line_queue = byte_queue +
  fixes line :: "'a \<Rightarrow> int \<Rightarrow> byte \<Rightarrow> byte list"
  assumes line: "invar q \<Longrightarrow> 0 \<le> n \<Longrightarrow> line q n c = first_line (nat n) c (view q)"
begin

lemma line_prefix:
  "invar q \<Longrightarrow> 0 \<le> n \<Longrightarrow>
     line q n c = take (length (line q n c)) (view q) \<and> int (length (line q n c)) \<le> n \<and>
     length (line q n c) \<le> length (view q)"
  using length_first_line [of "nat n" c "view q"]
  by (auto simp: line first_line_prefix)

lemma line_eq_Nil: "invar q \<Longrightarrow> 0 < n \<Longrightarrow> line q n c = [] \<longleftrightarrow> view q = []"
  by (simp add: line first_line_eq_Nil)

text \<open>Skipping a line that was read removes exactly that line.\<close>

lemma line_skip:
  assumes "invar q" "0 \<le> n" "skip q (int (length (line q n c))) = Inr (q', k)"
  shows "view q = line q n c @ view q'" "invar q'" "k = int (length (line q n c))"
proof -
  let ?l = "line q n c"
  have pre: "?l = take (length ?l) (view q)" "length ?l \<le> length (view q)"
    using line_prefix [OF assms(1,2)] by simp_all
  have "view q' = drop (length ?l) (view q)"
    using skip_view [OF assms(1) _ assms(3)] by simp
  then show "view q = ?l @ view q'" by (metis append_take_drop_id pre(1))
  show "invar q'" using skip_invar [OF assms(1) _ assms(3)] by simp
  show "k = int (length ?l)" using skip_count [OF assms(1) _ assms(3)] pre(2) by simp
qed

end

interpretation blocks: line_queue contents wf_blocks
  "\<lambda>bs n. read_bytes bs n []" "\<lambda>bs n. skip_bytes bs n 0"
  "\<lambda>bs n c. read_bytes_ec bs n c []"
proof
  show "wf_blocks q \<Longrightarrow> 0 \<le> n \<Longrightarrow> read_bytes q n [] = Inr (take (nat n) (contents q))" for q n
    using read_bytes_contents [of q "[]" n] by simp
  show "wf_blocks q \<Longrightarrow> 0 \<le> n \<Longrightarrow> \<exists>q'. skip_bytes q n 0 =
      Inr (q', min n (int (length (contents q)))) \<and> wf_blocks q' \<and>
      contents q' = drop (nat n) (contents q)" for q n
    using skip_bytes_contents [of q 0 n] by simp
  show "wf_blocks q \<Longrightarrow> 0 \<le> n \<Longrightarrow>
      read_bytes_ec q n c [] = first_line (nat n) c (contents q)" for q n c
    using read_bytes_ec_contents [of q c "[]" n] by simp
qed

section \<open>Comparison is lexicographic\<close>

lemma memcmp_less: "length xs = length ys \<Longrightarrow> memcmp xs ys < 0 \<longleftrightarrow> xs < ys"
  by (induction xs ys rule: memcmp.induct) auto

lemma memcmp_zero: "length xs = length ys \<Longrightarrow> memcmp xs ys = 0 \<longleftrightarrow> xs = ys"
  by (induction xs ys rule: memcmp.induct) auto

lemma memcmp_greater: "length xs = length ys \<Longrightarrow> memcmp xs ys > 0 \<longleftrightarrow> ys < xs"
  by (induction xs ys rule: memcmp.induct) auto

lemma less_by_prefix:
  fixes xs ys :: "byte list"
  assumes "n = min (length xs) (length ys)"
  shows "xs < ys \<longleftrightarrow> take n xs < take n ys \<or> take n xs = take n ys \<and> length xs < length ys"
  using assms
proof (induction xs arbitrary: ys n)
  case Nil
  then show ?case by (cases ys) auto
next
  case (Cons x xs)
  show ?case
  proof (cases ys)
    case Nil
    with Cons.prems show ?thesis by simp
  next
    case (Cons y zs)
    with Cons.prems have "n = Suc (min (length xs) (length zs))" by simp
    with Cons Cons.IH [of _ zs] show ?thesis by auto
  qed
qed

lemma find_char_from_eq:
  "find_char_from n xs c =
     (if c \<in> set xs then n + int (length (takeWhile (\<lambda>x. x \<noteq> c) xs)) else - 1)"
  by (induction n xs c rule: find_char_from.induct) auto

lemma find_char_eq:
  "find_char xs c =
     (if c \<in> set xs then int (length (takeWhile (\<lambda>x. x \<noteq> c) xs)) else - 1)"
  by (simp add: find_char_def find_char_from_eq)

lemma length_takeWhile_neq: "c \<in> set xs \<Longrightarrow> length (takeWhile (\<lambda>x. x \<noteq> c) xs) < length xs"
  by (induction xs) auto

lemma find_char_less: "find_char xs c < int (length xs)"
  by (auto simp: find_char_eq intro: length_takeWhile_neq)

lemma find_char_negative [simp]: "find_char xs c < 0 \<longleftrightarrow> c \<notin> set xs"
  by (auto simp: find_char_eq)

lemma find_char_split:
  assumes "0 \<le> find_char xs c"
  shows "xs = take (nat (find_char xs c)) xs @ c # drop (Suc (nat (find_char xs c))) xs"
    and "c \<notin> set (take (nat (find_char xs c)) xs)"
proof -
  from assms have c: "c \<in> set xs" by (simp add: find_char_eq split: if_splits)
  let ?k = "length (takeWhile (\<lambda>x. x \<noteq> c) xs)"
  from c have k: "nat (find_char xs c) = ?k" by (simp add: find_char_eq)
  from c have less: "?k < length xs" by (rule length_takeWhile_neq)
  then have "xs ! ?k = c" using nth_length_takeWhile [of "\<lambda>x. x \<noteq> c" xs] by simp
  with less show "xs = take (nat (find_char xs c)) xs @ c # drop (Suc (nat (find_char xs c))) xs"
    by (metis k id_take_nth_drop)
  have "take ?k xs = takeWhile (\<lambda>x. x \<noteq> c) xs" by (metis takeWhile_eq_take)
  then show "c \<notin> set (take (nat (find_char xs c)) xs)"
    by (simp add: k) (metis (mono_tags, lifting) set_takeWhileD)
qed

section \<open>Properties\<close>

text \<open>Two segments of one string, with positions inside of their arrays.\<close>

definition sample_blocks :: "cdpi_bytes list" where
  "sample_blocks =
     [\<lparr>m_ptr = Some [0, 71, 69], m_pos = 1, m_len = 2\<rparr>,
      \<lparr>m_ptr = Some [84, 32, 10, 1], m_pos = 0, m_len = 3\<rparr>]"

lemma sample_blocks_wf: "wf_blocks sample_blocks"
  and sample_blocks_contents: "contents sample_blocks = [71, 69, 84, 32, 10]"
  by (simp_all add: sample_blocks_def wf_block_def ptr_mem_def block_bytes_def)

text \<open>
  C16: reading and skipping refine a byte string: for well-formed blocks \<open>read_bytes\<close> returns the
  first \<open>n\<close> bytes (all of them when there are fewer), and \<open>skip_bytes\<close> ends, removes exactly these
  bytes, reports how many they were and keeps the blocks well-formed, wherever the boundaries
  between the blocks fall.
\<close>

theorem read_skip_refine:
  assumes "wf_blocks bs" "0 \<le> n"
  shows "\<exists>xs bs'. read_bytes bs n [] = Inr xs \<and> skip_bytes bs n 0 = Inr (bs', int (length xs)) \<and>
    wf_blocks bs' \<and> contents bs = xs @ contents bs' \<and>
    length xs = min (nat n) (length (contents bs))"
proof -
  obtain bs' k where s: "skip_bytes bs n 0 = Inr (bs', k)"
    using blocks.skip [OF assms] by blast
  have r: "read_bytes bs n [] = Inr (take (nat n) (contents bs))" by (rule blocks.peek [OF assms])
  with s show ?thesis
    using blocks.peek_skip [OF assms r s] blocks.skip_invar [OF assms s] by (auto simp: min_def)
qed

theorem read_skip_refine_witness:
  "\<exists>xs bs'. read_bytes sample_blocks 3 [] = Inr xs \<and> skip_bytes sample_blocks 3 0 = Inr (bs', 3) \<and>
    [71, 69, 84, 32, 10] = xs @ contents bs'"
  using read_skip_refine [OF sample_blocks_wf, of 3] by (auto simp: sample_blocks_contents)

text \<open>
  \<open>read_bytes_ec\<close> returns the bytes up to and including the first \<open>c\<close>, cut at \<open>n\<close>, and skipping
  as many bytes as it returned removes exactly that line.
\<close>

theorem read_line_refine:
  assumes "wf_blocks bs" "0 \<le> n"
  shows "read_bytes_ec bs n c [] =
      takeWhile (\<lambda>x. x \<noteq> c) (take (nat n) (contents bs)) @
      (if c \<in> set (take (nat n) (contents bs)) then [c] else []) \<and>
    (\<exists>bs'. skip_bytes bs (int (length (read_bytes_ec bs n c []))) 0 =
        Inr (bs', int (length (read_bytes_ec bs n c []))) \<and>
      wf_blocks bs' \<and> contents bs = read_bytes_ec bs n c [] @ contents bs')"
proof -
  obtain bs' k where s: "skip_bytes bs (int (length (read_bytes_ec bs n c []))) 0 = Inr (bs', k)"
    using blocks.skip [OF assms(1), of "int (length (read_bytes_ec bs n c []))"] by auto
  have "read_bytes_ec bs n c [] = takeWhile (\<lambda>x. x \<noteq> c) (take (nat n) (contents bs)) @
      (if c \<in> set (take (nat n) (contents bs)) then [c] else [])"
    by (simp only: blocks.line [OF assms] first_line_eq)
  moreover note blocks.line_skip [OF assms s] s
  ultimately show ?thesis by blast
qed

theorem read_line_refine_witness:
  "read_bytes_ec sample_blocks 64 LF [] = [71, 69, 84, 32, LF]"
  using read_line_refine [OF sample_blocks_wf, of 64 LF] by (simp add: sample_blocks_contents)

text \<open>
  A block without an array makes \<open>skip_bytes\<close> loop for ever, although \<open>read_bytes\<close> steps over it:
  the branch starts the loop again without advancing the iterator.
\<close>

lemma skip_bytes_diverges:
  assumes "m_ptr b = None"
  shows "skip_bytes (b # bs) n 0 = Inl Diverges \<and> read_bytes (b # bs) n [] = read_bytes bs n []"
  using assms by simp

lemma skip_bytes_diverges_example:
  "skip_bytes (empty_bytes # sample_blocks) 3 0 = Inl Diverges"
  using skip_bytes_diverges [of empty_bytes sample_blocks 3] by (simp add: empty_bytes_def)

text \<open>Both comparisons, on the windows.\<close>

lemma bytes_compare:
  assumes "wf_block a" "wf_block b"
  shows "bytes_less a b = Inr (block_bytes a < block_bytes b) \<and>
    bytes_eq a b = Inr (block_bytes a = block_bytes b)"
proof -
  let ?xs = "block_bytes a" and ?ys = "block_bytes b"
  have len: "int (length ?xs) = m_len a" "int (length ?ys) = m_len b"
    using assms by (simp_all add: int_length_block_bytes)
  have read: "rdsi (ptr_mem a) (m_pos a) (m_len a) = Inr ?xs"
    "rdsi (ptr_mem b) (m_pos b) (m_len b) = Inr ?ys"
    using assms by (simp_all add: rdsi_block)
  show ?thesis
  proof (cases "m_len a = m_len b")
    case True
    with len have "length ?xs = length ?ys" by linarith
    with True read show ?thesis
      by (simp add: bytes_less_def bytes_eq_def memcmp_less memcmp_zero)
  next
    case False
    let ?n = "if m_len a < m_len b then m_len a else m_len b"
    have n: "nat ?n = min (length ?xs) (length ?ys)" using len by auto
    have "rdsi (ptr_mem a) (m_pos a) ?n = Inr (take (nat ?n) ?xs)"
      "rdsi (ptr_mem b) (m_pos b) ?n = Inr (take (nat ?n) ?ys)"
      using assms by (auto simp: wf_block_def intro!: rdsi_block_prefix)
    moreover have "length (take (nat ?n) ?xs) = length (take (nat ?n) ?ys)" using n by simp
    moreover have "m_len a < m_len b \<longleftrightarrow> length ?xs < length ?ys" using len by linarith
    ultimately have "bytes_less a b = Inr (?xs < ?ys)"
      using False less_by_prefix [OF n]
      by (auto simp: bytes_less_def Let_def memcmp_less memcmp_greater)
    moreover have "?xs \<noteq> ?ys" using False len by auto
    ultimately show ?thesis using False by (simp add: bytes_eq_def)
  qed
qed

text \<open>
  C39: \<open>operator<\<close> of \<open>cdpi_bytes\<close> is the lexicographic order of the windows (a proper prefix is
  smaller) and \<open>operator==\<close> is their equality; both read only inside of the windows.
\<close>

theorem bytes_order:
  assumes "wf_block a" "wf_block b"
  shows "bytes_less a b = Inr (block_bytes a < block_bytes b) \<and>
    bytes_eq a b = Inr (block_bytes a = block_bytes b)"
  using assms by (rule bytes_compare)

theorem bytes_order_witness:
  "bytes_less (assign_str [1, 2]) (assign_str [1, 2, 0]) = Inr True"
  using bytes_order [of "assign_str [1, 2]" "assign_str [1, 2, 0]"] by simp

text \<open>The digits are told apart by their values.\<close>

lemma hex_digits_inject:
  "i < 16 \<Longrightarrow> j < 16 \<Longrightarrow> hex_digits ! i = hex_digits ! j \<longleftrightarrow> i = j"
proof -
  have "distinct hex_digits" "length hex_digits = 16"
    by (simp_all add: hex_digits_def str_def)
  then show "i < 16 \<Longrightarrow> j < 16 \<Longrightarrow> hex_digits ! i = hex_digits ! j \<longleftrightarrow> i = j"
    by (simp add: nth_eq_iff_index_eq)
qed

lemma unat_low_nibble: "unat (b AND 0x0f :: byte) = unat b mod 16"
proof -
  have "(b AND 0x0f) = take_bit 4 b" by (simp add: take_bit_eq_mask mask_eq_exp_minus_1)
  then have "unat (b AND 0x0f) = take_bit 4 (unat b)" by (simp only: unsigned_take_bit_eq)
  then show ?thesis by (simp add: take_bit_eq_mod)
qed

lemma unat_high_nibble: "unat (drop_bit 4 b :: byte) = unat b div 16"
proof -
  have "unat (drop_bit 4 b) = drop_bit 4 (take_bit 8 (unat b))" by (simp add: unsigned_drop_bit_eq)
  also have "take_bit 8 (unat b) = unat b" by (simp add: take_bit_nat_eq_self)
  finally show ?thesis by (simp add: drop_bit_eq_div)
qed

lemma nibble_less: "unat (b AND 0x0f :: byte) < 16"
  by (simp add: unat_low_nibble)

lemma byte_nibbles:
  fixes b :: byte
  shows "unat b = 16 * unat (drop_bit 4 b AND 0x0f) + unat (b AND 0x0f)"
proof -
  have "unat b < 256" by (rule unat_byte_less)
  then have "unat b div 16 < 16" by (simp add: less_mult_imp_div_less)
  then show ?thesis by (simp only: unat_low_nibble unat_high_nibble) simp
qed

lemma byte_eq_nibbles:
  fixes b c :: byte
  shows "b = c \<longleftrightarrow> drop_bit 4 b AND 0x0f = drop_bit 4 c AND 0x0f \<and> b AND 0x0f = c AND 0x0f"
  using byte_nibbles [of b] byte_nibbles [of c] by (metis word_unat_eq_iff)

text \<open>
  \<open>bin2str\<close> writes two digits for each byte and loses nothing: different byte strings have
  different texts.
\<close>

theorem bin2str_injective:
  "length (bin2str xs) = 2 * length xs \<and> (bin2str xs = bin2str ys \<longleftrightarrow> xs = ys)"
proof (induction xs arbitrary: ys)
  case Nil
  then show ?case by (cases ys) (simp_all add: bin2str_def)
next
  case (Cons x xs)
  show ?case
  proof (cases ys)
    case Nil
    with Cons show ?thesis by (simp add: bin2str_def)
  next
    case c: (Cons y zs)
    have "x = y \<longleftrightarrow> hex_digits ! unat (drop_bit 4 x AND 0x0f) = hex_digits ! unat (drop_bit 4 y AND 0x0f)
        \<and> hex_digits ! unat (x AND 0x0f) = hex_digits ! unat (y AND 0x0f)"
      using byte_eq_nibbles [of x y] nibble_less
      by (simp only: hex_digits_inject word_unat_eq_iff [symmetric])
    with Cons [of zs] c show ?thesis by (auto simp: bin2str_def)
  qed
qed

end
