(* ===== verification/Ident.thy ===== *)
theory Ident
  imports Bytes
begin

text \<open>
  \<open>cdpi_id.hpp\<close> and \<open>cdpi_id.cpp\<close>: endpoints, connection identifiers that do not depend on the
  direction of a packet, and \<open>set_iph\<close>, which computes the identifier and the direction from the
  IP header. The comparison operators of the source are the orders of the model's types, so the
  maps that the program keys by them are the ordered maps of the prelude.
\<close>

section \<open>Endpoints\<close>

text \<open>
  The union \<open>l3_addr\<close> is its 16 bytes (\<open>b32\<close> is the first four of them); \<open>l4_port\<close> holds the
  port in network order. \<open>peer_mem\<close> is the object representation that \<open>memcmp\<close> reads.
\<close>

datatype cdpi_peer = Peer (l3_addr: "byte list") (l4_port: "16 word") (padding: "16 word")

definition peer_mem :: "cdpi_peer \<Rightarrow> byte list" where
  "peer_mem p = l3_addr p @ le_bytes 2 (unat (l4_port p)) @ le_bytes 2 (unat (padding p))"

definition peer_init :: cdpi_peer where
  "peer_init = Peer (replicate 16 0) 0 0"

text \<open>\<open>operator<\<close>, \<open>operator==\<close>: \<open>memcmp\<close> of the two objects.\<close>

definition peer_less :: "cdpi_peer \<Rightarrow> cdpi_peer \<Rightarrow> bool" where
  "peer_less p q = (memcmp (peer_mem p) (peer_mem q) < 0)"

definition peer_eq :: "cdpi_peer \<Rightarrow> cdpi_peer \<Rightarrow> bool" where
  "peer_eq p q = (memcmp (peer_mem p) (peer_mem q) = 0)"

text \<open>Every object has the same size.\<close>

definition wf_peer :: "cdpi_peer \<Rightarrow> bool" where
  "wf_peer p \<longleftrightarrow> length (l3_addr p) = 16"

lemma length_peer_mem [simp]: "wf_peer p \<Longrightarrow> length (peer_mem p) = 20"
  by (simp add: wf_peer_def peer_mem_def)

lemma peer_mem_inject [simp]: "peer_mem p = peer_mem q \<longleftrightarrow> p = q"
proof
  assume eq: "peer_mem p = peer_mem q"
  then have "length (peer_mem p) = length (peer_mem q)" by simp
  then have "length (l3_addr p) = length (l3_addr q)" by (simp add: peer_mem_def)
  with eq have l3: "l3_addr p = l3_addr q"
    and "le_bytes 2 (unat (l4_port p)) = le_bytes 2 (unat (l4_port q))"
    and "le_bytes 2 (unat (padding p)) = le_bytes 2 (unat (padding q))"
    by (simp_all add: peer_mem_def)
  then have "l4_port p = l4_port q" "padding p = padding q"
    by (metis u16_of_le_bytes)+
  with l3 show "p = q" by (simp add: cdpi_peer.expand)
qed simp

lemma peer_less_iff: "wf_peer p \<Longrightarrow> wf_peer q \<Longrightarrow> peer_less p q \<longleftrightarrow> peer_mem p < peer_mem q"
  by (simp add: peer_less_def memcmp_less)

lemma peer_eq_iff: "wf_peer p \<Longrightarrow> wf_peer q \<Longrightarrow> peer_eq p q \<longleftrightarrow> p = q"
  by (simp add: peer_eq_def memcmp_zero)

text \<open>
  The order of the type: on objects of the size of the source it is \<open>operator<\<close>
  (lemma \<open>peer_less_iff\<close>).
\<close>

instantiation cdpi_peer :: linorder
begin

definition less_cdpi_peer :: "cdpi_peer \<Rightarrow> cdpi_peer \<Rightarrow> bool" where
  "p < q \<longleftrightarrow> peer_mem p < peer_mem q"

definition less_eq_cdpi_peer :: "cdpi_peer \<Rightarrow> cdpi_peer \<Rightarrow> bool" where
  "p \<le> q \<longleftrightarrow> peer_mem p \<le> peer_mem q"

instance
  by standard (auto simp: less_cdpi_peer_def less_eq_cdpi_peer_def order.strict_iff_order)

end

section \<open>Connection identifiers\<close>

datatype cdpi_direction = FROM_ADDR1 | FROM_ADDR2 | FROM_NONE

text \<open>The two endpoints and the protocol numbers.\<close>

datatype cdpi_id =
  Id (m_addr1: cdpi_peer) (m_addr2: cdpi_peer) (m_l3_proto: byte) (m_l4_proto: byte)

definition id_less :: "cdpi_id \<Rightarrow> cdpi_id \<Rightarrow> bool" where
  "id_less a b =
     (if m_l3_proto a = m_l3_proto b then
        if m_l4_proto a = m_l4_proto b then
          let n = memcmp (peer_mem (m_addr1 a)) (peer_mem (m_addr1 b)) in
          if n = 0 then peer_less (m_addr2 a) (m_addr2 b)
          else n < 0
        else m_l4_proto a < m_l4_proto b
      else m_l3_proto a < m_l3_proto b)"

definition id_eq :: "cdpi_id \<Rightarrow> cdpi_id \<Rightarrow> bool" where
  "id_eq a b = (m_l3_proto a = m_l3_proto b \<and> m_l4_proto a = m_l4_proto b \<and>
     peer_eq (m_addr1 a) (m_addr1 b) \<and> peer_eq (m_addr2 a) (m_addr2 b))"

definition id_to_str :: "cdpi_id \<Rightarrow> byte list" where
  "id_to_str i = bin2str (peer_mem (m_addr1 i)) @ str '':'' @ bin2str (peer_mem (m_addr2 i))"

definition wf_id :: "cdpi_id \<Rightarrow> bool" where
  "wf_id i \<longleftrightarrow> wf_peer (m_addr1 i) \<and> wf_peer (m_addr2 i)"

text \<open>The key by which the order of identifiers is lexicographic.\<close>

definition id_key :: "cdpi_id \<Rightarrow> byte list list" where
  "id_key i = [[m_l3_proto i], [m_l4_proto i], peer_mem (m_addr1 i), peer_mem (m_addr2 i)]"

lemma id_key_inject [simp]: "id_key a = id_key b \<longleftrightarrow> a = b"
  by (auto simp: id_key_def cdpi_id.expand)

lemma id_less_iff: "wf_id a \<Longrightarrow> wf_id b \<Longrightarrow> id_less a b \<longleftrightarrow> id_key a < id_key b"
  by (auto simp: id_less_def id_key_def wf_id_def Let_def memcmp_zero memcmp_less peer_less_iff)

lemma id_eq_iff: "wf_id a \<Longrightarrow> wf_id b \<Longrightarrow> id_eq a b \<longleftrightarrow> a = b"
  by (auto simp: id_eq_def wf_id_def peer_eq_iff cdpi_id.expand)

instantiation cdpi_id :: linorder
begin

definition less_cdpi_id :: "cdpi_id \<Rightarrow> cdpi_id \<Rightarrow> bool" where
  "a < b \<longleftrightarrow> id_key a < id_key b"

definition less_eq_cdpi_id :: "cdpi_id \<Rightarrow> cdpi_id \<Rightarrow> bool" where
  "a \<le> b \<longleftrightarrow> id_key a \<le> id_key b"

instance
  by standard (auto simp: less_cdpi_id_def less_eq_cdpi_id_def order.strict_iff_order)

end

text \<open>An identifier together with the direction of the packets it is used for.\<close>

datatype cdpi_id_dir = IdDir (m_id: cdpi_id) (m_dir: cdpi_direction)

fun dir_num :: "cdpi_direction \<Rightarrow> nat" where
  "dir_num FROM_ADDR1 = 0"
| "dir_num FROM_ADDR2 = 1"
| "dir_num FROM_NONE = 2"

lemma dir_num_inject [simp]: "dir_num a = dir_num b \<longleftrightarrow> a = b"
  by (cases a; cases b) simp_all

definition id_dir_less :: "cdpi_id_dir \<Rightarrow> cdpi_id_dir \<Rightarrow> bool" where
  "id_dir_less a b =
     (if m_dir a = m_dir b then id_less (m_id a) (m_id b)
      else dir_num (m_dir a) < dir_num (m_dir b))"

definition id_dir_eq :: "cdpi_id_dir \<Rightarrow> cdpi_id_dir \<Rightarrow> bool" where
  "id_dir_eq a b = (m_dir a = m_dir b \<and> id_eq (m_id a) (m_id b))"

lemma id_dir_eq_iff: "wf_id (m_id a) \<Longrightarrow> wf_id (m_id b) \<Longrightarrow> id_dir_eq a b \<longleftrightarrow> a = b"
  by (auto simp: id_dir_eq_def id_eq_iff cdpi_id_dir.expand)

instantiation cdpi_id_dir :: linorder
begin

definition less_cdpi_id_dir :: "cdpi_id_dir \<Rightarrow> cdpi_id_dir \<Rightarrow> bool" where
  "a < b \<longleftrightarrow> dir_num (m_dir a) < dir_num (m_dir b) \<or> m_dir a = m_dir b \<and> m_id a < m_id b"

definition less_eq_cdpi_id_dir :: "cdpi_id_dir \<Rightarrow> cdpi_id_dir \<Rightarrow> bool" where
  "a \<le> b \<longleftrightarrow> dir_num (m_dir a) < dir_num (m_dir b) \<or> m_dir a = m_dir b \<and> m_id a \<le> m_id b"

instance
proof
  fix a b :: cdpi_id_dir
  show "a \<le> b \<or> b \<le> a"
    by (metis dir_num_inject less_eq_cdpi_id_dir_def linorder_linear linorder_neqE)
qed (auto simp: less_cdpi_id_dir_def less_eq_cdpi_id_dir_def cdpi_id_dir.expand)

end

lemma id_dir_less_iff:
  "wf_id (m_id a) \<Longrightarrow> wf_id (m_id b) \<Longrightarrow> id_dir_less a b \<longleftrightarrow> a < b"
  by (auto simp: id_dir_less_def less_cdpi_id_dir_def id_less_iff less_cdpi_id_def)

text \<open>The accessors that undo the normalisation.\<close>

definition get_src :: "cdpi_id_dir \<Rightarrow> cdpi_peer" where
  "get_src i = (if m_dir i = FROM_ADDR1 then m_addr1 (m_id i) else m_addr2 (m_id i))"

definition get_dst :: "cdpi_id_dir \<Rightarrow> cdpi_peer" where
  "get_dst i = (if m_dir i = FROM_ADDR1 then m_addr2 (m_id i) else m_addr1 (m_id i))"

definition get_ipv4_addr_src :: "cdpi_id_dir \<Rightarrow> 32 word" where
  "get_ipv4_addr_src i = (if m_dir i = FROM_ADDR1
     then u32_of (take 4 (l3_addr (m_addr1 (m_id i))))
     else u32_of (take 4 (l3_addr (m_addr2 (m_id i)))))"

definition get_ipv4_addr_dst :: "cdpi_id_dir \<Rightarrow> 32 word" where
  "get_ipv4_addr_dst i = (if m_dir i = FROM_ADDR1
     then u32_of (take 4 (l3_addr (m_addr2 (m_id i))))
     else u32_of (take 4 (l3_addr (m_addr1 (m_id i)))))"

definition get_port_src :: "cdpi_id_dir \<Rightarrow> 16 word" where
  "get_port_src i = (if m_dir i = FROM_ADDR1
     then l4_port (m_addr1 (m_id i)) else l4_port (m_addr2 (m_id i)))"

definition get_port_dst :: "cdpi_id_dir \<Rightarrow> 16 word" where
  "get_port_dst i = (if m_dir i = FROM_ADDR1
     then l4_port (m_addr2 (m_id i)) else l4_port (m_addr1 (m_id i)))"

section \<open>set_iph\<close>

abbreviation (input) IPPROTO_IP :: byte where "IPPROTO_IP \<equiv> 0"
abbreviation (input) IPPROTO_HOPOPTS :: byte where "IPPROTO_HOPOPTS \<equiv> 0"
abbreviation (input) IPPROTO_TCP :: byte where "IPPROTO_TCP \<equiv> 6"
abbreviation (input) IPPROTO_UDP :: byte where "IPPROTO_UDP \<equiv> 17"
abbreviation (input) IPPROTO_IPV6 :: byte where "IPPROTO_IPV6 \<equiv> 41"
abbreviation (input) IPPROTO_ROUTING :: byte where "IPPROTO_ROUTING \<equiv> 43"
abbreviation (input) IPPROTO_FRAGMENT :: byte where "IPPROTO_FRAGMENT \<equiv> 44"
abbreviation (input) IPPROTO_ESP :: byte where "IPPROTO_ESP \<equiv> 50"
abbreviation (input) IPPROTO_AH :: byte where "IPPROTO_AH \<equiv> 51"
abbreviation (input) IPPROTO_ICMPV6 :: byte where "IPPROTO_ICMPV6 \<equiv> 58"
abbreviation (input) IPPROTO_NONE :: byte where "IPPROTO_NONE \<equiv> 59"
abbreviation (input) IPPROTO_DSTOPTS :: byte where "IPPROTO_DSTOPTS \<equiv> 60"

text \<open>The end of both branches: the smaller endpoint becomes \<open>m_addr1\<close>.\<close>

definition order_peers ::
    "cdpi_peer \<Rightarrow> cdpi_peer \<Rightarrow> byte \<Rightarrow> byte \<Rightarrow> cdpi_direction \<times> cdpi_id" where
  "order_peers addr1 addr2 l3 l4 =
     (if peer_less addr1 addr2 then (FROM_ADDR1, Id addr1 addr2 l3 l4)
      else (FROM_ADDR2, Id addr2 addr1 l3 l4))"

text \<open>
  The IPv4 branch. \<open>iph\<close> is the memory from the header on; \<open>l4hdr\<close> is the offset that the
  source stores as a pointer. The source reads the ports without looking at the length of the
  packet, so a short packet is an access out of bounds.
\<close>

definition set_iph_v4 ::
    "byte list \<Rightarrow> (cdpi_direction \<times> cdpi_id \<times> nat option) result" where
  "set_iph_v4 iph =
     bindR (rds iph 12 4) (\<lambda>src. bindR (rds iph 16 4) (\<lambda>dst. bindR (rd iph 9) (\<lambda>ip_p.
       let a1 = src @ replicate 12 0; a2 = dst @ replicate 12 0 in
       if ip_p = IPPROTO_TCP \<or> ip_p = IPPROTO_UDP then
         bindR (rd iph 0) (\<lambda>vhl.
           let l4 = unat (vhl AND 0x0f) * 4 in
           bindR (rds iph l4 2) (\<lambda>sport. bindR (rds iph (l4 + 2) 2) (\<lambda>dport.
             let (dir, i) = order_peers (Peer a1 (u16_of sport) 0) (Peer a2 (u16_of dport) 0)
                              IPPROTO_IP ip_p
             in Inr (dir, i, Some l4))))
       else
         let (dir, i) = order_peers (Peer a1 0 0) (Peer a2 0 0) IPPROTO_IP ip_p
         in Inr (dir, i, None))))"

text \<open>
  The walk over the IPv6 extension headers. It ends at the first header that is not one of
  the five; that header's number and offset are the result. Every round moves the offset by
  at least 8, so the walk ends or leaves the packet.
\<close>

function v6_walk :: "byte list \<Rightarrow> byte \<Rightarrow> nat \<Rightarrow> (byte \<times> nat) result" where
  "v6_walk mem nxt p =
     (if nxt = IPPROTO_HOPOPTS \<or> nxt = IPPROTO_ROUTING \<or> nxt = IPPROTO_ESP \<or>
         nxt = IPPROTO_AH \<or> nxt = IPPROTO_DSTOPTS then
        bindR (rd mem p) (\<lambda>nxt'. bindR (rd mem (p + 1)) (\<lambda>len.
          v6_walk mem nxt' (if len = 0 then p + 8 else p + unat len * 8)))
      else Inr (nxt, p))"
  by pat_completeness auto
termination
proof (relation "measure (\<lambda>(mem, nxt, p). length mem - p)", goal_cases)
  case (2 mem nxt p nxt' len)
  then have "p < length mem" by (simp add: rd_eq_Inr)
  moreover have "len \<noteq> 0 \<Longrightarrow> 0 < unat len" by (simp add: unat_gt_0)
  ultimately show ?case by auto
qed simp

declare v6_walk.simps [simp del]

text \<open>
  The IPv6 branch. Only TCP and UDP set \<open>m_l4_proto\<close>; otherwise it keeps the value \<open>l4_old\<close>
  that the object had before.
\<close>

definition set_iph_v6 ::
    "byte \<Rightarrow> byte list \<Rightarrow> (cdpi_direction \<times> cdpi_id \<times> nat option) result" where
  "set_iph_v6 l4_old iph =
     bindR (rd iph 6) (\<lambda>nxt. bindR (rds iph 8 16) (\<lambda>src. bindR (rds iph 24 16) (\<lambda>dst.
       bindR (v6_walk iph nxt 40) (\<lambda>(nxt', p).
         if nxt' = IPPROTO_TCP \<or> nxt' = IPPROTO_UDP then
           bindR (rds iph p 2) (\<lambda>sport. bindR (rds iph (p + 2) 2) (\<lambda>dport.
             let (dir, i) = order_peers (Peer src (u16_of sport) 0) (Peer dst (u16_of dport) 0)
                              IPPROTO_IPV6 nxt'
             in Inr (dir, i, Some p)))
         else
           let (dir, i) = order_peers (Peer src 0 0) (Peer dst 0 0) IPPROTO_IPV6 l4_old
           in Inr (dir, i, None)))))"

definition set_iph ::
    "cdpi_id \<Rightarrow> byte list \<Rightarrow> byte \<Rightarrow> (cdpi_direction \<times> cdpi_id \<times> nat option) result" where
  "set_iph old iph protocol =
     (if protocol = IPPROTO_IP then set_iph_v4 iph
      else if protocol = IPPROTO_IPV6 then set_iph_v6 (m_l4_proto old) iph
      else Inr (FROM_NONE, old, None))"

section \<open>What set_iph computes\<close>

fun flip_dir :: "cdpi_direction \<Rightarrow> cdpi_direction" where
  "flip_dir FROM_ADDR1 = FROM_ADDR2"
| "flip_dir FROM_ADDR2 = FROM_ADDR1"
| "flip_dir FROM_NONE = FROM_NONE"

lemma order_peers_cases:
  assumes "order_peers p q l3 l4 = (d, i)"
  obtains (addr1) "peer_less p q" "d = FROM_ADDR1" "i = Id p q l3 l4"
    | (addr2) "\<not> peer_less p q" "d = FROM_ADDR2" "i = Id q p l3 l4"
  using assms by (auto simp: order_peers_def split: if_splits)

lemma order_peers_swap:
  assumes "wf_peer p" "wf_peer q" "order_peers p q l3 l4 = (d, i)"
  shows "order_peers q p l3 l4 = (if p = q then d else flip_dir d, i)"
  using assms(3)
proof (cases rule: order_peers_cases)
  case addr1
  with assms(1,2) show ?thesis by (auto simp: order_peers_def peer_less_iff)
next
  case addr2
  with assms(1,2) show ?thesis
    by (cases "p = q") (auto simp: order_peers_def peer_less_iff)
qed

lemma order_peers_get:
  "order_peers p q l3 l4 = (d, i) \<Longrightarrow> get_src (IdDir i d) = p \<and> get_dst (IdDir i d) = q"
  by (erule order_peers_cases) (simp_all add: get_src_def get_dst_def)

lemma order_peers_canonical:
  assumes "wf_peer p" "wf_peer q" "order_peers p q l3 l4 = (d, i)"
  shows "m_addr1 i \<le> m_addr2 i" "wf_id i" "m_l3_proto i = l3" "m_l4_proto i = l4"
    "d \<in> {FROM_ADDR1, FROM_ADDR2}"
  using assms(3) assms(1,2)
  by (cases rule: order_peers_cases;
      auto simp: wf_id_def peer_less_iff less_cdpi_peer_def [symmetric])+

text \<open>The packet of the opposite direction: addresses and ports exchanged.\<close>

definition v4_reverse :: "byte list \<Rightarrow> byte list" where
  "v4_reverse iph =
     (let l4 = unat (iph ! 0 AND 0x0f) * 4;
          src = take 4 (drop 12 iph); dst = take 4 (drop 16 iph);
          sport = take 2 (drop l4 iph); dport = take 2 (drop (l4 + 2) iph)
      in overwrite (overwrite (overwrite (overwrite iph 12 dst) 16 src) l4 dport) (l4 + 2) sport)"

text \<open>A TCP or UDP packet whose header length covers the fixed part of the IPv4 header.\<close>

definition v4_ports :: "byte list \<Rightarrow> bool" where
  "v4_ports iph \<longleftrightarrow> 20 \<le> length iph \<and>
     (iph ! 9 = IPPROTO_TCP \<or> iph ! 9 = IPPROTO_UDP) \<and>
     20 \<le> unat (iph ! 0 AND 0x0f) * 4 \<and> unat (iph ! 0 AND 0x0f) * 4 + 4 \<le> length iph"

lemma set_iph_v4_ports:
  assumes "v4_ports iph" and l4: "l4 = unat (iph ! 0 AND 0x0f) * 4"
  shows "set_iph_v4 iph =
    (let (d, i) = order_peers
       (Peer (take 4 (drop 12 iph) @ replicate 12 0) (u16_of (take 2 (drop l4 iph))) 0)
       (Peer (take 4 (drop 16 iph) @ replicate 12 0) (u16_of (take 2 (drop (l4 + 2) iph))) 0)
       IPPROTO_IP (iph ! 9)
     in Inr (d, i, Some l4))"
proof -
  have "rd iph 9 = Inr (iph ! 9)" "rd iph 0 = Inr (iph ! 0)"
    "rds iph 12 4 = Inr (take 4 (drop 12 iph))" "rds iph 16 4 = Inr (take 4 (drop 16 iph))"
    "rds iph l4 2 = Inr (take 2 (drop l4 iph))"
    "rds iph (l4 + 2) 2 = Inr (take 2 (drop (l4 + 2) iph))"
    using assms by (auto simp: v4_ports_def rd_def rds_def)
  with assms show ?thesis by (simp add: set_iph_v4_def v4_ports_def Let_def)
qed

lemma v4_reverse_reads:
  assumes "v4_ports iph" and l4: "l4 = unat (iph ! 0 AND 0x0f) * 4"
  shows "length (v4_reverse iph) = length iph"
    "v4_reverse iph ! 0 = iph ! 0" "v4_reverse iph ! 9 = iph ! 9"
    "take 4 (drop 12 (v4_reverse iph)) = take 4 (drop 16 iph)"
    "take 4 (drop 16 (v4_reverse iph)) = take 4 (drop 12 iph)"
    "take 2 (drop l4 (v4_reverse iph)) = take 2 (drop (l4 + 2) iph)"
    "take 2 (drop (l4 + 2) (v4_reverse iph)) = take 2 (drop l4 iph)"
proof -
  have b: "20 \<le> length iph" "20 \<le> l4" "l4 + 4 \<le> length iph"
    using assms by (simp_all add: v4_ports_def)
  then have "iph \<noteq> []" by auto
  have len: "length (take 4 (drop 12 iph)) = 4" "length (take 4 (drop 16 iph)) = 4"
    "length (take 2 (drop l4 iph)) = 2" "length (take 2 (drop (l4 + 2) iph)) = 2"
    using b by simp_all
  note defs = v4_reverse_def Let_def l4 [symmetric]
  show "length (v4_reverse iph) = length iph" using b len by (simp add: defs)
  show "v4_reverse iph ! 0 = iph ! 0" "v4_reverse iph ! 9 = iph ! 9"
    using b len \<open>iph \<noteq> []\<close> by (simp_all add: defs nth_overwrite)
  show "take 4 (drop 12 (v4_reverse iph)) = take 4 (drop 16 iph)"
    "take 4 (drop 16 (v4_reverse iph)) = take 4 (drop 12 iph)"
    "take 2 (drop l4 (v4_reverse iph)) = take 2 (drop (l4 + 2) iph)"
    "take 2 (drop (l4 + 2) (v4_reverse iph)) = take 2 (drop l4 iph)"
    using b len by (simp_all add: defs take_drop_overwrite_same take_drop_overwrite_other
        del: take_drop drop_drop take_take)
qed

lemma v4_ports_reverse:
  assumes "v4_ports iph"
  shows "v4_ports (v4_reverse iph)"
  using assms v4_reverse_reads [OF assms refl] by (simp add: v4_ports_def)

text \<open>
  C17: a TCP or UDP packet over IPv4 and the packet of the opposite direction (addresses and ports
  exchanged) get the same connection identifier and transport header, and opposite directions
  unless both endpoints are the same.
\<close>

theorem set_iph_v4_symmetric:
  assumes "v4_ports iph" "set_iph old iph IPPROTO_IP = Inr (d, i, l4)"
  shows "set_iph old' (v4_reverse iph) IPPROTO_IP =
    Inr (if m_addr1 i = m_addr2 i then d else flip_dir d, i, l4)"
proof -
  let ?l4 = "unat (iph ! 0 AND 0x0f) * 4"
  define p where "p = Peer (take 4 (drop 12 iph) @ replicate 12 0) (u16_of (take 2 (drop ?l4 iph))) 0"
  define q where
    "q = Peer (take 4 (drop 16 iph) @ replicate 12 0) (u16_of (take 2 (drop (?l4 + 2) iph))) 0"
  have wf: "wf_peer p" "wf_peer q"
    using assms(1) by (auto simp: wf_peer_def p_def q_def v4_ports_def)
  obtain d' i' where o: "order_peers p q IPPROTO_IP (iph ! 9) = (d', i')" by fastforce
  with assms have "d' = d" "i' = i" "l4 = Some ?l4"
    by (simp_all add: set_iph_def set_iph_v4_ports p_def q_def)
  moreover have "p = q \<longleftrightarrow> m_addr1 i' = m_addr2 i'"
    using o by (auto elim: order_peers_cases)
  ultimately show ?thesis
    using order_peers_swap [OF wf o] v4_ports_reverse [OF assms(1)]
      v4_reverse_reads [OF assms(1) refl]
    by (simp add: set_iph_def set_iph_v4_ports p_def q_def)
qed

text \<open>A captured SYN packet from 10.0.0.2:1025 to 10.0.0.1:80, with a 20 byte header.\<close>

definition sample_v4 :: "byte list" where
  "sample_v4 = [0x45, 0, 0, 40, 0, 0, 0, 0, 64, 6, 0, 0, 10, 0, 0, 2, 10, 0, 0, 1,
     4, 1, 0, 80, 0, 0, 0, 9, 0, 0, 0, 0, 0x50, 2, 0, 0, 0, 0, 0, 0]"

lemma v4_ports_sample: "v4_ports sample_v4"
  by (simp add: v4_ports_def sample_v4_def)

lemma set_iph_sample:
  "set_iph old sample_v4 IPPROTO_IP = Inr (FROM_ADDR2,
     Id (Peer ([10, 0, 0, 1] @ replicate 12 0) 0x5000 0)
        (Peer ([10, 0, 0, 2] @ replicate 12 0) 0x0104 0) IPPROTO_IP IPPROTO_TCP, Some 20)"
  by (simp add: set_iph_def set_iph_v4_def sample_v4_def rd_def rds_def Let_def order_peers_def
      peer_less_def peer_mem_def u16_of_def)

theorem set_iph_v4_symmetric_witness:
  "set_iph undefined (v4_reverse sample_v4) IPPROTO_IP = Inr (FROM_ADDR1,
     Id (Peer ([10, 0, 0, 1] @ replicate 12 0) 0x5000 0)
        (Peer ([10, 0, 0, 2] @ replicate 12 0) 0x0104 0) IPPROTO_IP IPPROTO_TCP, Some 20)"
  using set_iph_v4_symmetric [OF v4_ports_sample set_iph_sample, of undefined] by simp

text \<open>What the identifier of a packet is, in either branch.\<close>

lemma order_peers_summary:
  assumes "wf_peer p" "wf_peer q" "order_peers p q l3 l4 = (d, i)"
  shows "m_addr1 i \<le> m_addr2 i \<and> wf_id i \<and> d \<in> {FROM_ADDR1, FROM_ADDR2} \<and>
    get_src (IdDir i d) = p \<and> get_dst (IdDir i d) = q"
  using order_peers_canonical [OF assms] order_peers_get [OF assms(3)] by auto

lemma set_iph_v4_summary:
  assumes "set_iph_v4 iph = Inr (d, i, l4)"
  shows "m_addr1 i \<le> m_addr2 i \<and> wf_id i \<and> d \<in> {FROM_ADDR1, FROM_ADDR2} \<and>
    l3_addr (get_src (IdDir i d)) = take 4 (drop 12 iph) @ replicate 12 0 \<and>
    l3_addr (get_dst (IdDir i d)) = take 4 (drop 16 iph) @ replicate 12 0"
proof -
  let ?a = "take 4 (drop 12 iph) @ replicate 12 0" and ?b = "take 4 (drop 16 iph) @ replicate 12 0"
  from assms have len: "16 + 4 \<le> length iph"
    by (auto simp: set_iph_v4_def bindR_eq_Inr rds_eq_Inr)
  from assms have "\<exists>x y l. order_peers (Peer ?a x 0) (Peer ?b y 0) IPPROTO_IP l = (d, i)"
    by (simp add: set_iph_v4_def bindR_eq_Inr rds_eq_Inr Let_def case_prod_beta prod_eq_iff
        split: if_splits) blast+
  then obtain x y l where "order_peers (Peer ?a x 0) (Peer ?b y 0) IPPROTO_IP l = (d, i)" by blast
  then show ?thesis using len order_peers_summary [of "Peer ?a x 0" "Peer ?b y 0"]
    by (auto simp: wf_peer_def)
qed

lemma set_iph_v6_summary:
  assumes "set_iph_v6 l4_old iph = Inr (d, i, l4)"
  shows "m_addr1 i \<le> m_addr2 i \<and> wf_id i \<and> d \<in> {FROM_ADDR1, FROM_ADDR2} \<and>
    l3_addr (get_src (IdDir i d)) = take 16 (drop 8 iph) \<and>
    l3_addr (get_dst (IdDir i d)) = take 16 (drop 24 iph)"
proof -
  let ?a = "take 16 (drop 8 iph)" and ?b = "take 16 (drop 24 iph)"
  from assms have len: "24 + 16 \<le> length iph"
    by (auto simp: set_iph_v6_def bindR_eq_Inr rds_eq_Inr)
  from assms have "\<exists>x y l. order_peers (Peer ?a x 0) (Peer ?b y 0) IPPROTO_IPV6 l = (d, i)"
    by (simp add: set_iph_v6_def bindR_eq_Inr rds_eq_Inr Let_def case_prod_beta prod_eq_iff
        split: if_splits) blast+
  then obtain x y l where "order_peers (Peer ?a x 0) (Peer ?b y 0) IPPROTO_IPV6 l = (d, i)" by blast
  then show ?thesis using len order_peers_summary [of "Peer ?a x 0" "Peer ?b y 0"]
    by (auto simp: wf_peer_def)
qed

text \<open>
  C28: the identifier is canonical (the smaller endpoint comes first), and the direction that is
  returned with it recovers the packet's source and destination addresses, for IPv4 and for IPv6.
\<close>

theorem set_iph_endpoints:
  assumes "set_iph old iph protocol = Inr (d, i, l4)" "protocol \<in> {IPPROTO_IP, IPPROTO_IPV6}"
  shows "m_addr1 i \<le> m_addr2 i \<and> wf_id i \<and> d \<in> {FROM_ADDR1, FROM_ADDR2} \<and>
    (let src = l3_addr (get_src (IdDir i d)); dst = l3_addr (get_dst (IdDir i d)) in
     if protocol = IPPROTO_IP
     then src = take 4 (drop 12 iph) @ replicate 12 0 \<and> dst = take 4 (drop 16 iph) @ replicate 12 0
     else src = take 16 (drop 8 iph) \<and> dst = take 16 (drop 24 iph))"
  using assms set_iph_v4_summary [of iph d i l4] set_iph_v6_summary [of "m_l4_proto old" iph d i l4]
  by (auto simp: set_iph_def Let_def)

theorem set_iph_endpoints_witness:
  "m_addr1 (Id (Peer ([10, 0, 0, 1] @ replicate 12 0) 0x5000 0)
      (Peer ([10, 0, 0, 2] @ replicate 12 0) 0x0104 0) IPPROTO_IP IPPROTO_TCP) \<le>
   Peer ([10, 0, 0, 2] @ replicate 12 0) 0x0104 0"
  using set_iph_endpoints [OF set_iph_sample [of undefined]] by simp

section \<open>The walk over the extension headers\<close>

definition is_ext :: "byte \<Rightarrow> bool" where
  "is_ext nxt \<longleftrightarrow> nxt \<in> {IPPROTO_HOPOPTS, IPPROTO_ROUTING, IPPROTO_ESP, IPPROTO_AH, IPPROTO_DSTOPTS}"

lemma v6_walk_stop: "\<not> is_ext nxt \<Longrightarrow> v6_walk mem nxt p = Inr (nxt, p)"
  by (subst v6_walk.simps) (simp add: is_ext_def)

lemma v6_walk_ext:
  "is_ext nxt \<Longrightarrow> p + 1 < length mem \<Longrightarrow> v6_walk mem nxt p =
     v6_walk mem (mem ! p) (if mem ! (p + 1) = 0 then p + 8 else p + unat (mem ! (p + 1)) * 8)"
  by (subst v6_walk.simps) (simp add: is_ext_def rd_def)

text \<open>Extension headers of eight bytes: the next header, the length 0 and six bytes.\<close>

fun v6_chain :: "(byte \<times> byte list) list \<Rightarrow> byte \<Rightarrow> byte list" where
  "v6_chain [] final = []"
| "v6_chain ((t, pad) # hs) final =
     [fst (hd (hs @ [(final, [])])), 0] @ pad @ v6_chain hs final"

text \<open>
  C38: a chain of minimal (eight byte) extension headers is stepped over, and the walk ends at
  the transport header behind it.
\<close>

theorem v6_walk_chain:
  assumes "\<forall>(t, pad) \<in> set hs. is_ext t \<and> length pad = 6" "\<not> is_ext final"
  shows "v6_walk (pre @ v6_chain hs final @ rest) (fst (hd (hs @ [(final, [])]))) (length pre) =
    Inr (final, length pre + 8 * length hs)"
  using assms(1)
proof (induction hs arbitrary: pre)
  case Nil
  then show ?case using assms(2) by (simp add: v6_walk_stop)
next
  case (Cons h hs)
  obtain t pad where h: "h = (t, pad)" by fastforce
  let ?n = "fst (hd (hs @ [(final, [])]))"
  let ?mem = "pre @ v6_chain (h # hs) final @ rest"
  let ?pre = "pre @ [?n, 0] @ pad"
  from Cons.prems h have t: "is_ext t" and pad: "length pad = 6"
    and hs: "\<forall>(t, pad) \<in> set hs. is_ext t \<and> length pad = 6" by auto
  have mem: "?mem = ?pre @ v6_chain hs final @ rest" using h by simp
  have "v6_walk ?mem t (length pre) = v6_walk ?mem ?n (length pre + 8)"
    using t h by (subst v6_walk_ext) (simp_all add: nth_append)
  also have "\<dots> = Inr (final, length ?pre + 8 * length hs)"
    using Cons.IH [OF hs, of ?pre] pad by (simp only: mem) simp
  finally show ?case using h pad by simp
qed

theorem v6_walk_chain_witness:
  "v6_walk (replicate 40 0 @ v6_chain [(IPPROTO_HOPOPTS, replicate 6 1), (IPPROTO_DSTOPTS, replicate 6 1)]
     IPPROTO_TCP @ [0, 80]) IPPROTO_HOPOPTS 40 = Inr (IPPROTO_TCP, 56)"
  using v6_walk_chain [of "[(IPPROTO_HOPOPTS, replicate 6 1), (IPPROTO_DSTOPTS, replicate 6 1)]"
      IPPROTO_TCP "replicate 40 0" "[0, 80]"]
  by (simp add: is_ext_def)

text \<open>
  the length byte of an extension header counts the 8 byte units after the first one, but the
  walk advances by that many units only: behind a header of 16 bytes (length byte 1) it reports the
  transport header 8 bytes too early, inside of the extension header.
\<close>

theorem v6_walk_long_header:
  assumes "is_ext t" "\<not> is_ext final" "length body = 14"
  shows "v6_walk (pre @ [final, 1] @ body @ transport) t (length pre) =
    Inr (final, length pre + 8)"
  using assms by (subst v6_walk_ext) (simp_all add: nth_append v6_walk_stop)

theorem v6_walk_long_header_witness:
  "v6_walk (replicate 40 0 @ [IPPROTO_TCP, 1] @ replicate 14 0 @ [0, 80]) IPPROTO_HOPOPTS 40 =
    Inr (IPPROTO_TCP, 48)"
  using v6_walk_long_header [of IPPROTO_HOPOPTS IPPROTO_TCP "replicate 14 0" "replicate 40 0" "[0, 80]"]
  by (simp add: is_ext_def)

section \<open>The order of the keys\<close>

text \<open>
  C40: \<open>operator<\<close> of \<open>cdpi_id_dir\<close> is a strict total order that agrees with \<open>operator==\<close>, which is
  what \<open>std::map\<close> and the ordered index of the TCP event queue require of their keys.
\<close>

theorem id_dir_order:
  assumes "wf_id (m_id a)" "wf_id (m_id b)" "wf_id (m_id c)"
  shows "\<not> id_dir_less a a \<and>
    (id_dir_less a b \<longrightarrow> id_dir_less b c \<longrightarrow> id_dir_less a c) \<and>
    (id_dir_less a b \<or> id_dir_eq a b \<or> id_dir_less b a) \<and>
    (id_dir_eq a b \<longleftrightarrow> \<not> id_dir_less a b \<and> \<not> id_dir_less b a)"
  using assms by (auto simp: id_dir_less_iff id_dir_eq_iff)

lemma wf_peer_init [simp]: "wf_peer peer_init"
  by (simp add: wf_peer_def peer_init_def)

theorem id_dir_order_witness:
  "\<not> id_dir_less (IdDir (Id peer_init peer_init 0 6) FROM_ADDR1) (IdDir (Id peer_init peer_init 0 6) FROM_ADDR1)"
  using id_dir_order [of "IdDir (Id peer_init peer_init 0 6) FROM_ADDR1"
      "IdDir (Id peer_init peer_init 0 6) FROM_ADDR2" "IdDir (Id peer_init peer_init 0 17) FROM_ADDR1"]
  by (simp add: wf_id_def)

end
