(* ===== verification/Dns.thy ===== *)
theory Dns
  imports Bytes
begin

text \<open>
  \<open>cdpi_dns.hpp\<close> and \<open>cdpi_dns.cpp\<close>: the decoder of DNS messages. A pointer into the datagram is
  an offset from \<open>head\<close>; \<open>mem\<close> is the memory from \<open>head\<close> on, which may be longer or shorter than
  the length that the decoder is told, so that a read behind the datagram is the fault
  \<open>OutOfBounds\<close> of the model. Integers that the source keeps in network order stay so here.
\<close>

section \<open>Data\<close>

abbreviation (input) DNS_TYPE_A :: nat where "DNS_TYPE_A \<equiv> 1"
abbreviation (input) DNS_TYPE_NS :: nat where "DNS_TYPE_NS \<equiv> 2"
abbreviation (input) DNS_TYPE_CNAME :: nat where "DNS_TYPE_CNAME \<equiv> 5"
abbreviation (input) DNS_TYPE_SOA :: nat where "DNS_TYPE_SOA \<equiv> 6"
abbreviation (input) DNS_TYPE_PTR :: nat where "DNS_TYPE_PTR \<equiv> 12"
abbreviation (input) DNS_TYPE_HINFO :: nat where "DNS_TYPE_HINFO \<equiv> 13"
abbreviation (input) DNS_TYPE_MX :: nat where "DNS_TYPE_MX \<equiv> 15"
abbreviation (input) DNS_TYPE_TXT :: nat where "DNS_TYPE_TXT \<equiv> 16"
abbreviation (input) DNS_TYPE_AAAA :: nat where "DNS_TYPE_AAAA \<equiv> 28"

abbreviation (input) SIZEOF_DNS_HEADER :: nat where "SIZEOF_DNS_HEADER \<equiv> 12"

record cdpi_dns_header =
  m_hid :: "16 word"
  m_flag :: "16 word"
  m_qd_count :: "16 word"
  m_an_count :: "16 word"
  m_ns_count :: "16 word"
  m_ar_count :: "16 word"

record cdpi_dns_question =
  m_qname :: "byte list"
  m_qtype :: "16 word"
  m_qclass :: "16 word"

record cdpi_dns_soa =
  m_mname :: "byte list"
  m_rname :: "byte list"
  m_serial :: "32 word"
  m_refresh :: "32 word"
  m_retry :: "32 word"
  m_expire :: "32 word"
  m_minimum :: "32 word"

record cdpi_dns_dnskey =
  m_flags :: "16 word"
  m_proto :: byte
  m_alg :: byte
  m_pubkey :: cdpi_bytes

text \<open>The subclasses of \<open>cdpi_dns_rdata\<close>; a record without one has an empty pointer.\<close>

datatype cdpi_dns_rdata =
    Rd_soa cdpi_dns_soa
  | Rd_txt "byte list"
  | Rd_a "32 word"
  | Rd_aaaa "byte list"
  | Rd_ns "byte list"
  | Rd_cname "byte list"
  | Rd_mx "16 word" "byte list"
  | Rd_ptr "byte list"
  | Rd_hinfo "byte list" "byte list"

record cdpi_dns_rr =
  m_name :: "byte list"
  m_type :: "16 word"
  m_class :: "16 word"
  m_ttl :: "32 word"
  m_rdata :: "cdpi_dns_rdata option"

record cdpi_dns =
  m_header :: cdpi_dns_header
  m_quesiton :: "cdpi_dns_question list"
  m_answer :: "cdpi_dns_rr list"
  m_authority :: "cdpi_dns_rr list"
  m_additional :: "cdpi_dns_rr list"

section \<open>Names\<close>

text \<open>
  \<open>read_domain\<close> with the state of its loop: \<open>p\<close> and \<open>buf_len\<close> are the pointer and the length that is
  left, \<open>readlen\<close> the bytes read so far, \<open>domain\<close> the string that is built up, \<open>counter\<close> the depth of
  the recursion through compression pointers. The result is the returned number and the string.
\<close>

function read_domain ::
    "byte list \<Rightarrow> int \<Rightarrow> nat \<Rightarrow> int \<Rightarrow> int \<Rightarrow> byte list \<Rightarrow> nat \<Rightarrow> (int \<times> byte list) result" where
  "read_domain mem total_len p buf_len readlen domain counter =
     (if counter > 256 then Inr (- 1, domain)
      else if buf_len < 1 then Inr (- 1, domain)
      else bindR (rd mem p) (\<lambda>dlen.
        let flag = dlen AND 0xC0 in
        if flag \<noteq> 0 then
          if flag = 0xC0 then
            if buf_len < 2 then Inr (- 1, domain)
            else bindR (rds mem p 2) (\<lambda>raw.
              let pos = unat (ntohs (u16_of raw) AND 0x3FFF) in
              if int pos \<ge> total_len then Inr (- 1, domain)
              else bindR (read_domain mem total_len pos (total_len - int pos) 0 domain (counter + 1))
                (\<lambda>(r, domain'). if r < 0 then Inr (- 1, domain') else Inr (readlen + 2, domain')))
          else Inr (- 1, domain)
        else if dlen = 0 then Inr (readlen + 1, domain)
        else if unat (word_of_int (buf_len - 1) :: 32 word) < unat dlen then Inr (- 1, domain)
        else bindR (rds mem (p + 1) (unat dlen)) (\<lambda>label.
          read_domain mem total_len (p + 1 + unat dlen) (buf_len - 1 - int (unat dlen))
            (readlen + 1 + int (unat dlen))
            (if domain = [] then label else domain @ str ''.'' @ label) counter)))"
  by pat_completeness auto
termination
  by (relation "measures [\<lambda>(mem, total_len, p, buf_len, readlen, domain, counter). 257 - counter,
      \<lambda>(mem, total_len, p, buf_len, readlen, domain, counter). nat buf_len]")
    (auto intro: less_le_trans [OF _ unsigned_greater_eq])

declare read_domain.simps [simp del]
declare add_2_eq_Suc [simp del] add_2_eq_Suc' [simp del]

section \<open>Record data\<close>

definition decode_a :: "byte list \<Rightarrow> nat \<Rightarrow> nat \<Rightarrow> (int \<times> 32 word) result" where
  "decode_a mem p rdlen =
     (if rdlen < 4 then Inr (- 1, 0)
      else bindR (rds mem p 4) (\<lambda>bs. Inr (int rdlen, u32_of bs)))"

definition decode_aaaa :: "byte list \<Rightarrow> nat \<Rightarrow> nat \<Rightarrow> (int \<times> byte list) result" where
  "decode_aaaa mem p rdlen =
     (if rdlen < 16 then Inr (- 1, [])
      else bindR (rds mem p 16) (\<lambda>bs. Inr (int rdlen, bs)))"

text \<open>The variable \<open>n\<close> is a \<open>uint8_t\<close>: \<open>n++\<close> makes 0 of 255.\<close>

definition decode_hinfo :: "byte list \<Rightarrow> nat \<Rightarrow> nat \<Rightarrow> (int \<times> byte list \<times> byte list) result" where
  "decode_hinfo mem p rdlen =
     (if rdlen < 1 then Inr (- 1, [], [])
      else bindR (rd mem p) (\<lambda>n.
        if int (unat n) > int rdlen - 1 then Inr (- 1, [], [])
        else bindR (rds mem (p + 1) (unat n)) (\<lambda>cpu.
          let k = unat (n + 1); p' = p + k; rdlen' = rdlen - k in
          if rdlen' < 1 then Inr (- 1, cpu, [])
          else bindR (rd mem p') (\<lambda>m.
            if int (unat m) \<noteq> int rdlen' - 1 then Inr (- 1, cpu, [])
            else bindR (rds mem (p' + 1) (unat m)) (\<lambda>os.
              Inr (int k + int (unat m) + 1, cpu, os))))))"

definition decode_txt :: "byte list \<Rightarrow> nat \<Rightarrow> nat \<Rightarrow> (int \<times> byte list) result" where
  "decode_txt mem p rdlen =
     (if rdlen \<le> 1 then Inr (- 1, [])
      else bindR (rd mem p) (\<lambda>n.
        if int (unat n) \<noteq> int rdlen - 1 then Inr (- 1, [])
        else bindR (rds mem (p + 1) (unat n)) (\<lambda>txt. Inr (int rdlen, txt))))"

text \<open>The exchange is read at \<open>buf\<close>, where the preference is too.\<close>

definition decode_mx ::
    "byte list \<Rightarrow> int \<Rightarrow> nat \<Rightarrow> int \<Rightarrow> nat \<Rightarrow> (int \<times> 16 word \<times> byte list) result" where
  "decode_mx mem total_len p buf_len rdlen =
     (if rdlen < 2 then Inr (- 1, 0, [])
      else bindR (rds mem p 2) (\<lambda>pref.
        bindR (read_domain mem total_len p buf_len 0 [] 0) (\<lambda>(dlen, exchange).
          if dlen < 0 then Inr (- 1, u16_of pref, exchange)
          else Inr (dlen + 2, u16_of pref, exchange))))"

text \<open>The length is compared with the size of the first of the five numbers.\<close>

definition decode_soa ::
    "byte list \<Rightarrow> int \<Rightarrow> nat \<Rightarrow> int \<Rightarrow> (int \<times> cdpi_dns_soa option) result" where
  "decode_soa mem total_len p buf_len =
     bindR (read_domain mem total_len p buf_len 0 [] 0) (\<lambda>(dlen1, mname).
       if dlen1 < 0 then Inr (- 1, None)
       else let p1 = p + nat dlen1; buf_len1 = buf_len - dlen1 in
         bindR (read_domain mem total_len p1 buf_len1 0 [] 0) (\<lambda>(dlen2, rname).
           if dlen2 < 0 then Inr (- 1, None)
           else let p2 = p1 + nat dlen2; buf_len2 = buf_len1 - dlen2 in
             if unat (word_of_int buf_len2 :: 32 word) < 4 then Inr (- 1, None)
             else bindR (rds mem p2 4) (\<lambda>serial. bindR (rds mem (p2 + 4) 4) (\<lambda>refresh.
               bindR (rds mem (p2 + 8) 4) (\<lambda>retry. bindR (rds mem (p2 + 12) 4) (\<lambda>expire.
               bindR (rds mem (p2 + 16) 4) (\<lambda>minimum.
                 Inr (dlen1 + dlen2 + 20, Some \<lparr>m_mname = mname, m_rname = rname,
                   m_serial = u32_of serial, m_refresh = u32_of refresh, m_retry = u32_of retry,
                   m_expire = u32_of expire, m_minimum = u32_of minimum\<rparr>))))))))"

text \<open>
  \<open>decode_dnskey\<close>, which no other function calls. It assigns \<open>m_proto\<close> twice and \<open>m_alg\<close> not at
  all, and widens a signed \<open>char\<close> to the length \<open>n\<close>.
\<close>

definition decode_dnskey ::
    "byte list \<Rightarrow> nat \<Rightarrow> cdpi_dns_dnskey \<Rightarrow> nat \<Rightarrow> (int \<times> cdpi_dns_dnskey) result" where
  "decode_dnskey mem p k rdlen =
     (if rdlen < 5 then Inr (- 1, k)
      else bindR (rds mem p 2) (\<lambda>flags. bindR (rd mem (p + 2)) (\<lambda>b2. bindR (rd mem (p + 3)) (\<lambda>b3.
        bindR (rd mem (p + 4)) (\<lambda>b4.
          let n = unat (scast b4 :: 32 word);
              k1 = k\<lparr>m_flags := u16_of flags, m_proto := b2\<rparr>;
              k2 = k1\<lparr>m_proto := b3\<rparr>
          in if n \<noteq> rdlen - 5 then Inr (- 1, k2)
             else bindR (set_buf (drop (p + 5) mem) (int n)) (\<lambda>key.
               Inr (int n + 5, k2\<lparr>m_pubkey := key\<rparr>)))))))"

section \<open>Sections\<close>

text \<open>
  The switch over the type of a record. The outer option is \<open>None\<close> where the source returns
  -1; the inner one is the record data that \<open>rr\<close> points to afterwards.
\<close>

definition decode_rdata ::
    "byte list \<Rightarrow> int \<Rightarrow> nat \<Rightarrow> int \<Rightarrow> nat \<Rightarrow> nat \<Rightarrow> cdpi_dns_rdata option option result" where
  "decode_rdata mem total_len p buf_len type rdlen =
     (if type = DNS_TYPE_SOA then
        bindR (decode_soa mem total_len p buf_len) (\<lambda>(r, soa).
          Inr (if r < 0 then None else Some (map_option Rd_soa soa)))
      else if type = DNS_TYPE_TXT then
        bindR (decode_txt mem p rdlen) (\<lambda>(r, txt).
          Inr (if r < 0 then None else Some (Some (Rd_txt txt))))
      else if type = DNS_TYPE_A then
        bindR (decode_a mem p rdlen) (\<lambda>(r, a).
          Inr (if r < 0 then None else Some (Some (Rd_a a))))
      else if type = DNS_TYPE_AAAA then
        bindR (decode_aaaa mem p rdlen) (\<lambda>(r, a).
          Inr (if r < 0 then None else Some (Some (Rd_aaaa a))))
      else if type = DNS_TYPE_NS then
        bindR (read_domain mem total_len p buf_len 0 [] 0) (\<lambda>(dlen, ns).
          Inr (if dlen < 0 then None else Some (Some (Rd_ns ns))))
      else if type = DNS_TYPE_CNAME then
        bindR (read_domain mem total_len p buf_len 0 [] 0) (\<lambda>(dlen, cname).
          Inr (if dlen < 0 then None else Some (Some (Rd_cname cname))))
      else if type = DNS_TYPE_MX then
        bindR (decode_mx mem total_len p buf_len rdlen) (\<lambda>(r, pref, exchange).
          Inr (if r < 0 then None else Some (Some (Rd_mx pref exchange))))
      else if type = DNS_TYPE_PTR then
        bindR (read_domain mem total_len p buf_len 0 [] 0) (\<lambda>(dlen, ptr).
          Inr (if dlen < 0 then None else Some (Some (Rd_ptr ptr))))
      else if type = DNS_TYPE_HINFO then
        bindR (decode_hinfo mem p rdlen) (\<lambda>(r, cpu, os).
          Inr (if r < 0 then None else Some (Some (Rd_hinfo cpu os))))
      else Inr (Some None))"

text \<open>The loop over the \<open>num\<close> records of a section that are left.\<close>

fun decode_rr ::
    "byte list \<Rightarrow> int \<Rightarrow> nat \<Rightarrow> int \<Rightarrow> nat \<Rightarrow> int \<Rightarrow> cdpi_dns_rr list \<Rightarrow>
     (int \<times> cdpi_dns_rr list) result" where
  "decode_rr mem total_len p buf_len 0 readlen rr_list = Inr (readlen, rr_list)"
| "decode_rr mem total_len p buf_len (Suc num) readlen rr_list =
     bindR (read_domain mem total_len p buf_len 0 [] 0) (\<lambda>(dlen, name).
       if dlen < 0 then Inr (- 1, rr_list)
       else let p1 = p + nat dlen; buf_len1 = buf_len - dlen in
         if buf_len1 < 10 then Inr (- 1, rr_list)
         else bindR (rds mem p1 2) (\<lambda>ty. bindR (rds mem (p1 + 2) 2) (\<lambda>cl.
           bindR (rds mem (p1 + 4) 4) (\<lambda>ttl. bindR (rds mem (p1 + 8) 2) (\<lambda>rl.
             let p2 = p1 + 10; buf_len2 = buf_len1 - 10;
                 type = unat (ntohs (u16_of ty)); rdlen = unat (ntohs (u16_of rl))
             in if buf_len2 < int rdlen then Inr (- 1, rr_list)
                else bindR (decode_rdata mem total_len p2 buf_len2 type rdlen) (\<lambda>r.
                  case r of None \<Rightarrow> Inr (- 1, rr_list)
                  | Some rdata \<Rightarrow>
                      decode_rr mem total_len (p2 + rdlen) (buf_len2 - int rdlen) num
                        (readlen + dlen + 10 + int rdlen)
                        (rr_list @ [\<lparr>m_name = name, m_type = u16_of ty, m_class = u16_of cl,
                           m_ttl = u32_of ttl, m_rdata = rdata\<rparr>])))))))"

fun decode_question ::
    "byte list \<Rightarrow> int \<Rightarrow> nat \<Rightarrow> int \<Rightarrow> nat \<Rightarrow> int \<Rightarrow> cdpi_dns_question list \<Rightarrow>
     (int \<times> cdpi_dns_question list) result" where
  "decode_question mem total_len p buf_len 0 readlen qs = Inr (readlen, qs)"
| "decode_question mem total_len p buf_len (Suc num) readlen qs =
     bindR (read_domain mem total_len p buf_len 0 [] 0) (\<lambda>(dlen, name).
       if dlen < 0 then Inr (- 1, qs)
       else let p1 = p + nat dlen; buf_len1 = buf_len - dlen in
         if buf_len1 < 4 then Inr (- 1, qs)
         else bindR (rds mem p1 2) (\<lambda>ty. bindR (rds mem (p1 + 2) 2) (\<lambda>cl.
           decode_question mem total_len (p1 + 4) (buf_len1 - 4) num (readlen + dlen + 4)
             (qs @ [\<lparr>m_qname = name, m_qtype = u16_of ty, m_qclass = u16_of cl\<rparr>]))))"

text \<open>\<open>memcpy\<close> of the first 12 bytes into the header.\<close>

definition header_of :: "byte list \<Rightarrow> cdpi_dns_header" where
  "header_of bs =
     \<lparr>m_hid = u16_of (take 2 bs), m_flag = u16_of (take 2 (drop 2 bs)),
      m_qd_count = u16_of (take 2 (drop 4 bs)), m_an_count = u16_of (take 2 (drop 6 bs)),
      m_ns_count = u16_of (take 2 (drop 8 bs)), m_ar_count = u16_of (take 2 (drop 10 bs))\<rparr>"

text \<open>
  \<open>decode\<close> adds to the lists of the object, also when it fails later on. \<open>p\<close> and \<open>len\<close> advance with
  every section; the message is accepted when nothing is left.
\<close>

definition dns_decode :: "cdpi_dns \<Rightarrow> byte list \<Rightarrow> int \<Rightarrow> (bool \<times> cdpi_dns) result" where
  "dns_decode dns mem len =
     (if len < int SIZEOF_DNS_HEADER then Inr (False, dns)
      else bindR (rds mem 0 SIZEOF_DNS_HEADER) (\<lambda>hd.
        let h = header_of hd; d0 = dns\<lparr>m_header := h\<rparr>; p0 = SIZEOF_DNS_HEADER; len0 = len - 12 in
        bindR (decode_question mem len p0 len0 (unat (ntohs (m_qd_count h))) 0 (m_quesiton d0))
          (\<lambda>(r1, qs). let d1 = d0\<lparr>m_quesiton := qs\<rparr>; p1 = p0 + nat r1; len1 = len0 - r1 in
           if r1 < 0 then Inr (False, d1) else
        bindR (decode_rr mem len p1 len1 (unat (ntohs (m_an_count h))) 0 (m_answer d1))
          (\<lambda>(r2, rr). let d2 = d1\<lparr>m_answer := rr\<rparr>; p2 = p1 + nat r2; len2 = len1 - r2 in
           if r2 < 0 then Inr (False, d2) else
        bindR (decode_rr mem len p2 len2 (unat (ntohs (m_ns_count h))) 0 (m_authority d2))
          (\<lambda>(r3, rr). let d3 = d2\<lparr>m_authority := rr\<rparr>; p3 = p2 + nat r3; len3 = len2 - r3 in
           if r3 < 0 then Inr (False, d3) else
        bindR (decode_rr mem len p3 len3 (unat (ntohs (m_ar_count h))) 0 (m_additional d3))
          (\<lambda>(r4, rr). let d4 = d3\<lparr>m_additional := rr\<rparr>; len4 = len3 - r4 in
           if r4 < 0 then Inr (False, d4) else Inr (len4 = 0, d4)))))))"

section \<open>The flags of the header\<close>

definition dns_get_id :: "cdpi_dns \<Rightarrow> 16 word" where
  "dns_get_id d = m_hid (m_header d)"

definition get_rcode :: "cdpi_dns \<Rightarrow> int" where
  "get_rcode d = uint (ntohs (m_flag (m_header d)) AND 0x000f)"

definition get_opcode :: "cdpi_dns \<Rightarrow> int" where
  "get_opcode d = uint (drop_bit 11 (ntohs (m_flag (m_header d)) AND push_bit 11 0x000f))"

definition is_qr :: "cdpi_dns \<Rightarrow> bool" where
  "is_qr d = (ntohs (m_flag (m_header d)) AND push_bit 15 1 \<noteq> 0)"

definition is_aa :: "cdpi_dns \<Rightarrow> bool" where
  "is_aa d = (ntohs (m_flag (m_header d)) AND push_bit 10 1 \<noteq> 0)"

definition is_tc :: "cdpi_dns \<Rightarrow> bool" where
  "is_tc d = (ntohs (m_flag (m_header d)) AND push_bit 9 1 \<noteq> 0)"

definition is_rd :: "cdpi_dns \<Rightarrow> bool" where
  "is_rd d = (ntohs (m_flag (m_header d)) AND push_bit 8 1 \<noteq> 0)"

definition is_ra :: "cdpi_dns \<Rightarrow> bool" where
  "is_ra d = (ntohs (m_flag (m_header d)) AND push_bit 7 1 \<noteq> 0)"

definition is_ad :: "cdpi_dns \<Rightarrow> bool" where
  "is_ad d = (ntohs (m_flag (m_header d)) AND push_bit 5 1 \<noteq> 0)"

definition is_cd :: "cdpi_dns \<Rightarrow> bool" where
  "is_cd d = (ntohs (m_flag (m_header d)) AND push_bit 4 1 \<noteq> 0)"

section \<open>Bounds\<close>

text \<open>The \<open>n\<close> bytes from offset \<open>p\<close> on lie inside of the memory.\<close>

definition window :: "byte list \<Rightarrow> nat \<Rightarrow> int \<Rightarrow> bool" where
  "window mem p n \<longleftrightarrow> 0 \<le> n \<and> int p + n \<le> int (length mem)"

lemma rd_window: "window mem p n \<Longrightarrow> 1 \<le> n \<Longrightarrow> rd mem p = Inr (mem ! p)"
  by (simp add: window_def rd_def)

lemma rds_window:
  "window mem p n \<Longrightarrow> int k + int m \<le> n \<Longrightarrow> rds mem (p + k) m = Inr (take m (drop (p + k) mem))"
  by (simp add: window_def rds_def)

lemma window_advance: "window mem p n \<Longrightarrow> int k \<le> n \<Longrightarrow> window mem (p + k) (n - int k)"
  by (simp add: window_def)

lemma unat_word_of_int_le: "0 \<le> x \<Longrightarrow> int (unat (word_of_int x :: 32 word)) \<le> x"
  by (simp add: of_nat_unat uint_word_of_int zmod_le_nonneg_dividend)

lemma unat_word_of_int_small:
  "0 \<le> x \<Longrightarrow> x < 2 ^ 32 \<Longrightarrow> unat (word_of_int x :: 32 word) = nat x"
  by (simp only: nat_uint_eq [symmetric] uint_word_of_int) simp

text \<open>The two top bits of a length byte, and the 14 bits of a compression pointer.\<close>

lemma flag_eq: "b AND 0xC0 = push_bit 6 (drop_bit 6 b)" for b :: byte
proof -
  have eq: "(0xC0 :: byte) = NOT (mask 6)" by (simp add: mask_eq_decr_exp)
  show ?thesis unfolding eq by (rule bit_eqI) (auto simp only: bit_simps o_apply le_add_diff_inverse not_less)
qed

lemma unat_flag: "unat (b AND 0xC0) = unat b div 64 * 64" for b :: byte
proof -
  have "unat b div 64 * 64 < 256" using unat_byte_less [of b] by linarith
  moreover have "b AND 0xC0 = (b div 64) * 64"
    by (simp only: flag_eq push_bit_eq_mult drop_bit_eq_div) simp
  ultimately show ?thesis by (simp only: unat_word_ariths) simp
qed

lemma flag_label: "unat b < 64 \<Longrightarrow> b AND 0xC0 = 0" for b :: byte
  by (simp add: word_unat_eq_iff unat_flag)

lemma flag_pointer:
  fixes b :: byte
  assumes "192 \<le> unat b"
  shows "b AND 0xC0 = 0xC0"
proof -
  have "unat b div 64 = 3" using assms unat_byte_less [of b] by linarith
  then show ?thesis by (simp add: word_unat_eq_iff unat_flag) 
qed

lemma unat_pointer: "unat (w AND 0x3FFF) = unat w mod 0x4000" for w :: "16 word"
proof -
  have "w AND 0x3FFF = take_bit 14 w" by (simp only: take_bit_eq_mask mask_eq_decr_exp) simp
  also have "unat \<dots> = unat w mod 2 ^ 14" by (simp only: unsigned_take_bit_eq) (simp add: take_bit_eq_mod)
  finally show ?thesis by simp
qed

text \<open>One step of \<open>read_domain\<close>: the root, a label and a pointer.\<close>

definition pointer_bytes :: "nat \<Rightarrow> byte list" where
  "pointer_bytes q = be_bytes 2 (0xC000 + q)"

definition label_bytes :: "byte list \<Rightarrow> byte list" where
  "label_bytes l = word_of_nat (length l) # l"

definition append_label :: "byte list \<Rightarrow> byte list \<Rightarrow> byte list" where
  "append_label domain l = (if domain = [] then l else domain @ str ''.'' @ l)"

lemma length_pointer_bytes [simp]: "length (pointer_bytes q) = 2"
  and length_label_bytes [simp]: "length (label_bytes l) = length l + 1"
  by (simp_all add: pointer_bytes_def label_bytes_def)

lemma read_domain_root:
  "rd mem p = Inr 0 \<Longrightarrow> counter \<le> 256 \<Longrightarrow> 1 \<le> buf_len \<Longrightarrow>
     read_domain mem total_len p buf_len readlen domain counter = Inr (readlen + 1, domain)"
  by (subst read_domain.simps) simp

lemma read_domain_label:
  assumes "holds_at mem p (label_bytes l)" "l \<noteq> []" "length l < 64" "counter \<le> 256"
    "int (length l) < buf_len" "buf_len < 2 ^ 31"
  shows "read_domain mem total_len p buf_len readlen domain counter =
     read_domain mem total_len (p + 1 + length l) (buf_len - 1 - int (length l))
       (readlen + 1 + int (length l)) (append_label domain l) counter"
proof -
  let ?b = "word_of_nat (length l) :: byte"
  have b: "unat ?b = length l" using assms(3) by simp
  then have f: "?b AND 0xC0 = 0" using assms(3) by (intro flag_label) simp
  have nz: "?b \<noteq> 0" using b assms(2) by (metis length_0_conv unsigned_0)
  have rd: "rd mem p = Inr ?b" and l: "rds mem (p + 1) (length l) = Inr l"
    using assms(1) by (auto simp: label_bytes_def holds_at_Cons holds_at_rds)
  have "unat (word_of_int (buf_len - 1) :: 32 word) = nat (buf_len - 1)"
    using assms(5,6) by (intro unat_word_of_int_small) simp_all
  then have "\<not> unat (word_of_int (buf_len - 1) :: 32 word) < length l" using assms(5) by linarith
  with assms b f nz rd l show ?thesis
    by (subst read_domain.simps) (simp add: append_label_def Let_def)
qed

lemma read_domain_pointer:
  assumes "holds_at mem p (pointer_bytes q)" "q < 0x4000" "counter \<le> 256" "2 \<le> buf_len"
    "int q < total_len"
  shows "read_domain mem total_len p buf_len readlen domain counter =
     bindR (read_domain mem total_len q (total_len - int q) 0 domain (counter + 1))
       (\<lambda>(r, d). if r < 0 then Inr (- 1, d) else Inr (readlen + 2, d))"
proof -
  let ?b = "word_of_nat ((0xC000 + q) div 256) :: byte"
  have "unat ?b = (0xC000 + q) div 256" using assms(2) by simp
  then have f: "?b AND 0xC0 = 0xC0" by (intro flag_pointer) linarith
  have rd: "rd mem p = Inr ?b"
    using assms(1) by (simp only: pointer_bytes_def be_bytes_2 holds_at_Cons)
  have raw: "rds mem p 2 = Inr (pointer_bytes q)" using assms(1) by (simp add: holds_at_rds)
  have "(q + 3 * 0x4000) mod 0x4000 = q mod 0x4000" by (rule mod_mult_self1)
  then have "(0xC000 + q) mod 0x4000 = q" using assms(2) by (simp add: add.commute)
  then have pos: "unat (ntohs (u16_of (pointer_bytes q)) AND 0x3FFF) = q"
    using assms(2) by (simp add: unat_pointer pointer_bytes_def)
  show ?thesis
    using assms(3-5) f rd raw pos by (subst read_domain.simps) (simp add: Let_def)
qed

text \<open>
  In its window \<open>read_domain\<close> returns, and a length that it returns is positive and at most the
  length that it was given.
\<close>

lemma read_domain_window:
  "window mem p buf_len \<Longrightarrow> total_len \<le> int (length mem) \<Longrightarrow>
     \<exists>r d. read_domain mem total_len p buf_len readlen domain counter = Inr (r, d) \<and>
       (r = - 1 \<or> readlen < r \<and> r \<le> readlen + buf_len)"
proof (induction mem total_len p buf_len readlen domain counter rule: read_domain.induct)
  case (1 mem total_len p buf_len readlen domain counter)
  note IH = "1.IH" and win = "1.prems"(1) and tot = "1.prems"(2)
  show ?case
  proof (cases "counter > 256 \<or> buf_len < 1")
    case True
    then show ?thesis by (subst read_domain.simps) auto
  next
    case False
    then have c: "\<not> counter > 256" "\<not> buf_len < 1" by auto
    let ?dlen = "mem ! p"
    have rd: "rd mem p = Inr ?dlen" using rd_window [OF win] c(2) by simp
    note step = read_domain.simps [of mem total_len p buf_len readlen domain counter]
    consider (ptr) "?dlen AND 0xC0 = 0xC0" | (bad) "?dlen AND 0xC0 \<noteq> 0" "?dlen AND 0xC0 \<noteq> 0xC0"
      | (root) "?dlen AND 0xC0 = 0" "?dlen = 0" | (label) "?dlen AND 0xC0 = 0" "?dlen \<noteq> 0"
      by auto
    then show ?thesis
    proof cases
      case ptr
      show ?thesis
      proof (cases "buf_len < 2")
        case True
        with ptr c rd show ?thesis by (simp add: step)
      next
        case two: False
        then have raw: "rds mem p 2 = Inr (take 2 (drop p mem))"
          using rds_window [OF win, of 0 2] by simp
        let ?pos = "unat (ntohs (u16_of (take 2 (drop p mem))) AND 0x3FFF)"
        show ?thesis
        proof (cases "int ?pos \<ge> total_len")
          case True
          with ptr c rd two raw show ?thesis by (simp add: step)
        next
          case pos: False
          then have "window mem ?pos (total_len - int ?pos)" using tot by (simp add: window_def)
          from IH(1) [OF c rd refl _ ptr two raw refl pos this tot] ptr
          obtain r d where "read_domain mem total_len ?pos (total_len - int ?pos) 0 domain
              (counter + 1) = Inr (r, d)" by auto
          with ptr c rd two raw pos show ?thesis by (simp add: step)
        qed
      qed
    next
      case bad
      with c rd show ?thesis by (simp add: step)
    next
      case root
      with c rd show ?thesis by (simp add: step)
    next
      case label
      show ?thesis
      proof (cases "unat (word_of_int (buf_len - 1) :: 32 word) < unat ?dlen")
        case True
        with label c rd show ?thesis by (simp add: step)
      next
        case fits: False
        have "int (unat (word_of_int (buf_len - 1) :: 32 word)) \<le> buf_len - 1"
          using c(2) by (intro unat_word_of_int_le) simp
        with fits have le: "int (unat ?dlen) \<le> buf_len - 1" by linarith
        have win': "window mem (p + 1 + unat ?dlen) (buf_len - 1 - int (unat ?dlen))"
          using win le by (simp add: window_def)
        have lab: "rds mem (p + 1) (unat ?dlen) = Inr (take (unat ?dlen) (drop (p + 1) mem))"
          using rds_window [OF win, of 1 "unat ?dlen"] le by simp
        from IH(2) [OF c rd refl _ label(2) fits lab win' tot] label(1)
        obtain r d where
          "read_domain mem total_len (p + 1 + unat ?dlen) (buf_len - 1 - int (unat ?dlen))
             (readlen + 1 + int (unat ?dlen))
             (if domain = [] then take (unat ?dlen) (drop (p + 1) mem)
              else domain @ str ''.'' @ take (unat ?dlen) (drop (p + 1) mem)) counter = Inr (r, d)"
          "r = - 1 \<or> readlen + 1 + int (unat ?dlen) < r \<and> r \<le> readlen + buf_len" by auto
        with label c rd fits lab show ?thesis by (auto simp: step)
      qed
    qed
  qed
qed

lemma read_domain_cases:
  assumes "window mem p buf_len" "total_len \<le> int (length mem)"
  obtains (fail) d where "read_domain mem total_len p buf_len 0 [] 0 = Inr (- 1, d)"
  | (ok) r d where "read_domain mem total_len p buf_len 0 [] 0 = Inr (r, d)" "0 < r" "r \<le> buf_len"
  using read_domain_window [OF assms, of 0 "[]" 0] by auto

lemma decode_a_window:
  "window mem p (int rdlen) \<Longrightarrow> returns (decode_a mem p rdlen)"
  by (auto simp: decode_a_def window_def rds_def)

lemma decode_aaaa_window:
  "window mem p (int rdlen) \<Longrightarrow> returns (decode_aaaa mem p rdlen)"
  by (auto simp: decode_aaaa_def window_def rds_def)

lemma decode_txt_window:
  "window mem p (int rdlen) \<Longrightarrow> returns (decode_txt mem p rdlen)"
  by (auto simp: decode_txt_def window_def rds_def rd_def)

lemma decode_hinfo_window:
  assumes "window mem p (int rdlen)"
  shows "returns (decode_hinfo mem p rdlen)"
proof (cases "rdlen < 1 \<or> int (unat (mem ! p)) > int rdlen - 1")
  case True
  with assms show ?thesis by (auto simp: decode_hinfo_def window_def rd_def)
next
  case False
  let ?n = "mem ! p" and ?k = "unat (mem ! p + 1)"
  have "?k \<le> unat ?n + 1" by (auto simp: unat_plus_if')
  with False have k: "?k \<le> rdlen" by linarith
  have b: "rd mem p = Inr ?n" "rds mem (p + 1) (unat ?n) = Inr (take (unat ?n) (drop (p + 1) mem))"
    using assms False by (auto simp: window_def rd_def rds_def)
  show ?thesis
  proof (cases "rdlen - ?k < 1 \<or> int (unat (mem ! (p + ?k))) \<noteq> int (rdlen - ?k) - 1")
    case True
    with assms k False b show ?thesis
      by (auto simp: decode_hinfo_def Let_def window_def rd_def)
  next
    case second: False
    with assms k have "rd mem (p + ?k) = Inr (mem ! (p + ?k))"
      "rds mem (p + ?k + 1) (unat (mem ! (p + ?k))) =
         Inr (take (unat (mem ! (p + ?k))) (drop (p + ?k + 1) mem))"
      by (auto simp: window_def rd_def rds_def)
    with second False b show ?thesis by (simp add: decode_hinfo_def Let_def)
  qed
qed

lemma decode_mx_window:
  assumes "window mem p buf_len" "int rdlen \<le> buf_len" "total_len \<le> int (length mem)"
  shows "returns (decode_mx mem total_len p buf_len rdlen)"
  using read_domain_window [OF assms(1,3), of 0 "[]" 0] assms(1,2)
  by (auto simp: decode_mx_def window_def rds_def)

text \<open>
  \<open>decode_soa\<close> may read 16 bytes behind its window: it asks for 4 bytes and reads 20.
\<close>

lemma decode_soa_window:
  assumes win: "window mem p buf_len" and tot: "total_len \<le> int (length mem)"
    and slack: "window mem p (buf_len + 16)"
  shows "returns (decode_soa mem total_len p buf_len)"
  using win tot
proof (cases rule: read_domain_cases)
  case (fail d)
  then show ?thesis by (simp add: decode_soa_def)
next
  case r1: (ok r1 d1)
  have win1: "window mem (p + nat r1) (buf_len - r1)"
    using win r1 by (simp add: window_def)
  show ?thesis
    using win1 tot
  proof (cases rule: read_domain_cases)
    case (fail d)
    with r1 show ?thesis by (simp add: decode_soa_def Let_def)
  next
    case r2: (ok r2 d2)
    let ?n = "buf_len - r1 - r2" and ?p = "p + nat r1 + nat r2"
    have "int (unat (word_of_int ?n :: 32 word)) \<le> ?n"
      using r2 by (intro unat_word_of_int_le) simp
    then have reads: "rds mem (?p + k) 4 = Inr (take 4 (drop (?p + k) mem))"
      if "\<not> unat (word_of_int ?n :: 32 word) < 4" "k \<le> 16" for k
      using slack r1 r2 that by (auto simp: window_def rds_def)
    from r1 r2 show ?thesis
      using reads [of 0] reads [of 4] reads [of 8] reads [of 12] reads [of 16]
      by (simp add: decode_soa_def Let_def)
  qed
qed

lemma decode_rdata_window:
  assumes win: "window mem p buf_len" and tot: "total_len \<le> int (length mem)"
    and slack: "window mem p (buf_len + 16)" and rdlen: "int rdlen \<le> buf_len"
  shows "returns (decode_rdata mem total_len p buf_len type rdlen)"
proof -
  have w: "window mem p (int rdlen)" using win rdlen by (simp add: window_def)
  have "returns (read_domain mem total_len p buf_len 0 [] 0)"
    using read_domain_window [OF win tot, of 0 "[]" 0] by auto
  moreover note decode_soa_window [OF win tot slack] decode_mx_window [OF win rdlen tot]
    decode_a_window [OF w] decode_aaaa_window [OF w] decode_txt_window [OF w]
    decode_hinfo_window [OF w]
  ultimately show ?thesis
    by (auto simp: decode_rdata_def returns_bindR returns_def)
qed

lemma decode_rr_window:
  "window mem p buf_len \<Longrightarrow> window mem p (buf_len + 16) \<Longrightarrow> total_len \<le> int (length mem) \<Longrightarrow>
     \<exists>r l. decode_rr mem total_len p buf_len num readlen rr_list = Inr (r, l) \<and>
       (r = - 1 \<or> readlen \<le> r \<and> r \<le> readlen + buf_len)"
proof (induction num arbitrary: p buf_len readlen rr_list)
  case 0
  then show ?case by (simp add: window_def)
next
  case (Suc num)
  note win = Suc.prems(1) and slack = Suc.prems(2) and tot = Suc.prems(3)
  show ?case
    using win tot
  proof (cases rule: read_domain_cases)
    case (fail d)
    then show ?thesis by simp
  next
    case (ok r d)
    show ?thesis
    proof (cases "buf_len - r < 10")
      case True
      with ok show ?thesis by (simp add: Let_def)
    next
      case False
      let ?p = "p + nat r" and ?n = "buf_len - r"
      have w1: "window mem ?p ?n" using win ok by (simp add: window_def)
      have reads: "rds mem (?p + k) m = Inr (take m (drop (?p + k) mem))" if "k + m \<le> 10" for k m
        using rds_window [OF w1] that False by simp
      note rds4 = reads [of 0 2, simplified] reads [of 2 2] reads [of 4 4] reads [of 8 2]
      define ty where "ty = unat (ntohs (u16_of (take 2 (drop ?p mem))))"
      define rdlen where "rdlen = unat (ntohs (u16_of (take 2 (drop (?p + 8) mem))))"
      show ?thesis
      proof (cases "?n - 10 < int rdlen")
        case True
        with ok False show ?thesis by (simp add: Let_def rds4 rdlen_def)
      next
        case fits: False
        have w2: "window mem (?p + 10) (?n - 10)" "window mem (?p + 10) (?n - 10 + 16)"
          using win slack ok False by (simp_all add: window_def)
        have "int rdlen \<le> ?n - 10" using fits by simp
        from decode_rdata_window [OF w2(1) tot w2(2) this, of ty]
        obtain rd where rd: "decode_rdata mem total_len (?p + 10) (?n - 10) ty rdlen = Inr rd"
          by (auto simp: returns_def)
        show ?thesis
        proof (cases rd)
          case None
          with ok False fits rd show ?thesis by (simp add: Let_def rds4 rdlen_def ty_def)
        next
          case (Some rdata)
          have w3: "window mem (?p + 10 + rdlen) (?n - 10 - int rdlen)"
            "window mem (?p + 10 + rdlen) (?n - 10 - int rdlen + 16)"
            using w2 fits by (simp_all add: window_def)
          define rl where "rl = readlen + r + 10 + int rdlen"
          define l' where "l' = rr_list @ [\<lparr>m_name = d, m_type = u16_of (take 2 (drop ?p mem)),
            m_class = u16_of (take 2 (drop (?p + 2) mem)),
            m_ttl = u32_of (take 4 (drop (?p + 4) mem)), m_rdata = rdata\<rparr>]"
          have eq: "decode_rr mem total_len p buf_len (Suc num) readlen rr_list =
              decode_rr mem total_len (?p + 10 + rdlen) (?n - 10 - int rdlen) num rl l'"
            using ok False fits rd Some
            by (simp add: Let_def rds4 rdlen_def [symmetric] ty_def [symmetric] rl_def l'_def)
          from Suc.IH [OF w3 tot, of rl l'] ok(2) show ?thesis unfolding eq rl_def by auto
        qed
      qed
    qed
  qed
qed

lemma decode_question_window:
  "window mem p buf_len \<Longrightarrow> total_len \<le> int (length mem) \<Longrightarrow>
     \<exists>r l. decode_question mem total_len p buf_len num readlen qs = Inr (r, l) \<and>
       (r = - 1 \<or> readlen \<le> r \<and> r \<le> readlen + buf_len)"
proof (induction num arbitrary: p buf_len readlen qs)
  case 0
  then show ?case by (simp add: window_def)
next
  case (Suc num)
  show ?case
    using Suc.prems
  proof (cases rule: read_domain_cases)
    case (fail d)
    then show ?thesis by simp
  next
    case (ok r d)
    show ?thesis
    proof (cases "buf_len - r < 4")
      case True
      with ok show ?thesis by (simp add: Let_def)
    next
      case False
      let ?p = "p + nat r" and ?n = "buf_len - r"
      have w1: "window mem ?p ?n" using Suc.prems(1) ok by (simp add: window_def)
      have w2: "window mem (?p + 4) (?n - 4)" using Suc.prems(1) ok False by (simp add: window_def)
      note reads = rds_window [OF w1, of 0 2] rds_window [OF w1, of 2 2]
      define q where "q = \<lparr>m_qname = d, m_qtype = u16_of (take 2 (drop ?p mem)),
        m_qclass = u16_of (take 2 (drop (?p + 2) mem))\<rparr>"
      have eq: "decode_question mem total_len p buf_len (Suc num) readlen qs =
          decode_question mem total_len (?p + 4) (?n - 4) num (readlen + r + 4) (qs @ [q])"
        using ok False reads by (simp add: Let_def q_def)
      from Suc.IH [OF w2 Suc.prems(2), of "readlen + r + 4" "qs @ [q]"] ok(2)
      show ?thesis unfolding eq by auto
    qed
  qed
qed

text \<open>One section after another: a failed section ends the decoding, a good one moves on.\<close>

lemma returns_section:
  assumes "\<exists>r l. m = Inr (r, l) \<and> (r = - 1 \<or> 0 \<le> r \<and> r \<le> n)"
    and "\<And>l. returns (f (- 1, l))"
    and "\<And>r l. 0 \<le> r \<Longrightarrow> r \<le> n \<Longrightarrow> returns (f (r, l))"
  shows "returns (bindR m f)"
  using assms by (auto simp: returns_bindR)

definition slack_window :: "byte list \<Rightarrow> nat \<Rightarrow> int \<Rightarrow> bool" where
  "slack_window mem p n \<longleftrightarrow> window mem p n \<and> window mem p (n + 16)"

lemma slack_window_step:
  "slack_window mem p n \<Longrightarrow> 0 \<le> r \<Longrightarrow> r \<le> n \<Longrightarrow> slack_window mem (p + nat r) (n - r)"
  by (simp add: slack_window_def window_def)

lemma question_section:
  "slack_window mem p n \<Longrightarrow> total_len \<le> int (length mem) \<Longrightarrow>
     \<exists>r l. decode_question mem total_len p n num 0 qs = Inr (r, l) \<and> (r = - 1 \<or> 0 \<le> r \<and> r \<le> n)"
  using decode_question_window [of mem p n total_len num 0 qs] by (auto simp: slack_window_def)

lemma rr_section:
  "slack_window mem p n \<Longrightarrow> total_len \<le> int (length mem) \<Longrightarrow>
     \<exists>r l. decode_rr mem total_len p n num 0 rs = Inr (r, l) \<and> (r = - 1 \<or> 0 \<le> r \<and> r \<le> n)"
  using decode_rr_window [of mem p n total_len num 0 rs] by (auto simp: slack_window_def)

lemma dns_decode_total:
  assumes "len + 16 \<le> int (length mem)"
  shows "returns (dns_decode dns mem len)"
proof (cases "len < 12")
  case True
  then show ?thesis by (simp add: dns_decode_def)
next
  case False
  have tot: "len \<le> int (length mem)" using assms by simp
  have hd: "rds mem 0 12 = Inr (take 12 mem)" using assms False by (simp add: rds_def)
  have w: "slack_window mem 12 (len - 12)"
    using assms False by (simp add: slack_window_def window_def)
  note sections = returns_section [OF question_section [OF _ tot]]
    returns_section [OF rr_section [OF _ tot]]
  show ?thesis
    using w False unfolding dns_decode_def
    by (simp add: hd Let_def)
      ((intro sections slack_window_step; simp add: Let_def)+)
qed

text \<open>
  C20: a message of \<open>len\<close> bytes is always decoded, with no read outside of the memory, when 16
  more bytes can be read behind it: \<open>decode_soa\<close> may go that far. The compression pointers cannot
  make the decoder loop.
\<close>
theorem dns_decode_returns:
  assumes "len + 16 \<le> int (length mem)"
  shows "returns (dns_decode dns mem len)"
  by (rule dns_decode_total [OF assms])

definition empty_dns :: cdpi_dns where
  "empty_dns = \<lparr>m_header = header_of (replicate 12 0), m_quesiton = [], m_answer = [],
     m_authority = [], m_additional = []\<rparr>"

text \<open>A memory of 33 bytes that holds a question for the root and lets 16 bytes follow.\<close>

lemma dns_decode_returns_witness:
  "returns (dns_decode empty_dns ([0, 1, 1, 0, 0, 1, 0, 0, 0, 0, 0, 0, 0, 0, 1, 0, 1] @ replicate 16 0) 17)"
  by (rule dns_decode_returns) simp

lemma decode_question_length:
  "decode_question mem total_len p buf_len num readlen qs = Inr (r, l) \<Longrightarrow> r \<noteq> - 1 \<Longrightarrow>
     length l = length qs + num"
  by (induction mem total_len p buf_len num readlen qs rule: decode_question.induct)
    (auto simp: bindR_eq_Inr Let_def split: if_splits)

lemma decode_rr_length:
  "decode_rr mem total_len p buf_len num readlen rs = Inr (r, l) \<Longrightarrow> r \<noteq> - 1 \<Longrightarrow>
     length l = length rs + num"
  by (induction mem total_len p buf_len num readlen rs rule: decode_rr.induct)
    (auto simp: bindR_eq_Inr Let_def split: if_splits option.splits)

text \<open>
  A message that is accepted has added as many entries to every section as its header counts,
  whatever the sections held before.
\<close>
theorem dns_decode_counts:
  assumes "dns_decode dns mem len = Inr (True, d)"
  shows "length (m_quesiton d) = length (m_quesiton dns) + unat (ntohs (m_qd_count (m_header d))) \<and>
     length (m_answer d) = length (m_answer dns) + unat (ntohs (m_an_count (m_header d))) \<and>
     length (m_authority d) = length (m_authority dns) + unat (ntohs (m_ns_count (m_header d))) \<and>
     length (m_additional d) = length (m_additional dns) + unat (ntohs (m_ar_count (m_header d)))"
  using assms
  by (auto simp: dns_decode_def bindR_eq_Inr Let_def split: if_splits
      dest!: decode_question_length decode_rr_length)

text \<open>A message with one question, for the root.\<close>

definition sample_dns :: "byte list" where
  "sample_dns = [0, 7, 1, 0, 0, 1, 0, 0, 0, 0, 0, 0, 0, 0, 1, 0, 1]"

lemma sample_dns_decode:
  "dns_decode empty_dns sample_dns 17 = Inr (True,
     empty_dns\<lparr>m_header := header_of (take 12 sample_dns),
       m_quesiton := [\<lparr>m_qname = [], m_qtype = u16_of [0, 1], m_qclass = u16_of [0, 1]\<rparr>]\<rparr>)"
proof -
  have "read_domain sample_dns 17 12 5 0 [] 0 = Inr (1, [])"
    using read_domain_root [of sample_dns 12 0 5 17 0 "[]"] by (simp add: sample_dns_def rd_def)
  moreover have "rds sample_dns 0 12 = Inr (take 12 sample_dns)"
    "rds sample_dns 13 2 = Inr [0, 1]" "rds sample_dns 15 2 = Inr [0, 1]"
    by (simp_all add: sample_dns_def rds_def)
  moreover have "unat (ntohs (m_qd_count (header_of (take 12 sample_dns)))) = Suc 0"
    "unat (ntohs (m_an_count (header_of (take 12 sample_dns)))) = 0"
    "unat (ntohs (m_ns_count (header_of (take 12 sample_dns)))) = 0"
    "unat (ntohs (m_ar_count (header_of (take 12 sample_dns)))) = 0"
    by (simp_all add: header_of_def sample_dns_def be_nat_def)
  ultimately show ?thesis by (simp add: dns_decode_def empty_dns_def Let_def)
qed

lemma dns_decode_counts_witness:
  "length (m_quesiton (empty_dns\<lparr>m_header := header_of (take 12 sample_dns),
     m_quesiton := [\<lparr>m_qname = [], m_qtype = u16_of [0, 1], m_qclass = u16_of [0, 1]\<rparr>]\<rparr>)) =
   unat (ntohs (m_qd_count (header_of (take 12 sample_dns))))"
  using dns_decode_counts [OF sample_dns_decode] by (simp add: empty_dns_def)

text \<open>
  a name whose compression pointer points to the pointer itself is refused; the decoder gives
  up when it has followed 257 pointers.
\<close>
theorem read_domain_self_pointer:
  assumes "holds_at mem p (pointer_bytes p)" "p < 0x4000" "int p + 2 \<le> total_len" "2 \<le> buf_len"
  shows "read_domain mem total_len p buf_len readlen domain counter = Inr (- 1, domain)"
  using assms(4)
proof (induction "257 - counter" arbitrary: counter buf_len readlen)
  case 0
  then show ?case by (subst read_domain.simps) simp
next
  case (Suc n)
  then have "counter \<le> 256" "n = 257 - (counter + 1)" by simp_all
  with assms(1-3) Suc.prems Suc.hyps(1) show ?case by (simp add: read_domain_pointer)
qed

lemma read_domain_self_pointer_witness:
  "read_domain [0xC0, 0] 2 0 2 0 [] 0 = Inr (- 1, [])"
  by (rule read_domain_self_pointer)
    (simp_all add: pointer_bytes_def be_bytes_2 holds_at_Cons rd_def)

text \<open>
  the address of a start of authority record is read past the end of the message. When the two
  names are followed by 4 to 19 bytes and the memory ends there, the check passes, because it asks for
  the 4 bytes of the first number only, and the five numbers are read out of bounds.
\<close>
theorem decode_soa_over_read:
  assumes "read_domain mem total_len p buf_len 0 [] 0 = Inr (r1, mname)" "0 < r1"
    and "read_domain mem total_len (p + nat r1) (buf_len - r1) 0 [] 0 = Inr (r2, rname)" "0 < r2"
    and "4 \<le> buf_len - r1 - r2" "buf_len - r1 - r2 < 20" "int p + buf_len = int (length mem)"
    "buf_len < 2 ^ 31"
  shows "decode_soa mem total_len p buf_len = Inl OutOfBounds"
proof -
  let ?n = "buf_len - r1 - r2" and ?p = "p + nat r1 + nat r2"
  have "unat (word_of_int ?n :: 32 word) = nat ?n"
    using assms by (intro unat_word_of_int_small) simp_all
  then have c: "\<not> unat (word_of_int ?n :: 32 word) < 4" using assms(5) by simp
  have q: "?p + nat ?n = length mem" "4 \<le> nat ?n" "nat ?n < 20" using assms by linarith+
  have "rds mem (?p + k) 4 = (if k + 4 \<le> nat ?n then Inr (take 4 (drop (?p + k) mem))
      else Inl OutOfBounds)" for k
    using q(1) by (auto simp: rds_def)
  from this [of 0] this [of 4] this [of 8] this [of 12] this [of 16] show ?thesis
    using assms(1-4) c q(2,3)
    by (simp add: decode_soa_def Let_def bindR_eq_Inl split: if_splits)
qed

lemma decode_soa_over_read_witness:
  "decode_soa [0, 0, 0, 0, 0, 9] 6 0 6 = Inl OutOfBounds"
proof -
  have r: "read_domain [0, 0, 0, 0, 0, 9] 6 p (6 - int p) 0 [] 0 = Inr (1, [])" if "p < 2" for p
    using that read_domain_root [of "[0, 0, 0, 0, 0, 9]" p 0 "6 - int p" 6 0 "[]"]
    by (auto simp: less_2_cases_iff rd_def)
  show ?thesis
    by (rule decode_soa_over_read [of _ 6 0 6 1 "[]" 1 "[]"])
      (use r [of 0] r [of 1] in simp_all)
qed

text \<open>
  A mail exchange record whose preference is below 256 is given the empty name, whatever name
  the message holds: the name is read from where the preference is.
\<close>
lemma decode_mx_low_preference:
  assumes "holds_at mem p [0, pref]" "2 \<le> rdlen" "1 \<le> buf_len"
  shows "decode_mx mem total_len p buf_len rdlen = Inr (3, u16_of [0, pref], [])"
  using assms holds_at_rds [OF assms(1), of 2]
    read_domain_root [of mem p 0 buf_len total_len 0 "[]"]
  by (simp add: decode_mx_def holds_at_Cons)

lemma decode_mx_low_preference_example:
  "decode_mx [0, 10, 1, 0x61, 0] 5 0 5 5 = Inr (3, u16_of [0, 10], [])"
  by (rule decode_mx_low_preference) (simp_all add: holds_at_def)

lemma bit_flag: "n < 16 \<Longrightarrow> (w AND push_bit n 1 \<noteq> 0) \<longleftrightarrow> bit w n" for w :: "16 word"
  by (simp add: and_exp_eq_0_iff_not_bit push_bit_eq_mult)

lemma flag_word_partition:
  "w = push_bit 15 (of_bool (bit w 15)) OR push_bit 11 (take_bit 4 (drop_bit 11 w)) OR
     push_bit 10 (of_bool (bit w 10)) OR push_bit 9 (of_bool (bit w 9)) OR
     push_bit 8 (of_bool (bit w 8)) OR push_bit 7 (of_bool (bit w 7)) OR
     (w AND push_bit 6 1) OR
     push_bit 5 (of_bool (bit w 5)) OR push_bit 4 (of_bool (bit w 4)) OR take_bit 4 w"
  (is "w = ?r") for w :: "16 word"
proof (rule bit_word_eqI)
  have all: "list_all (\<lambda>n. bit w n = bit ?r n) [0..<16]"
    by (simp add: upt_conv_Cons Suc_eq_plus1 bit_simps del: One_nat_def) auto
  fix n assume "n < LENGTH(16)"
  then have "n \<in> set [0..<16]" by simp
  with all [unfolded list_all_iff] show "bit w n = bit ?r n" by (rule bspec)
qed

text \<open>
  The getters of the flags take the flag word apart without overlap: put back at their places,
  with the one bit that has no getter, they give the word of the header in host order.
\<close>
theorem dns_flags_partition:
  "ntohs (m_flag (m_header d)) =
     push_bit 15 (of_bool (is_qr d)) OR push_bit 11 (word_of_int (get_opcode d)) OR
     push_bit 10 (of_bool (is_aa d)) OR push_bit 9 (of_bool (is_tc d)) OR
     push_bit 8 (of_bool (is_rd d)) OR push_bit 7 (of_bool (is_ra d)) OR
     (ntohs (m_flag (m_header d)) AND push_bit 6 1) OR
     push_bit 5 (of_bool (is_ad d)) OR push_bit 4 (of_bool (is_cd d)) OR
     word_of_int (get_rcode d)"
proof -
  have m: "(0x000f :: 16 word) = mask 4" by (simp add: mask_eq_decr_exp)
  have o: "drop_bit 11 (w AND push_bit 11 (mask 4)) = take_bit 4 (drop_bit 11 w)" for w :: "16 word"
    by (rule bit_word_eqI) (auto simp: bit_simps)
  show ?thesis
    unfolding is_qr_def is_aa_def is_tc_def is_rd_def is_ra_def is_ad_def is_cd_def
      get_opcode_def get_rcode_def m o take_bit_eq_mask [symmetric] word_of_int_uint
    by (subst bit_flag, simp)+ (rule flag_word_partition)
qed

end
