(* ===== verification/Dns_Wire.thy ===== *)
theory Dns_Wire
  imports Dns
begin

text \<open>
  The format of RFC 1035 messages as an abstract encoder, and the lemmas that the decoder of
  \<open>cdpi_dns.cpp\<close> undoes it: names as label sequences with or without a compression pointer, record
  data, questions, records and whole messages.
\<close>

section \<open>Names\<close>

type_synonym labels = "byte list list"

definition labels_ok :: "labels \<Rightarrow> bool" where
  "labels_ok ls \<longleftrightarrow> (\<forall>l \<in> set ls. l \<noteq> [] \<and> length l < 64)"

definition labels_bytes :: "labels \<Rightarrow> byte list" where
  "labels_bytes ls = concat (map label_bytes ls)"

definition name_bytes :: "labels \<Rightarrow> byte list" where
  "name_bytes ls = labels_bytes ls @ [0]"

fun dotted :: "labels \<Rightarrow> byte list" where
  "dotted [] = []"
| "dotted (l # ls) = (if ls = [] then l else l @ str ''.'' @ dotted ls)"

lemma labels_ok_Cons [simp]:
  "labels_ok (l # ls) \<longleftrightarrow> l \<noteq> [] \<and> length l < 64 \<and> labels_ok ls"
  and labels_ok_Nil [simp]: "labels_ok []"
  and labels_ok_append [simp]: "labels_ok (ls @ ls') \<longleftrightarrow> labels_ok ls \<and> labels_ok ls'"
  by (auto simp: labels_ok_def)

lemma labels_bytes_simps [simp]:
  "labels_bytes [] = []" "labels_bytes (l # ls) = label_bytes l @ labels_bytes ls"
  by (simp_all add: labels_bytes_def)

lemma length_name_bytes [simp]: "length (name_bytes ls) = length (labels_bytes ls) + 1"
  by (simp add: name_bytes_def)

lemma foldl_append_label:
  "d \<noteq> [] \<Longrightarrow> labels_ok ls \<Longrightarrow>
     foldl append_label d ls = (if ls = [] then d else d @ str ''.'' @ dotted ls)"
  by (induction ls arbitrary: d) (auto simp: append_label_def)

lemma dotted_foldl: "labels_ok ls \<Longrightarrow> foldl append_label [] ls = dotted ls"
  by (cases ls) (auto simp: append_label_def foldl_append_label)

text \<open>The decoder walks over labels that are followed by anything.\<close>

lemma read_domain_labels:
  "holds_at mem p (labels_bytes ls) \<Longrightarrow> labels_ok ls \<Longrightarrow> counter \<le> 256 \<Longrightarrow>
     int (length (labels_bytes ls)) \<le> buf_len \<Longrightarrow> buf_len < 2 ^ 31 \<Longrightarrow>
     read_domain mem total_len p buf_len readlen domain counter =
       read_domain mem total_len (p + length (labels_bytes ls))
         (buf_len - int (length (labels_bytes ls))) (readlen + int (length (labels_bytes ls)))
         (foldl append_label domain ls) counter"
proof (induction ls arbitrary: p buf_len readlen domain)
  case (Cons l ls)
  have "holds_at mem p (label_bytes l)" "holds_at mem (p + 1 + length l) (labels_bytes ls)"
    using Cons.prems(1) by (simp_all add: holds_at_append)
  moreover have "int (length (labels_bytes ls)) \<le> buf_len - 1 - int (length l)"
    using Cons.prems(4) by simp
  ultimately show ?case
    using Cons.prems Cons.IH [of "p + 1 + length l" "buf_len - 1 - int (length l)"
      "readlen + 1 + int (length l)" "append_label domain l"]
    by (simp add: read_domain_label algebra_simps)
qed simp

lemma read_domain_name:
  assumes "holds_at mem p (name_bytes ls)" "labels_ok ls" "counter \<le> 256"
    "int (length (name_bytes ls)) \<le> buf_len" "buf_len < 2 ^ 31"
  shows "read_domain mem total_len p buf_len readlen domain counter =
     Inr (readlen + int (length (name_bytes ls)), foldl append_label domain ls)"
  using assms read_domain_labels [of mem p ls counter buf_len total_len readlen domain]
  by (simp add: name_bytes_def holds_at_append holds_at_Cons read_domain_root)

lemma read_domain_roundtrip_aux:
  assumes "holds_at mem p (name_bytes ls)" "labels_ok ls"
    "int (length (name_bytes ls)) \<le> buf_len" "buf_len < 2 ^ 31"
  shows "read_domain mem total_len p buf_len 0 [] 0 = Inr (int (length (name_bytes ls)), dotted ls)"
  using assms by (simp add: read_domain_name dotted_foldl)

lemma take_drop_split3: "take k xs @ take n (drop k xs) @ drop (k + n) xs = xs"
  by (metis add.commute append_take_drop_id drop_drop)

text \<open>
  A name on the wire, a sequence of labels and the root, is read to the labels with dots between
  them, and the number that is returned is the length of its encoding.
\<close>
theorem read_domain_roundtrip:
  assumes "labels_ok ls" "holds_at mem p (name_bytes ls)"
    and "int (length (name_bytes ls)) \<le> buf_len" "buf_len < 2 ^ 31"
  shows "read_domain mem total_len p buf_len 0 [] 0 = Inr (int (length (name_bytes ls)), dotted ls)"
  using assms by (intro read_domain_roundtrip_aux)

lemma read_domain_roundtrip_witness:
  "read_domain [1, 0x61, 2, 0x62, 0x63, 0] 6 0 6 0 [] 0 = Inr (6, str ''a.bc'')"
  using read_domain_roundtrip [of "[[0x61], [0x62, 0x63]]" "[1, 0x61, 2, 0x62, 0x63, 0]" 0 6 6]
  by (simp add: name_bytes_def label_bytes_def holds_at_def str_def)

text \<open>
  C29: a compressed name, labels followed by a pointer to a name elsewhere in the message, is read to
  the labels of both, and the number returned counts the bytes up to the pointer and two for it.
\<close>
theorem read_domain_compressed:
  assumes "labels_ok ls" "labels_ok ls'"
    and "holds_at mem p (labels_bytes ls @ pointer_bytes q)" "holds_at mem q (name_bytes ls')"
    and "q < 0x4000" "int q + int (length (name_bytes ls')) \<le> total_len" "total_len < 2 ^ 31"
    and "int (length (labels_bytes ls)) + 2 \<le> buf_len" "buf_len < 2 ^ 31"
  shows "read_domain mem total_len p buf_len 0 [] 0 =
     Inr (int (length (labels_bytes ls)) + 2, dotted (ls @ ls'))"
proof -
  have "read_domain mem total_len p buf_len 0 [] 0 =
      read_domain mem total_len (p + length (labels_bytes ls))
        (buf_len - int (length (labels_bytes ls))) (int (length (labels_bytes ls)))
        (foldl append_label [] ls) 0"
    using assms read_domain_labels [of mem p ls 0 buf_len total_len 0 "[]"]
    by (simp add: holds_at_append)
  also have "\<dots> = bindR (read_domain mem total_len q (total_len - int q) 0
      (foldl append_label [] ls) 1)
      (\<lambda>(r, d). if r < 0 then Inr (- 1, d) else Inr (int (length (labels_bytes ls)) + 2, d))"
    using assms by (subst read_domain_pointer [of _ _ q]) (simp_all add: holds_at_append)
  finally show ?thesis
    using assms dotted_foldl [of "ls @ ls'"] by (simp add: read_domain_name)
qed

lemma read_domain_compressed_witness:
  "read_domain [1, 0x61, 0, 1, 0x62, 0xC0, 0] 7 3 4 0 [] 0 = Inr (4, str ''b.a'')"
  using read_domain_compressed
    [of "[[0x62]]" "[[0x61]]" "[1, 0x61, 0, 1, 0x62, 0xC0, 0]" 3 0 7 4]
  by (simp add: name_bytes_def label_bytes_def pointer_bytes_def be_bytes_2 holds_at_def str_def)

section \<open>Record data\<close>

datatype wire_rdata =
    W_a "byte list"
  | W_aaaa "byte list"
  | W_txt "byte list"
  | W_ns labels
  | W_cname labels
  | W_ptr labels
  | W_hinfo "byte list" "byte list"
  | W_soa labels labels "byte list"
  | W_other nat "byte list"

text \<open>A character string: a length byte and the characters.\<close>

definition string_bytes :: "byte list \<Rightarrow> byte list" where
  "string_bytes s = word_of_nat (length s) # s"

fun rdata_type :: "wire_rdata \<Rightarrow> nat" where
  "rdata_type (W_a a) = DNS_TYPE_A"
| "rdata_type (W_aaaa a) = DNS_TYPE_AAAA"
| "rdata_type (W_txt t) = DNS_TYPE_TXT"
| "rdata_type (W_ns n) = DNS_TYPE_NS"
| "rdata_type (W_cname n) = DNS_TYPE_CNAME"
| "rdata_type (W_ptr n) = DNS_TYPE_PTR"
| "rdata_type (W_hinfo cpu os) = DNS_TYPE_HINFO"
| "rdata_type (W_soa m r ns) = DNS_TYPE_SOA"
| "rdata_type (W_other t d) = t"

fun rdata_bytes :: "wire_rdata \<Rightarrow> byte list" where
  "rdata_bytes (W_a a) = a"
| "rdata_bytes (W_aaaa a) = a"
| "rdata_bytes (W_txt t) = string_bytes t"
| "rdata_bytes (W_ns n) = name_bytes n"
| "rdata_bytes (W_cname n) = name_bytes n"
| "rdata_bytes (W_ptr n) = name_bytes n"
| "rdata_bytes (W_hinfo cpu os) = string_bytes cpu @ string_bytes os"
| "rdata_bytes (W_soa m r ns) = name_bytes m @ name_bytes r @ ns"
| "rdata_bytes (W_other t d) = d"

text \<open>What the decoder makes of it.\<close>

fun rdata_value :: "wire_rdata \<Rightarrow> cdpi_dns_rdata option" where
  "rdata_value (W_a a) = Some (Rd_a (u32_of a))"
| "rdata_value (W_aaaa a) = Some (Rd_aaaa a)"
| "rdata_value (W_txt t) = Some (Rd_txt t)"
| "rdata_value (W_ns n) = Some (Rd_ns (dotted n))"
| "rdata_value (W_cname n) = Some (Rd_cname (dotted n))"
| "rdata_value (W_ptr n) = Some (Rd_ptr (dotted n))"
| "rdata_value (W_hinfo cpu os) = Some (Rd_hinfo cpu os)"
| "rdata_value (W_soa m r ns) = Some (Rd_soa
     \<lparr>m_mname = dotted m, m_rname = dotted r, m_serial = u32_of (take 4 ns),
      m_refresh = u32_of (take 4 (drop 4 ns)), m_retry = u32_of (take 4 (drop 8 ns)),
      m_expire = u32_of (take 4 (drop 12 ns)), m_minimum = u32_of (take 4 (drop 16 ns))\<rparr>)"
| "rdata_value (W_other t d) = None"

fun rdata_ok :: "wire_rdata \<Rightarrow> bool" where
  "rdata_ok (W_a a) \<longleftrightarrow> length a = 4"
| "rdata_ok (W_aaaa a) \<longleftrightarrow> length a = 16"
| "rdata_ok (W_txt t) \<longleftrightarrow> t \<noteq> [] \<and> length t < 256"
| "rdata_ok (W_ns n) \<longleftrightarrow> labels_ok n"
| "rdata_ok (W_cname n) \<longleftrightarrow> labels_ok n"
| "rdata_ok (W_ptr n) \<longleftrightarrow> labels_ok n"
| "rdata_ok (W_hinfo cpu os) \<longleftrightarrow> length cpu < 255 \<and> length os < 256"
| "rdata_ok (W_soa m r ns) \<longleftrightarrow> labels_ok m \<and> labels_ok r \<and> length ns = 20"
| "rdata_ok (W_other t d) \<longleftrightarrow> t \<notin> {1, 2, 5, 6, 12, 13, 15, 16, 28} \<and> t < 65536"

lemma length_string_bytes [simp]: "length (string_bytes s) = length s + 1"
  by (simp add: string_bytes_def)

lemma string_bytes_reads:
  assumes "holds_at mem p (string_bytes s)" "length s < 256"
  shows "rd mem p = Inr (word_of_nat (length s))" "rds mem (p + 1) (length s) = Inr s"
    "unat (word_of_nat (length s) :: byte) = length s"
  using assms by (simp_all add: string_bytes_def holds_at_Cons holds_at_rds)

lemma decode_hinfo_roundtrip:
  assumes "holds_at mem p (string_bytes cpu @ string_bytes os)" "length cpu < 255" "length os < 256"
    "rdlen = length cpu + length os + 2"
  shows "decode_hinfo mem p rdlen = Inr (int rdlen, cpu, os)"
proof -
  have h: "holds_at mem p (string_bytes cpu)" "holds_at mem (p + (length cpu + 1)) (string_bytes os)"
    using assms(1) by (simp_all add: holds_at_append)
  have c: "length cpu < 256" using assms(2) by simp
  have k: "unat (word_of_nat (length cpu) + 1 :: byte) = length cpu + 1"
    using assms(2) by (simp add: unat_plus_if')
  show ?thesis
    using string_bytes_reads [OF h(1) c] string_bytes_reads [OF h(2) assms(3)] k assms(2,4)
    by (simp add: decode_hinfo_def Let_def)
qed

lemma decode_soa_roundtrip:
  assumes "holds_at mem p (name_bytes m @ name_bytes r @ ns)" "labels_ok m" "labels_ok r"
    "length ns = 20" "int (length (name_bytes m @ name_bytes r @ ns)) \<le> buf_len" "buf_len < 2 ^ 31"
  shows "\<exists>n. decode_soa mem total_len p buf_len = Inr (n, Some
     \<lparr>m_mname = dotted m, m_rname = dotted r, m_serial = u32_of (take 4 ns),
      m_refresh = u32_of (take 4 (drop 4 ns)), m_retry = u32_of (take 4 (drop 8 ns)),
      m_expire = u32_of (take 4 (drop 12 ns)), m_minimum = u32_of (take 4 (drop 16 ns))\<rparr>) \<and> 0 \<le> n"
proof -
  let ?m = "length (name_bytes m)" and ?r = "length (name_bytes r)"
  let ?n = "buf_len - int ?m - int ?r" and ?p = "p + ?m + ?r"
  have h: "holds_at mem p (name_bytes m)" "holds_at mem (p + ?m) (name_bytes r)" "holds_at mem ?p ns"
    using assms(1) by (simp_all only: holds_at_append)
  have r1: "read_domain mem total_len p buf_len 0 [] 0 = Inr (int ?m, dotted m)"
    using assms by (intro read_domain_roundtrip_aux h) simp_all
  have r2: "read_domain mem total_len (p + ?m) (buf_len - int ?m) 0 [] 0 = Inr (int ?r, dotted r)"
    using assms by (intro read_domain_roundtrip_aux h) simp_all
  have len: "unat (word_of_int ?n :: 32 word) = nat ?n"
    using assms by (intro unat_word_of_int_small) simp_all
  have "rds mem (?p + k) 4 = Inr (take 4 (drop k ns))" if "k + 4 \<le> 20" for k
  proof (rule holds_at_rds)
    have "holds_at mem ?p (take k ns @ take 4 (drop k ns) @ drop (k + 4) ns)"
      using h(3) by (simp add: take_drop_split3)
    then show "holds_at mem (?p + k) (take 4 (drop k ns))"
      using that assms(4) by (simp add: holds_at_append min_def)
  qed (use that assms(4) in simp)
  from this [of 0] this [of 4] this [of 8] this [of 12] this [of 16] show ?thesis
    using r1 r2 len assms(4,5)
    by (simp add: decode_soa_def Let_def nat_add_distrib del: length_name_bytes)
qed

lemma decode_rdata_roundtrip:
  assumes "holds_at mem p (rdata_bytes d)" "rdata_ok d" "int (length (rdata_bytes d)) \<le> buf_len"
    "buf_len < 2 ^ 31"
  shows "decode_rdata mem total_len p buf_len (rdata_type d) (length (rdata_bytes d)) =
     Inr (Some (rdata_value d))"
proof (cases d)
  case (W_a a)
  with assms show ?thesis by (simp add: decode_rdata_def decode_a_def holds_at_rds)
next
  case (W_aaaa a)
  with assms show ?thesis by (simp add: decode_rdata_def decode_aaaa_def holds_at_rds)
next
  case (W_txt t)
  with assms have "holds_at mem p (string_bytes t)" "length t < 256" "t \<noteq> []" by simp_all
  with string_bytes_reads [OF this(1,2)] W_txt show ?thesis
    by (simp add: decode_rdata_def decode_txt_def)
next
  case (W_hinfo cpu os)
  with assms decode_hinfo_roundtrip [of mem p cpu os "Suc (Suc (length cpu + length os))"]
  show ?thesis by (simp add: decode_rdata_def)
next
  case (W_soa m r ns)
  with assms decode_soa_roundtrip [of mem p m r ns buf_len total_len]
  show ?thesis by (auto simp: decode_rdata_def)
qed (use assms in \<open>auto simp: decode_rdata_def read_domain_roundtrip_aux\<close>)

section \<open>Questions and records\<close>

datatype wire_question = Wire_question (q_name: labels) (q_type: nat) (q_class: nat)

datatype wire_rr = Wire_rr (rr_name: labels) (rr_class: nat) (rr_ttl: nat) (rr_data: wire_rdata)

definition question_bytes :: "wire_question \<Rightarrow> byte list" where
  "question_bytes q = name_bytes (q_name q) @ be_bytes 2 (q_type q) @ be_bytes 2 (q_class q)"

definition question_value :: "wire_question \<Rightarrow> cdpi_dns_question" where
  "question_value q = \<lparr>m_qname = dotted (q_name q), m_qtype = u16_of (be_bytes 2 (q_type q)),
     m_qclass = u16_of (be_bytes 2 (q_class q))\<rparr>"

definition question_ok :: "wire_question \<Rightarrow> bool" where
  "question_ok q \<longleftrightarrow> labels_ok (q_name q)"

definition rr_bytes :: "wire_rr \<Rightarrow> byte list" where
  "rr_bytes r = name_bytes (rr_name r) @ be_bytes 2 (rdata_type (rr_data r)) @
     be_bytes 2 (rr_class r) @ be_bytes 4 (rr_ttl r) @ be_bytes 2 (length (rdata_bytes (rr_data r))) @
     rdata_bytes (rr_data r)"

definition rr_value :: "wire_rr \<Rightarrow> cdpi_dns_rr" where
  "rr_value r = \<lparr>m_name = dotted (rr_name r),
     m_type = u16_of (be_bytes 2 (rdata_type (rr_data r))),
     m_class = u16_of (be_bytes 2 (rr_class r)), m_ttl = u32_of (be_bytes 4 (rr_ttl r)),
     m_rdata = rdata_value (rr_data r)\<rparr>"

definition rr_ok :: "wire_rr \<Rightarrow> bool" where
  "rr_ok r \<longleftrightarrow> labels_ok (rr_name r) \<and> rdata_ok (rr_data r) \<and>
     length (rdata_bytes (rr_data r)) < 65536"

lemma rdata_type_less: "rdata_ok d \<Longrightarrow> rdata_type d < 65536"
  by (cases d) simp_all

lemma decode_question_roundtrip:
  "holds_at mem p (concat (map question_bytes qs)) \<Longrightarrow> \<forall>q \<in> set qs. question_ok q \<Longrightarrow>
     int (length (concat (map question_bytes qs))) \<le> buf_len \<Longrightarrow> buf_len < 2 ^ 31 \<Longrightarrow>
     decode_question mem total_len p buf_len (length qs) readlen acc =
       Inr (readlen + int (length (concat (map question_bytes qs))), acc @ map question_value qs)"
proof (induction qs arbitrary: p buf_len readlen acc)
  case (Cons q qs)
  let ?m = "length (name_bytes (q_name q))"
  have h: "holds_at mem p (name_bytes (q_name q))"
    "holds_at mem (p + ?m) (be_bytes 2 (q_type q))"
    "holds_at mem (p + ?m + 2) (be_bytes 2 (q_class q))"
    "holds_at mem (p + ?m + 4) (concat (map question_bytes qs))"
    using Cons.prems(1) by (simp_all add: holds_at_append question_bytes_def [of q] algebra_simps)
  have len: "int ?m + 4 + int (length (concat (map question_bytes qs))) \<le> buf_len"
    using Cons.prems(3) by (simp add: question_bytes_def [of q])
  have "read_domain mem total_len p buf_len 0 [] 0 = Inr (int ?m, dotted (q_name q))"
    using h(1) len Cons.prems(2,4)
    by (intro read_domain_roundtrip_aux) (simp_all add: question_ok_def)
  moreover note Cons.IH [OF h(4), of "buf_len - int ?m - 4" "readlen + int ?m + 4"
      "acc @ [question_value q]"]
  ultimately show ?case
    using h(2,3) len Cons.prems(2,4)
    by (simp add: Let_def holds_at_rds question_value_def question_bytes_def [of q] algebra_simps
        del: length_name_bytes)
qed simp

lemma decode_rr_roundtrip:
  "holds_at mem p (concat (map rr_bytes rs)) \<Longrightarrow> \<forall>r \<in> set rs. rr_ok r \<Longrightarrow>
     int (length (concat (map rr_bytes rs))) \<le> buf_len \<Longrightarrow> buf_len < 2 ^ 31 \<Longrightarrow>
     decode_rr mem total_len p buf_len (length rs) readlen acc =
       Inr (readlen + int (length (concat (map rr_bytes rs))), acc @ map rr_value rs)"
proof (induction rs arbitrary: p buf_len readlen acc)
  case (Cons r rs)
  let ?m = "length (name_bytes (rr_name r))" and ?d = "rr_data r"
  let ?k = "length (rdata_bytes ?d)"
  have ok: "labels_ok (rr_name r)" "rdata_ok ?d" "?k < 65536" "rdata_type ?d < 65536"
    using Cons.prems(2) by (auto simp: rr_ok_def intro: rdata_type_less)
  have h: "holds_at mem p (name_bytes (rr_name r))"
    "holds_at mem (p + ?m) (be_bytes 2 (rdata_type ?d))"
    "holds_at mem (p + ?m + 2) (be_bytes 2 (rr_class r))"
    "holds_at mem (p + ?m + 4) (be_bytes 4 (rr_ttl r))"
    "holds_at mem (p + ?m + 8) (be_bytes 2 ?k)"
    "holds_at mem (p + ?m + 10) (rdata_bytes ?d)"
    "holds_at mem (p + ?m + 10 + ?k) (concat (map rr_bytes rs))"
    using Cons.prems(1) by (simp_all add: holds_at_append rr_bytes_def [of r] algebra_simps)
  have len: "int ?m + 10 + int ?k + int (length (concat (map rr_bytes rs))) \<le> buf_len"
    using Cons.prems(3) by (simp add: rr_bytes_def [of r])
  have name: "read_domain mem total_len p buf_len 0 [] 0 = Inr (int ?m, dotted (rr_name r))"
    using h(1) ok len Cons.prems(4) by (intro read_domain_roundtrip_aux) simp_all
  have data: "decode_rdata mem total_len (p + ?m + 10) (buf_len - int ?m - 10) (rdata_type ?d) ?k =
      Inr (Some (rdata_value ?d))"
    using h(6) ok len Cons.prems(4) by (intro decode_rdata_roundtrip) simp_all
  note IH = Cons.IH [OF h(7), of "buf_len - int ?m - 10 - int ?k"
      "readlen + int ?m + 10 + int ?k" "acc @ [rr_value r]"]
  show ?case
    using name data IH h(2-5) ok len Cons.prems(2,4)
    by (simp add: Let_def holds_at_rds rr_value_def rr_bytes_def [of r] algebra_simps
        del: length_name_bytes)
qed simp

section \<open>Messages\<close>

record wire_message =
  w_id :: nat
  w_flag :: nat
  w_qd :: "wire_question list"
  w_an :: "wire_rr list"
  w_ns :: "wire_rr list"
  w_ar :: "wire_rr list"

definition header_bytes :: "wire_message \<Rightarrow> byte list" where
  "header_bytes m = be_bytes 2 (w_id m) @ be_bytes 2 (w_flag m) @ be_bytes 2 (length (w_qd m)) @
     be_bytes 2 (length (w_an m)) @ be_bytes 2 (length (w_ns m)) @ be_bytes 2 (length (w_ar m))"

definition message_bytes :: "wire_message \<Rightarrow> byte list" where
  "message_bytes m = header_bytes m @ concat (map question_bytes (w_qd m)) @
     concat (map rr_bytes (w_an m)) @ concat (map rr_bytes (w_ns m)) @ concat (map rr_bytes (w_ar m))"

definition message_ok :: "wire_message \<Rightarrow> bool" where
  "message_ok m \<longleftrightarrow> (\<forall>q \<in> set (w_qd m). question_ok q) \<and>
     (\<forall>r \<in> set (w_an m) \<union> set (w_ns m) \<union> set (w_ar m). rr_ok r) \<and>
     length (w_qd m) < 65536 \<and> length (w_an m) < 65536 \<and> length (w_ns m) < 65536 \<and>
     length (w_ar m) < 65536"

text \<open>What a decoder object holds after the message: the sections are added to.\<close>

definition message_added :: "cdpi_dns \<Rightarrow> wire_message \<Rightarrow> cdpi_dns" where
  "message_added dns m =
     dns\<lparr>m_header := \<lparr>m_hid = u16_of (be_bytes 2 (w_id m)), m_flag = u16_of (be_bytes 2 (w_flag m)),
           m_qd_count = u16_of (be_bytes 2 (length (w_qd m))),
           m_an_count = u16_of (be_bytes 2 (length (w_an m))),
           m_ns_count = u16_of (be_bytes 2 (length (w_ns m))),
           m_ar_count = u16_of (be_bytes 2 (length (w_ar m)))\<rparr>,
         m_quesiton := m_quesiton dns @ map question_value (w_qd m),
         m_answer := m_answer dns @ map rr_value (w_an m),
         m_authority := m_authority dns @ map rr_value (w_ns m),
         m_additional := m_additional dns @ map rr_value (w_ar m)\<rparr>"

lemma length_header_bytes [simp]: "length (header_bytes m) = 12"
  by (simp add: header_bytes_def)

lemma header_of_header_bytes:
  "header_of (header_bytes m) = m_header (message_added dns m)"
  by (simp add: header_of_def header_bytes_def message_added_def)

lemma dns_decode_message:
  assumes ok: "message_ok m" and len: "length (message_bytes m @ junk) < 2 ^ 31"
  shows "dns_decode dns (message_bytes m @ junk @ rest) (int (length (message_bytes m @ junk))) =
     Inr (junk = [], message_added dns m)"
proof -
  let ?mem = "message_bytes m @ junk @ rest" and ?len = "int (length (message_bytes m @ junk))"
  let ?q = "concat (map question_bytes (w_qd m))" and ?a = "concat (map rr_bytes (w_an m))"
  let ?n = "concat (map rr_bytes (w_ns m))" and ?r = "concat (map rr_bytes (w_ar m))"
  let ?p1 = "12 + length ?q" and ?l1 = "?len - 12 - int (length ?q)"
  let ?p2 = "?p1 + length ?a" and ?l2 = "?l1 - int (length ?a)"
  let ?p3 = "?p2 + length ?n" and ?l3 = "?l2 - int (length ?n)"
  have "holds_at ?mem 0 (header_bytes m @ ?q @ ?a @ ?n @ ?r)"
    using holds_at_prefix [of "message_bytes m" "junk @ rest"] by (simp only: message_bytes_def)
  then have h: "holds_at ?mem 0 (header_bytes m)" "holds_at ?mem 12 ?q" "holds_at ?mem ?p1 ?a"
    "holds_at ?mem ?p2 ?n" "holds_at ?mem ?p3 ?r"
    by (simp_all only: holds_at_append length_header_bytes add_0)
  have lens: "?len = 12 + int (length ?q) + int (length ?a) + int (length ?n) + int (length ?r) +
      int (length junk)"
    by (simp only: message_bytes_def length_append of_nat_add length_header_bytes)
  have "?len < 2 ^ 31" using len by (simp only: of_nat_less_numeral_power_cancel_iff)
  then have bounds: "int (length ?q) \<le> ?len - 12" "?len - 12 < 2 ^ 31" "int (length ?a) \<le> ?l1"
    "?l1 < 2 ^ 31" "int (length ?n) \<le> ?l2" "?l2 < 2 ^ 31" "int (length ?r) \<le> ?l3" "?l3 < 2 ^ 31"
    using lens by linarith+
  have oks: "\<forall>q \<in> set (w_qd m). question_ok q" "\<forall>r \<in> set (w_an m). rr_ok r"
    "\<forall>r \<in> set (w_ns m). rr_ok r" "\<forall>r \<in> set (w_ar m). rr_ok r"
    using ok by (auto simp: message_ok_def)
  have hd: "rds ?mem 0 12 = Inr (header_bytes m)" using h(1) by (rule holds_at_rds) simp
  have cnt: "length (w_qd m) < 65536" "length (w_an m) < 65536" "length (w_ns m) < 65536"
    "length (w_ar m) < 65536"
    using ok by (simp_all add: message_ok_def)
  have c12: "\<not> ?len < 12" "?len - 12 - int (length ?q) - int (length ?a) - int (length ?n) -
      int (length ?r) = int (length junk)" using lens by linarith+
  show ?thesis
    unfolding dns_decode_def hd
    using cnt c12 decode_question_roundtrip [OF h(2) oks(1) bounds(1,2)]
      decode_rr_roundtrip [OF h(3) oks(2) bounds(3,4)]
      decode_rr_roundtrip [OF h(4) oks(3) bounds(5,6)]
      decode_rr_roundtrip [OF h(5) oks(4) bounds(7,8)]
    by (simp add: Let_def header_of_header_bytes [of _ dns] message_added_def
        del: length_append length_concat)
qed

text \<open>
  C4: decoding an encoded message gives back its header, questions and records, for every message
  of well-formed labels and record data. It is accepted if and only if no byte follows the last
  record inside of the length that the decoder was given.
\<close>
theorem dns_decode_roundtrip:
  assumes ok: "message_ok m" and len: "length (message_bytes m @ junk) < 2 ^ 31"
  shows "dns_decode dns (message_bytes m @ junk @ rest) (int (length (message_bytes m @ junk))) =
     Inr (junk = [], message_added dns m)"
  by (rule dns_decode_message [OF ok len])

text \<open>A question for an address, an answer to it, and a byte too many.\<close>

lemma dns_decode_roundtrip_witness:
  "let m = \<lparr>w_id = 7, w_flag = 0x8180, w_qd = [Wire_question [[0x61], [0x62, 0x63]] 1 1],
       w_an = [Wire_rr [[0x61]] 1 60 (W_a [127, 0, 0, 1])], w_ns = [], w_ar = []\<rparr>
   in dns_decode empty_dns (message_bytes m @ [0] @ []) (int (length (message_bytes m @ [0]))) =
     Inr (False, message_added empty_dns m)"
  unfolding Let_def
  by (subst dns_decode_roundtrip)
    (simp_all add: message_ok_def question_ok_def rr_ok_def message_bytes_def question_bytes_def
      rr_bytes_def label_bytes_def)

end
