(* ===== verification/Event.thy ===== *)
theory Event
  imports Ident
begin

text \<open>
  The enumerations of \<open>cdpi_stream.hpp\<close>, \<open>cdpi_event.hpp\<close> and \<open>cdpi_proto.hpp\<close> through which the
  components talk: what TCP tells the stream layer, what the listener is told, and the protocols.
\<close>

datatype cdpi_stream_event = STREAM_CREATED | STREAM_DATA_IN | STREAM_DESTROYED | STREAM_ERROR

datatype cdpi_event =
    CDPI_EVENT_STREAM_OPEN
  | CDPI_EVENT_STREAM_CLOSE
  | CDPI_EVENT_PROTOCOL_DETECTED
  | CDPI_EVENT_HTTP_READ_METHOD
  | CDPI_EVENT_HTTP_READ_RESPONSE
  | CDPI_EVENT_HTTP_READ_HEAD
  | CDPI_EVENT_HTTP_READ_BODY
  | CDPI_EVENT_HTTP_READ_TRAILER
  | CDPI_EVENT_HTTP_READ
  | CDPI_EVENT_HTTP_PROXY
  | CDPI_EVENT_SSL_CLIENT_HELLO
  | CDPI_EVENT_SSL_SERVER_HELLO
  | CDPI_EVENT_SSL_CERTIFICATE
  | CDPI_EVENT_SSL_CHANGE_CIPHER_SPEC
  | CDPI_EVENT_DNS
  | CDPI_EVENT_BENCODE

datatype cdpi_proto_type =
    PROTO_HTTP_CLIENT
  | PROTO_HTTP_SERVER
  | PROTO_HTTP_PROXY
  | PROTO_SSL_CLIENT
  | PROTO_SSL_SERVER
  | PROTO_BENCODE
  | PROTO_DNS
  | PROTO_NONE

text \<open>The other direction, as the code writes it in several places: everything but the first is turned
  to the first.\<close>

definition peer_dir :: "cdpi_direction \<Rightarrow> cdpi_direction" where
  "peer_dir d = (if d = FROM_ADDR1 then FROM_ADDR2 else FROM_ADDR1)"

end
