(* ===== verification/Tcp.thy ===== *)
theory Tcp
  imports Bytes Event
begin

text \<open>
  \<open>cdpi_tcp.hpp\<close> and \<open>cdpi_tcp.cpp\<close>: the reassembly of TCP. One definition per critical section (a
  block under \<open>m_mutex\<close>), composed by \<open>input_tcp\<close>, the loop of \<open>run\<close> and \<open>garbage_collector\<close> as
  the source composes them. What \<open>run\<close> tells the stream layer is a list of calls in their order.
\<close>

section \<open>State\<close>

abbreviation (input) TH_FIN :: byte where "TH_FIN \<equiv> 0x01"
abbreviation (input) TH_SYN :: byte where "TH_SYN \<equiv> 0x02"
abbreviation (input) TH_RST :: byte where "TH_RST \<equiv> 0x04"
abbreviation (input) MAX_PACKETS :: int where "MAX_PACKETS \<equiv> 32"
abbreviation (input) TCP_GC_TIMER :: int where "TCP_GC_TIMER \<equiv> 120"

record cdpi_tcp_packet =
  m_bytes :: cdpi_bytes
  m_seq :: "32 word"
  m_nxt_seq :: "32 word"
  m_flags :: byte
  m_data_pos :: int
  m_data_len :: int
  m_read_pos :: int

record cdpi_tcp_uniflow =
  m_packets :: "(32 word, cdpi_tcp_packet) omap"
  m_time :: int
  m_min_seq :: "32 word"
  m_is_gaveup :: bool
  m_is_syn :: bool
  m_is_fin :: bool
  m_is_rm :: bool

text \<open>\<open>m_time\<close> is not initialised by the constructor; \<open>input_store\<close> sets it before it is read.\<close>

definition new_uniflow :: cdpi_tcp_uniflow where
  "new_uniflow = \<lparr>m_packets = [], m_time = 0, m_min_seq = 0, m_is_gaveup = False,
     m_is_syn = False, m_is_fin = False, m_is_rm = False\<rparr>"

record cdpi_tcp_flow =
  m_flow1 :: cdpi_tcp_uniflow
  m_flow2 :: cdpi_tcp_uniflow

definition new_flow :: cdpi_tcp_flow where
  "new_flow = \<lparr>m_flow1 = new_uniflow, m_flow2 = new_uniflow\<rparr>"

text \<open>
  \<open>m_flow\<close> is the ordered map of the connections and \<open>m_events\<close> the queue of the directions with
  something to do, which holds an element at most once.
\<close>

record cdpi_tcp =
  m_flow :: "(cdpi_id, cdpi_tcp_flow) omap"
  m_events :: "cdpi_id_dir list"

type_synonym stream_call = "cdpi_stream_event \<times> cdpi_id_dir \<times> cdpi_bytes"

definition get_uniflow :: "cdpi_direction \<Rightarrow> cdpi_tcp_flow \<Rightarrow> cdpi_tcp_uniflow" where
  "get_uniflow dir f = (if dir = FROM_ADDR1 then m_flow1 f else m_flow2 f)"

definition put_uniflow :: "cdpi_direction \<Rightarrow> cdpi_tcp_uniflow \<Rightarrow> cdpi_tcp_flow \<Rightarrow> cdpi_tcp_flow" where
  "put_uniflow dir u f = (if dir = FROM_ADDR1 then f\<lparr>m_flow1 := u\<rparr> else f\<lparr>m_flow2 := u\<rparr>)"

text \<open>\<open>insert\<close> into the queue: an element that is there already stays where it is.\<close>

definition event_insert :: "cdpi_id_dir \<Rightarrow> cdpi_id_dir list \<Rightarrow> cdpi_id_dir list" where
  "event_insert e es = (if e \<in> set es then es else es @ [e])"

section \<open>Input\<close>

text \<open>
  The packet object that \<open>input_tcp\<close> fills: \<open>mem\<close> is the memory from \<open>buf\<close> on and \<open>l4\<close> the distance
  \<open>l4hdr - buf\<close>. The length of the data may be negative; the sum of the sequence number wraps.
\<close>

definition tcp_packet :: "byte list \<Rightarrow> int \<Rightarrow> nat \<Rightarrow> cdpi_tcp_packet result" where
  "tcp_packet mem len l4 =
     bindR (set_buf mem len) (\<lambda>bytes. bindR (rds mem (l4 + 4) 4) (\<lambda>seq.
       bindR (rd mem (l4 + 13)) (\<lambda>flags. bindR (rd mem (l4 + 12)) (\<lambda>off.
         let data_pos = int l4 + uint (drop_bit 4 off) * 4; data_len = len - data_pos in
         Inr \<lparr>m_bytes = bytes, m_seq = ntohl (u32_of seq),
           m_nxt_seq = ntohl (u32_of seq) + word_of_int data_len, m_flags = flags,
           m_data_pos = data_pos, m_data_len = data_len, m_read_pos = 0\<rparr>))))"

text \<open>
  First critical section: a connection that is not known is opened by a SYN only. The result is
  the flow that \<open>p_tcp_flow\<close> points to, and the state.
\<close>

definition input_lookup ::
    "cdpi_id \<Rightarrow> byte \<Rightarrow> cdpi_tcp \<Rightarrow> (cdpi_tcp_flow \<times> cdpi_tcp) option" where
  "input_lookup i flags s =
     (case map_of (m_flow s) i of
        None \<Rightarrow> if flags AND TH_SYN \<noteq> 0
                then Some (new_flow, s\<lparr>m_flow := omap_insert i new_flow (m_flow s)\<rparr>)
                else None
      | Some f \<Rightarrow> Some (f, s))"

text \<open>
  What the second critical section makes of the direction's state; \<open>None\<close> where it returns early.
  The test of a stale segment is written as in the source: \<open>!\<close> binds tighter than \<open>&\<close>.
\<close>

definition store_packet :: "cdpi_tcp_packet \<Rightarrow> cdpi_tcp_uniflow \<Rightarrow> cdpi_tcp_uniflow option" where
  "store_packet pkt u =
     (let syn = m_flags pkt AND TH_SYN \<noteq> 0; fin = m_flags pkt AND TH_FIN \<noteq> 0;
          rst = m_flags pkt AND TH_RST \<noteq> 0;
          checked =
            (if syn then
               if \<not> m_is_syn u
               then Some (pkt\<lparr>m_nxt_seq := m_seq pkt + 1\<rparr>,
                          u\<lparr>m_min_seq := m_seq pkt, m_is_syn := True\<rparr>)
               else None
             else if (of_bool (m_flags pkt = 0) AND TH_RST) \<noteq> 0 \<and>
                     sint (m_seq pkt) - sint (m_min_seq u) < 0 then None
             else Some (pkt, u))
      in map_option (\<lambda>(pkt', u').
           if syn \<or> fin \<or> m_data_len pkt > 0
           then u'\<lparr>m_packets := omap_insert (m_seq pkt') pkt' (m_packets u')\<rparr>
           else if rst
           then u'\<lparr>m_packets := omap_insert (m_min_seq u') pkt' (m_packets u')\<rparr>
           else u') checked)"

text \<open>
  Second critical section. Only the capturing thread creates flows, so what \<open>p_tcp_flow\<close> points to is
  the entry of the map while there is one. When \<open>run\<close> removed it since the first section, the packet
  goes into the flow \<open>p\<close> that only the pointer keeps alive, and the event is produced all the same.
\<close>

definition input_store ::
    "int \<Rightarrow> cdpi_id \<Rightarrow> cdpi_direction \<Rightarrow> cdpi_tcp_packet \<Rightarrow> cdpi_tcp_flow \<Rightarrow> cdpi_tcp \<Rightarrow> cdpi_tcp" where
  "input_store now i dir pkt p s =
     (if dir \<noteq> FROM_ADDR1 \<and> dir \<noteq> FROM_ADDR2 then s
      else
        let f = (case map_of (m_flow s) i of None \<Rightarrow> p | Some f \<Rightarrow> f) in
        case store_packet pkt (get_uniflow dir f) of
          None \<Rightarrow> s
        | Some u \<Rightarrow>
            let f' = put_uniflow dir (u\<lparr>m_time := now\<rparr>) f in
            s\<lparr>m_flow := (if map_of (m_flow s) i = None then m_flow s else omap_insert i f' (m_flow s)),
              m_events := event_insert (IdDir i dir) (m_events s)\<rparr>)"

definition input_tcp ::
    "int \<Rightarrow> cdpi_id \<Rightarrow> cdpi_direction \<Rightarrow> byte list \<Rightarrow> int \<Rightarrow> nat \<Rightarrow> cdpi_tcp \<Rightarrow> cdpi_tcp result" where
  "input_tcp now i dir mem len l4 s =
     bindR (rd mem (l4 + 13)) (\<lambda>flags.
       case input_lookup i flags s of
         None \<Rightarrow> Inr s
       | Some (p, s1) \<Rightarrow>
           bindR (tcp_packet mem len l4) (\<lambda>pkt. Inr (input_store now i dir pkt p s1)))"

section \<open>Output\<close>

definition num_packets :: "cdpi_id \<Rightarrow> cdpi_direction \<Rightarrow> cdpi_tcp \<Rightarrow> int" where
  "num_packets i dir s =
     (case map_of (m_flow s) i of
        None \<Rightarrow> 0
      | Some f \<Rightarrow> int (length (m_packets (get_uniflow dir f))))"

definition recv_fin :: "cdpi_id \<Rightarrow> cdpi_direction \<Rightarrow> cdpi_tcp \<Rightarrow> bool \<times> cdpi_tcp" where
  "recv_fin i dir s =
     (case map_of (m_flow s) i of
        None \<Rightarrow> (False, s)
      | Some f \<Rightarrow>
          if m_is_fin (get_uniflow (peer_dir dir) f)
          then (True, s\<lparr>m_flow := omap_erase i (m_flow s)\<rparr>)
          else (False, s))"

definition rm_flow :: "cdpi_id \<Rightarrow> cdpi_direction \<Rightarrow> cdpi_tcp \<Rightarrow> cdpi_tcp" where
  "rm_flow i dir s =
     (case map_of (m_flow s) i of
        None \<Rightarrow> s
      | Some f \<Rightarrow> s\<lparr>m_flow := omap_erase i (m_flow s)\<rparr>)"

text \<open>The packet at the lowest missing sequence number, which is taken out.\<close>

definition take_packet :: "cdpi_tcp_uniflow \<Rightarrow> (cdpi_tcp_packet \<times> cdpi_tcp_uniflow) option" where
  "take_packet u =
     (case map_of (m_packets u) (m_min_seq u) of
        None \<Rightarrow> None
      | Some pkt \<Rightarrow>
          let u1 = u\<lparr>m_packets := omap_erase (m_min_seq u) (m_packets u)\<rparr>;
              u2 = (if m_flags pkt AND TH_FIN \<noteq> 0 then u1\<lparr>m_is_fin := True\<rparr> else u1)
          in Some (pkt, u2\<lparr>m_min_seq := m_nxt_seq pkt\<rparr>))"

definition get_packet ::
    "cdpi_id \<Rightarrow> cdpi_direction \<Rightarrow> cdpi_tcp \<Rightarrow> (cdpi_tcp_packet \<times> cdpi_tcp) option" where
  "get_packet i dir s =
     (case map_of (m_flow s) i of
        None \<Rightarrow> None
      | Some f \<Rightarrow>
          map_option (\<lambda>(pkt, u).
            (pkt, s\<lparr>m_flow := omap_insert i (put_uniflow dir u f) (m_flow s)\<rparr>))
            (take_packet (get_uniflow dir f)))"

text \<open>
  The body of the loop over the packets: the direction of the event after it, the state and the calls
  of the stream layer.
\<close>

definition run_packet ::
    "cdpi_id_dir \<Rightarrow> cdpi_tcp_packet \<Rightarrow> cdpi_tcp \<Rightarrow> cdpi_id_dir \<times> cdpi_tcp \<times> stream_call list" where
  "run_packet ev pkt s =
     (let i = m_id ev; ev1 = IdDir i FROM_ADDR1; ev2 = IdDir i FROM_ADDR2 in
      if m_flags pkt AND TH_SYN \<noteq> 0 then (ev, s, [(STREAM_CREATED, ev, empty_bytes)])
      else if m_flags pkt AND TH_FIN \<noteq> 0 then
        (case recv_fin i (m_dir ev) s of
           (True, s') \<Rightarrow> (ev2, s', [(STREAM_DATA_IN, ev, empty_bytes),
             (STREAM_DESTROYED, ev1, empty_bytes), (STREAM_DESTROYED, ev2, empty_bytes)])
         | (False, s') \<Rightarrow> (ev, s', [(STREAM_DATA_IN, ev, empty_bytes)]))
      else if m_flags pkt AND TH_RST \<noteq> 0 then
        (ev2, rm_flow i (m_dir ev) s,
         [(STREAM_DESTROYED, ev1, empty_bytes), (STREAM_DESTROYED, ev2, empty_bytes)])
      else (ev, s, [(STREAM_DATA_IN, ev,
             (m_bytes pkt)\<lparr>m_len := m_data_len pkt, m_pos := m_data_pos pkt\<rparr>)]))"

text \<open>
  The loop. Every round takes a packet out, so it ends (\<open>drain_returns\<close>).
\<close>

partial_function (option) drain ::
    "cdpi_id_dir \<Rightarrow> cdpi_tcp \<Rightarrow> stream_call list \<Rightarrow>
     (cdpi_id_dir \<times> cdpi_tcp \<times> stream_call list) option" where
  "drain ev s calls =
     (case get_packet (m_id ev) (m_dir ev) s of
        None \<Rightarrow> Some (ev, s, calls)
      | Some (pkt, s1) \<Rightarrow>
          (case run_packet ev pkt s1 of
             (ev', s2, cs) \<Rightarrow> drain ev' s2 (calls @ cs)))"

text \<open>
  The first block of \<open>run\<close>, on the event at the front of the queue: \<open>None\<close> is the \<open>continue\<close> for a
  flow that is gone.
\<close>

definition run_collect :: "cdpi_id_dir \<Rightarrow> cdpi_tcp \<Rightarrow> (cdpi_id_dir \<times> cdpi_tcp \<times> stream_call list) option" where
  "run_collect ev s =
     (let i = m_id ev; ev1 = IdDir i FROM_ADDR1; ev2 = IdDir i FROM_ADDR2 in
      case map_of (m_flow s) i of
        None \<Rightarrow> None
      | Some f \<Rightarrow>
          if m_dir ev = FROM_ADDR1 \<and> m_is_rm (m_flow1 f) \<or>
             m_dir ev = FROM_ADDR2 \<and> m_is_rm (m_flow2 f)
          then Some (ev2, rm_flow i FROM_ADDR2 s,
            [(STREAM_ERROR, ev1, empty_bytes), (STREAM_ERROR, ev2, empty_bytes)])
          else Some (ev, s, []))"

text \<open>The last block: a direction that still holds too many packets ends the connection.\<close>

definition run_limit :: "cdpi_id_dir \<Rightarrow> cdpi_tcp \<Rightarrow> cdpi_tcp \<times> stream_call list" where
  "run_limit ev s =
     (let i = m_id ev; ev1 = IdDir i FROM_ADDR1; ev2 = IdDir i FROM_ADDR2 in
      if num_packets i (m_dir ev) s > MAX_PACKETS
      then (rm_flow i FROM_ADDR2 s,
        [(STREAM_ERROR, ev1, empty_bytes), (STREAM_ERROR, ev2, empty_bytes)])
      else (s, []))"

text \<open>
  One round of the loop of \<open>run\<close>. With an empty queue the thread waits: the state does not change.
\<close>

definition run_event :: "cdpi_tcp \<Rightarrow> (cdpi_tcp \<times> stream_call list) option" where
  "run_event s =
     (case m_events s of
        [] \<Rightarrow> Some (s, [])
      | ev # es \<Rightarrow>
          (let s1 = s\<lparr>m_events := es\<rparr> in
           case run_collect ev s1 of
             None \<Rightarrow> Some (s1, [])
           | Some (ev', s2, calls) \<Rightarrow>
               map_option (\<lambda>(ev'', s3, calls').
                 let (s4, calls'') = run_limit ev'' s3 in (s4, calls' @ calls''))
                 (drain ev' s2 calls)))"

section \<open>Garbage collection\<close>

text \<open>
  What the collector does with one flow: half-opened and half-closed connections that were silent
  for more than \<open>TCP_GC_TIMER\<close> seconds are marked, and an event is queued for them.
\<close>

definition gc_flow :: "int \<Rightarrow> cdpi_tcp_flow \<Rightarrow> (cdpi_direction \<times> cdpi_tcp_flow) option" where
  "gc_flow now f =
     (let f1 = m_flow1 f; f2 = m_flow2 f in
      if (m_is_syn f1 \<and> \<not> m_is_syn f2 \<or> m_is_fin f1 \<and> \<not> m_is_fin f2) \<and>
         now - m_time f1 > TCP_GC_TIMER
      then Some (FROM_ADDR1, f\<lparr>m_flow1 := f1\<lparr>m_is_rm := True\<rparr>\<rparr>)
      else if (\<not> m_is_syn f1 \<and> m_is_syn f2 \<or> \<not> m_is_fin f1 \<and> m_is_fin f2) \<and>
         now - m_time f2 > TCP_GC_TIMER
      then Some (FROM_ADDR2, f\<lparr>m_flow2 := f2\<lparr>m_is_rm := True\<rparr>\<rparr>)
      else None)"

fun gc_flows ::
    "int \<Rightarrow> (cdpi_id, cdpi_tcp_flow) omap \<Rightarrow> cdpi_id_dir list \<Rightarrow>
     (cdpi_id, cdpi_tcp_flow) omap \<times> cdpi_id_dir list" where
  "gc_flows now [] es = ([], es)"
| "gc_flows now ((i, f) # m) es =
     (case gc_flow now f of
        None \<Rightarrow> (case gc_flows now m es of (m', es') \<Rightarrow> ((i, f) # m', es'))
      | Some (dir, f') \<Rightarrow>
          (case gc_flows now m (event_insert (IdDir i dir) es) of (m', es') \<Rightarrow> ((i, f') # m', es')))"

definition garbage_collector :: "int \<Rightarrow> cdpi_tcp \<Rightarrow> cdpi_tcp" where
  "garbage_collector now s =
     (case gc_flows now (m_flow s) (m_events s) of (m, es) \<Rightarrow> s\<lparr>m_flow := m, m_events := es\<rparr>)"

section \<open>The invariant\<close>

definition wf_uniflow :: "cdpi_tcp_uniflow \<Rightarrow> bool" where
  "wf_uniflow u \<longleftrightarrow> omap_ok (m_packets u)"

definition wf_flow :: "cdpi_tcp_flow \<Rightarrow> bool" where
  "wf_flow f \<longleftrightarrow> wf_uniflow (m_flow1 f) \<and> wf_uniflow (m_flow2 f)"

text \<open>
  The maps are ordered, no direction is queued twice and only real directions are queued.
\<close>

definition wf_events :: "cdpi_id_dir list \<Rightarrow> bool" where
  "wf_events es \<longleftrightarrow> distinct es \<and> (\<forall>e \<in> set es. m_dir e \<in> {FROM_ADDR1, FROM_ADDR2})"

definition wf_tcp :: "cdpi_tcp \<Rightarrow> bool" where
  "wf_tcp s \<longleftrightarrow> omap_ok (m_flow s) \<and> (\<forall>(i, f) \<in> set (m_flow s). wf_flow f) \<and> wf_events (m_events s)"

lemma wf_events_insert:
  "wf_events es \<Longrightarrow> dir \<in> {FROM_ADDR1, FROM_ADDR2} \<Longrightarrow> wf_events (event_insert (IdDir i dir) es)"
  by (auto simp: wf_events_def event_insert_def)

lemma wf_events_Nil [simp]: "wf_events []"
  by (simp add: wf_events_def)

lemma wf_events_Cons: "wf_events (e # es) \<Longrightarrow> wf_events es"
  by (simp add: wf_events_def)

lemma wf_tcp_find: "wf_tcp s \<Longrightarrow> map_of (m_flow s) i = Some f \<Longrightarrow> wf_flow f"
  by (auto simp: wf_tcp_def dest: map_of_SomeD)

lemma wf_tcp_insert: "wf_tcp s \<Longrightarrow> wf_flow f \<Longrightarrow> wf_tcp (s\<lparr>m_flow := omap_insert i f (m_flow s)\<rparr>)"
  by (auto simp: wf_tcp_def dest: omap_insert_mem)

lemma wf_tcp_erase: "wf_tcp s \<Longrightarrow> wf_tcp (s\<lparr>m_flow := omap_erase i (m_flow s)\<rparr>)"
  by (auto simp: wf_tcp_def dest: omap_erase_mem)

lemma wf_tcp_event:
  "wf_tcp s \<Longrightarrow> dir \<in> {FROM_ADDR1, FROM_ADDR2} \<Longrightarrow>
     wf_tcp (s\<lparr>m_events := event_insert (IdDir i dir) (m_events s)\<rparr>)"
  by (simp add: wf_tcp_def wf_events_insert)

lemma wf_uniflow_get [simp]: "wf_flow f \<Longrightarrow> wf_uniflow (get_uniflow dir f)"
  and wf_flow_put [simp]: "wf_flow f \<Longrightarrow> wf_uniflow u \<Longrightarrow> wf_flow (put_uniflow dir u f)"
  and wf_flow_new [simp]: "wf_flow new_flow"
  by (simp_all add: wf_flow_def get_uniflow_def put_uniflow_def new_flow_def new_uniflow_def
      wf_uniflow_def)

lemma get_put_uniflow [simp]: "get_uniflow dir (put_uniflow dir u f) = u"
  by (simp add: get_uniflow_def put_uniflow_def)

lemma get_put_uniflow_peer [simp]:
  "(dir = FROM_ADDR1) \<noteq> (dir' = FROM_ADDR1) \<Longrightarrow> get_uniflow dir (put_uniflow dir' u f) = get_uniflow dir f"
  by (auto simp: get_uniflow_def put_uniflow_def)

text \<open>The operations on one direction.\<close>

lemma stale_test [simp]: "(of_bool b AND TH_RST) = 0"
  by (cases b) simp_all

lemma store_packet_wf: "store_packet pkt u = Some u' \<Longrightarrow> wf_uniflow u \<Longrightarrow> wf_uniflow u'"
  by (auto simp: store_packet_def wf_uniflow_def Let_def split: if_splits)

lemma take_packet_wf: "take_packet u = Some (pkt, u') \<Longrightarrow> wf_uniflow u \<Longrightarrow> wf_uniflow u'"
  by (auto simp: take_packet_def wf_uniflow_def Let_def split: option.splits if_splits)

lemma take_packet_less:
  "take_packet u = Some (pkt, u') \<Longrightarrow> length (m_packets u') < length (m_packets u)"
  by (auto simp: take_packet_def Let_def length_omap_erase_less split: option.splits if_splits)

text \<open>The operations on the whole state.\<close>

lemma input_lookup_wf:
  "input_lookup i flags s = Some (p, s') \<Longrightarrow> wf_tcp s \<Longrightarrow> wf_tcp s'"
  "input_lookup i flags s = Some (p, s') \<Longrightarrow> wf_tcp s \<Longrightarrow> wf_flow p"
  by (auto simp: input_lookup_def intro: wf_tcp_insert wf_tcp_find split: option.splits if_splits)

lemma input_store_wf:
  assumes "wf_tcp s" "wf_flow p"
  shows "wf_tcp (input_store now i dir pkt p s)"
proof (cases "dir \<noteq> FROM_ADDR1 \<and> dir \<noteq> FROM_ADDR2")
  case True
  with assms show ?thesis by (simp add: input_store_def)
next
  case False
  define f where "f = (case map_of (m_flow s) i of None \<Rightarrow> p | Some f \<Rightarrow> f)"
  have f: "wf_flow f" using assms by (auto simp: f_def intro: wf_tcp_find split: option.splits)
  show ?thesis
  proof (cases "store_packet pkt (get_uniflow dir f)")
    case None
    with assms False show ?thesis by (auto simp: input_store_def f_def Let_def)
  next
    case (Some u)
    with f have "wf_uniflow u" by (auto intro: store_packet_wf)
    then have "wf_flow (put_uniflow dir (u\<lparr>m_time := now\<rparr>) f)"
      using f by (intro wf_flow_put) (simp_all add: wf_uniflow_def)
    from wf_tcp_event [OF assms(1), of dir i] wf_tcp_event [OF wf_tcp_insert [OF assms(1) this], of dir i]
    show ?thesis using False Some by (auto simp: input_store_def f_def [symmetric] Let_def)
  qed
qed

lemma input_tcp_wf:
  "input_tcp now i dir mem len l4 s = Inr s' \<Longrightarrow> wf_tcp s \<Longrightarrow> wf_tcp s'"
  by (auto simp: input_tcp_def bindR_eq_Inr input_store_wf input_lookup_wf split: option.splits)

lemma recv_fin_wf: "recv_fin i dir s = (b, s') \<Longrightarrow> wf_tcp s \<Longrightarrow> wf_tcp s'"
  by (auto simp: recv_fin_def intro: wf_tcp_erase split: option.splits if_splits)

lemma rm_flow_wf: "wf_tcp s \<Longrightarrow> wf_tcp (rm_flow i dir s)"
  by (auto simp: rm_flow_def intro: wf_tcp_erase split: option.splits)

lemma get_packet_wf: "get_packet i dir s = Some (pkt, s') \<Longrightarrow> wf_tcp s \<Longrightarrow> wf_tcp s'"
  by (auto simp: get_packet_def
      intro!: wf_tcp_insert wf_flow_put intro: wf_tcp_find take_packet_wf wf_uniflow_get
      split: option.splits)

lemma run_packet_wf: "run_packet ev pkt s = (ev', s', cs) \<Longrightarrow> wf_tcp s \<Longrightarrow> wf_tcp s'"
  by (auto simp: run_packet_def Let_def intro: rm_flow_wf recv_fin_wf split: if_splits prod.splits bool.splits)

section \<open>The loop ends\<close>

text \<open>The packets that the state holds, which every round of the loop makes fewer.\<close>

definition flow_packets :: "cdpi_tcp_flow \<Rightarrow> nat" where
  "flow_packets f = length (m_packets (m_flow1 f)) + length (m_packets (m_flow2 f))"

definition stored :: "cdpi_tcp \<Rightarrow> nat" where
  "stored s = (\<Sum>(i, f) \<leftarrow> m_flow s. flow_packets f)"

lemma get_packet_stored:
  assumes "wf_tcp s" "get_packet i dir s = Some (pkt, s')"
  shows "stored s' < stored s"
proof -
  from assms(2) obtain f u where f: "map_of (m_flow s) i = Some f"
    and u: "take_packet (get_uniflow dir f) = Some (pkt, u)"
    and s': "s' = s\<lparr>m_flow := omap_insert i (put_uniflow dir u f) (m_flow s)\<rparr>"
    by (auto simp: get_packet_def split: option.splits)
  have "flow_packets (put_uniflow dir u f) < flow_packets f"
    using take_packet_less [OF u] by (auto simp: flow_packets_def put_uniflow_def get_uniflow_def split: if_splits)
  with sum_omap_insert [of "m_flow s" i f flow_packets "put_uniflow dir u f"] f assms(1)
  show ?thesis by (simp add: stored_def s' wf_tcp_def)
qed

lemma stored_erase: "stored (s\<lparr>m_flow := omap_erase i (m_flow s)\<rparr>) \<le> stored s"
  by (simp add: stored_def sum_omap_erase)

lemma run_packet_stored: "run_packet ev pkt s = (ev', s', cs) \<Longrightarrow> stored s' \<le> stored s"
  by (auto simp: run_packet_def recv_fin_def rm_flow_def Let_def stored_erase
      split: if_splits prod.splits bool.splits option.splits)

text \<open>The loop of \<open>run\<close> over the packets ends, whatever was stored, and keeps the invariant.\<close>

lemma drain_returns:
  "wf_tcp s \<Longrightarrow> \<exists>ev' s' cs. drain ev s calls = Some (ev', s', calls @ cs) \<and> wf_tcp s'"
proof (induction "stored s" arbitrary: ev s calls rule: less_induct)
  case less
  show ?case
  proof (cases "get_packet (m_id ev) (m_dir ev) s")
    case None
    with less.prems show ?thesis by (subst drain.simps) auto
  next
    case (Some p)
    obtain pkt s1 where p: "p = (pkt, s1)" by fastforce
    obtain ev2 s2 cs where r: "run_packet ev pkt s1 = (ev2, s2, cs)" by (metis prod_cases3)
    have "stored s1 < stored s" "wf_tcp s1"
      using get_packet_stored [OF less.prems] get_packet_wf Some p less.prems by auto
    with run_packet_stored [OF r] run_packet_wf [OF r] have "stored s2 < stored s" "wf_tcp s2" by auto
    from less.hyps [OF this, of ev2 "calls @ cs"] obtain ev' s' cs' where
      "drain ev2 s2 (calls @ cs) = Some (ev', s', (calls @ cs) @ cs')" "wf_tcp s'" by blast
    then have "drain ev s calls = Some (ev', s', calls @ (cs @ cs'))"
      using Some p r by (subst drain.simps) simp
    with \<open>wf_tcp s'\<close> show ?thesis by blast
  qed
qed

lemma run_collect_wf: "run_collect ev s = Some (ev', s', cs) \<Longrightarrow> wf_tcp s \<Longrightarrow> wf_tcp s'"
  by (auto simp: run_collect_def Let_def intro: rm_flow_wf split: option.splits if_splits)

lemma run_limit_wf: "wf_tcp s \<Longrightarrow> wf_tcp (fst (run_limit ev s))"
  by (simp add: run_limit_def Let_def rm_flow_wf)

lemma gc_flow_wf: "gc_flow now f = Some (dir, f') \<Longrightarrow> wf_flow f \<Longrightarrow> wf_flow f' \<and> dir \<in> {FROM_ADDR1, FROM_ADDR2}"
  by (auto simp: gc_flow_def wf_flow_def wf_uniflow_def Let_def split: if_splits)

lemma gc_flows_wf:
  "gc_flows now m es = (m', es') \<Longrightarrow> \<forall>(i, f) \<in> set m. wf_flow f \<Longrightarrow>
     map fst m' = map fst m \<and> (\<forall>(i, f) \<in> set m'. wf_flow f) \<and> (wf_events es \<longrightarrow> wf_events es')"
proof (induction now m es arbitrary: m' es' rule: gc_flows.induct)
  case (2 now i f m es)
  have m: "\<forall>(i, f) \<in> set m. wf_flow f" using 2(4) by simp
  show ?case
  proof (cases "gc_flow now f")
    case None
    obtain m1 es1 where r: "gc_flows now m es = (m1, es1)" by fastforce
    from 2(1) [OF None r m] r None 2(3,4) show ?thesis by auto
  next
    case (Some p)
    obtain dir f' where p: "p = (dir, f')" by fastforce
    obtain m1 es1 where r: "gc_flows now m (event_insert (IdDir i dir) es) = (m1, es1)" by fastforce
    have f': "wf_flow f'" "dir \<in> {FROM_ADDR1, FROM_ADDR2}"
      using gc_flow_wf [of now f dir f'] Some p 2(4) by auto
    have "m' = (i, f') # m1" "es' = es1" using 2(3) Some p r by simp_all
    with 2(2) [OF Some p [symmetric] r m] f' wf_events_insert [OF _ f'(2)] show ?thesis by simp
  qed
qed simp

lemma garbage_collector_wf: "wf_tcp s \<Longrightarrow> wf_tcp (garbage_collector now s)"
  using gc_flows_wf [of now "m_flow s" "m_events s"]
  by (auto simp: garbage_collector_def wf_tcp_def omap_ok_def split: prod.splits)

section \<open>The threads\<close>

text \<open>
  \<open>run\<close> once more, cut where it releases the mutex: the state between two critical sections is where
  the other threads may come in. \<open>Idle\<close> waits for an event.
\<close>

datatype run_pc =
    Idle
  | Collected cdpi_id_dir
  | Draining cdpi_id_dir
  | Closing cdpi_id_dir
  | Resetting cdpi_id_dir
  | Limiting cdpi_id_dir
  | Failing cdpi_id_dir

fun run_section :: "run_pc \<Rightarrow> cdpi_tcp \<Rightarrow> run_pc \<times> cdpi_tcp \<times> stream_call list" where
  "run_section Idle s =
     (case m_events s of
        [] \<Rightarrow> (Idle, s, [])
      | ev # es \<Rightarrow>
          let s1 = s\<lparr>m_events := es\<rparr>; i = m_id ev in
          (case map_of (m_flow s1) i of
             None \<Rightarrow> (Idle, s1, [])
           | Some f \<Rightarrow>
               if m_dir ev = FROM_ADDR1 \<and> m_is_rm (m_flow1 f) \<or>
                  m_dir ev = FROM_ADDR2 \<and> m_is_rm (m_flow2 f)
               then (Collected (IdDir i FROM_ADDR2), s1,
                 [(STREAM_ERROR, IdDir i FROM_ADDR1, empty_bytes),
                  (STREAM_ERROR, IdDir i FROM_ADDR2, empty_bytes)])
               else (Draining ev, s1, [])))"
| "run_section (Collected ev) s = (Draining ev, rm_flow (m_id ev) (m_dir ev) s, [])"
| "run_section (Draining ev) s =
     (case get_packet (m_id ev) (m_dir ev) s of
        None \<Rightarrow> (Limiting ev, s, [])
      | Some (pkt, s1) \<Rightarrow>
          if m_flags pkt AND TH_SYN \<noteq> 0 then (Draining ev, s1, [(STREAM_CREATED, ev, empty_bytes)])
          else if m_flags pkt AND TH_FIN \<noteq> 0 then (Closing ev, s1, [(STREAM_DATA_IN, ev, empty_bytes)])
          else if m_flags pkt AND TH_RST \<noteq> 0 then (Resetting ev, s1, [])
          else (Draining ev, s1, [(STREAM_DATA_IN, ev,
            (m_bytes pkt)\<lparr>m_len := m_data_len pkt, m_pos := m_data_pos pkt\<rparr>)]))"
| "run_section (Closing ev) s =
     (case recv_fin (m_id ev) (m_dir ev) s of
        (True, s1) \<Rightarrow> (Draining (IdDir (m_id ev) FROM_ADDR2), s1,
          [(STREAM_DESTROYED, IdDir (m_id ev) FROM_ADDR1, empty_bytes),
           (STREAM_DESTROYED, IdDir (m_id ev) FROM_ADDR2, empty_bytes)])
      | (False, s1) \<Rightarrow> (Draining ev, s1, []))"
| "run_section (Resetting ev) s =
     (Draining (IdDir (m_id ev) FROM_ADDR2), rm_flow (m_id ev) (m_dir ev) s,
      [(STREAM_DESTROYED, IdDir (m_id ev) FROM_ADDR1, empty_bytes),
       (STREAM_DESTROYED, IdDir (m_id ev) FROM_ADDR2, empty_bytes)])"
| "run_section (Limiting ev) s =
     (if num_packets (m_id ev) (m_dir ev) s > MAX_PACKETS
      then (Failing (IdDir (m_id ev) FROM_ADDR2), s,
        [(STREAM_ERROR, IdDir (m_id ev) FROM_ADDR1, empty_bytes),
         (STREAM_ERROR, IdDir (m_id ev) FROM_ADDR2, empty_bytes)])
      else (Idle, s, []))"
| "run_section (Failing ev) s = (Idle, rm_flow (m_id ev) (m_dir ev) s, [])"

text \<open>
  The three threads, one critical section at a time. The capturing thread keeps what it looked up
  in \<open>pend\<close> between its two sections.
\<close>

record tcp_system =
  tcp :: cdpi_tcp
  pend :: "(cdpi_id \<times> cdpi_direction \<times> cdpi_tcp_packet \<times> cdpi_tcp_flow) option"
  pc :: run_pc
  calls :: "stream_call list"

inductive tcp_step :: "tcp_system \<Rightarrow> tcp_system \<Rightarrow> bool" where
  lookup: "pend t = None \<Longrightarrow> tcp_packet mem len l4 = Inr pkt \<Longrightarrow>
     input_lookup i (m_flags pkt) (tcp t) = Some (p, s) \<Longrightarrow>
     tcp_step t (t\<lparr>tcp := s, pend := Some (i, dir, pkt, p)\<rparr>)"
| store: "pend t = Some (i, dir, pkt, p) \<Longrightarrow>
     tcp_step t (t\<lparr>tcp := input_store now i dir pkt p (tcp t), pend := None\<rparr>)"
| run: "run_section (pc t) (tcp t) = (pc', s, cs) \<Longrightarrow>
     tcp_step t (t\<lparr>tcp := s, pc := pc', calls := calls t @ cs\<rparr>)"
| collect: "tcp_step t (t\<lparr>tcp := garbage_collector now (tcp t)\<rparr>)"

inductive_cases tcp_stepE: "tcp_step t t'"

definition tcp_init :: tcp_system where
  "tcp_init = \<lparr>tcp = \<lparr>m_flow = [], m_events = []\<rparr>, pend = None, pc = Idle, calls = []\<rparr>"

definition wf_system :: "tcp_system \<Rightarrow> bool" where
  "wf_system t \<longleftrightarrow> wf_tcp (tcp t) \<and> (\<forall>(i, dir, pkt, p) \<in> set_option (pend t). wf_flow p)"

lemma run_section_wf: "run_section p s = (p', s', cs) \<Longrightarrow> wf_tcp s \<Longrightarrow> wf_tcp s'"
proof (cases p)
  case Idle
  assume "run_section p s = (p', s', cs)" "wf_tcp s"
  then show ?thesis
    unfolding Idle
    by (auto simp: wf_tcp_def Let_def intro: wf_events_Cons split: list.splits option.splits if_splits)
qed (auto intro: rm_flow_wf get_packet_wf recv_fin_wf
    split: option.splits if_splits prod.splits bool.splits)

lemma wf_system_step: "tcp_step t t' \<Longrightarrow> wf_system t \<Longrightarrow> wf_system t'"
  by (induction rule: tcp_step.induct)
    (auto simp: wf_system_def input_store_wf garbage_collector_wf
      dest: input_lookup_wf run_section_wf)

lemma wf_system_init: "wf_system tcp_init"
  by (simp add: tcp_init_def wf_system_def wf_tcp_def)

lemma wf_system_reachable: "tcp_step\<^sup>*\<^sup>* tcp_init t \<Longrightarrow> wf_system t"
  by (induction rule: rtranclp_induct) (auto intro: wf_system_step wf_system_init)

text \<open>The sections of one round, run without an interruption, are \<open>run_event\<close>.\<close>

definition section_step ::
    "run_pc \<times> cdpi_tcp \<times> stream_call list \<Rightarrow> run_pc \<times> cdpi_tcp \<times> stream_call list \<Rightarrow> bool" where
  "section_step a b \<longleftrightarrow> (case a of (p, s, cs) \<Rightarrow>
     (case run_section p s of (p', s', cs') \<Rightarrow> b = (p', s', cs @ cs')))"

lemma run_packet_sections:
  assumes "get_packet (m_id ev) (m_dir ev) s = Some (pkt, s1)" "run_packet ev pkt s1 = (ev', s2, cs)"
  shows "section_step\<^sup>*\<^sup>* (Draining ev, s, acc) (Draining ev', s2, acc @ cs)"
proof -
  have two: "section_step\<^sup>*\<^sup>* a c" if "section_step a b" "section_step b c" for a b c
    using that by (meson converse_rtranclp_into_rtranclp r_into_rtranclp)
  consider (syn) "m_flags pkt AND TH_SYN \<noteq> 0"
    | (fin) "m_flags pkt AND TH_SYN = 0" "m_flags pkt AND TH_FIN \<noteq> 0"
    | (rst) "m_flags pkt AND TH_SYN = 0" "m_flags pkt AND TH_FIN = 0" "m_flags pkt AND TH_RST \<noteq> 0"
    | (data) "m_flags pkt AND TH_SYN = 0" "m_flags pkt AND TH_FIN = 0" "m_flags pkt AND TH_RST = 0"
    by blast
  then show ?thesis
  proof cases
    case fin
    obtain b s3 where f: "recv_fin (m_id ev) (m_dir ev) s1 = (b, s3)" by fastforce
    show ?thesis
      by (rule two [of _ "(Closing ev, s1, acc @ [(STREAM_DATA_IN, ev, empty_bytes)])"])
        (use assms fin f in \<open>auto simp: section_step_def run_packet_def Let_def split: bool.splits\<close>)
  next
    case rst
    show ?thesis
      by (rule two [of _ "(Resetting ev, s1, acc)"])
        (use assms rst in \<open>auto simp: section_step_def run_packet_def Let_def\<close>)
  qed (use assms in \<open>auto simp: section_step_def run_packet_def Let_def\<close>)
qed

lemma drain_sections:
  "wf_tcp s \<Longrightarrow> drain ev s acc = Some (ev', s', acc') \<Longrightarrow>
     section_step\<^sup>*\<^sup>* (Draining ev, s, acc) (Limiting ev', s', acc')"
proof (induction "stored s" arbitrary: ev s acc rule: less_induct)
  case less
  show ?case
  proof (cases "get_packet (m_id ev) (m_dir ev) s")
    case None
    with less.prems(2) have "ev' = ev" "s' = s" "acc' = acc" by (subst (asm) drain.simps, simp)+
    with None show ?thesis by (auto simp: section_step_def)
  next
    case (Some p)
    obtain pkt s1 where p: "p = (pkt, s1)" by fastforce
    obtain ev2 s2 cs where r: "run_packet ev pkt s1 = (ev2, s2, cs)" by (metis prod_cases3)
    have "stored s1 < stored s" "wf_tcp s1"
      using get_packet_stored [OF less.prems(1)] get_packet_wf Some p less.prems(1) by auto
    with run_packet_stored [OF r] run_packet_wf [OF r] have s2: "stored s2 < stored s" "wf_tcp s2"
      by auto
    have "drain ev2 s2 (acc @ cs) = Some (ev', s', acc')"
      using less.prems(2) Some p r by (subst (asm) drain.simps) simp
    from less.hyps [OF s2 this] have "section_step\<^sup>*\<^sup>* (Draining ev2, s2, acc @ cs) (Limiting ev', s', acc')" .
    moreover have "section_step\<^sup>*\<^sup>* (Draining ev, s, acc) (Draining ev2, s2, acc @ cs)"
      using Some p by (intro run_packet_sections [OF _ r]) simp
    ultimately show ?thesis by simp
  qed
qed

lemma collect_sections:
  assumes "m_events s = ev # es" "run_collect ev (s\<lparr>m_events := es\<rparr>) = Some (ev', s', cs)"
  shows "section_step\<^sup>*\<^sup>* (Idle, s, []) (Draining ev', s', cs)"
proof -
  let ?s1 = "s\<lparr>m_events := es\<rparr>"
  obtain f where f: "map_of (m_flow s) (m_id ev) = Some f"
    using assms(2) by (auto simp: run_collect_def Let_def split: option.splits)
  show ?thesis
  proof (cases "m_dir ev = FROM_ADDR1 \<and> m_is_rm (m_flow1 f) \<or> m_dir ev = FROM_ADDR2 \<and> m_is_rm (m_flow2 f)")
    case True
    then have "section_step (Idle, s, []) (Collected ev', ?s1, cs)"
      "section_step (Collected ev', ?s1, cs) (Draining ev', s', cs)"
      using assms f by (auto simp: section_step_def run_collect_def Let_def)
    then show ?thesis by (meson converse_rtranclp_into_rtranclp r_into_rtranclp)
  next
    case False
    then have "section_step (Idle, s, []) (Draining ev', s', cs)"
      using assms f by (auto simp: section_step_def run_collect_def Let_def)
    then show ?thesis by blast
  qed
qed

lemma limit_sections:
  assumes "run_limit ev s = (s', cs)"
  shows "section_step\<^sup>*\<^sup>* (Limiting ev, s, acc) (Idle, s', acc @ cs)"
proof (cases "num_packets (m_id ev) (m_dir ev) s > MAX_PACKETS")
  case True
  then have "section_step (Limiting ev, s, acc) (Failing (IdDir (m_id ev) FROM_ADDR2), s, acc @ cs)"
    "section_step (Failing (IdDir (m_id ev) FROM_ADDR2), s, acc @ cs) (Idle, s', acc @ cs)"
    using assms by (auto simp: section_step_def run_limit_def Let_def)
  then show ?thesis by (meson converse_rtranclp_into_rtranclp r_into_rtranclp)
next
  case False
  then have "section_step (Limiting ev, s, acc) (Idle, s', acc @ cs)"
    using assms by (auto simp: section_step_def run_limit_def Let_def)
  then show ?thesis by blast
qed

text \<open>
  C15: the loop of \<open>run\<close> always comes back to its queue: one round, from an event to the next wait,
  returns for every well-formed state, keeps it well-formed, and is what the sequence of its
  critical sections does when no other thread comes in between.
\<close>
theorem run_event_returns:
  assumes "wf_tcp s"
  shows "\<exists>s' cs. run_event s = Some (s', cs) \<and> wf_tcp s' \<and>
    section_step\<^sup>*\<^sup>* (Idle, s, []) (Idle, s', cs)"
proof (cases "m_events s")
  case Nil
  with assms show ?thesis by (simp add: run_event_def)
next
  case (Cons ev es)
  let ?s1 = "s\<lparr>m_events := es\<rparr>"
  have wf: "wf_tcp ?s1" using assms Cons by (auto simp: wf_tcp_def intro: wf_events_Cons)
  show ?thesis
  proof (cases "run_collect ev ?s1")
    case None
    then have "section_step (Idle, s, []) (Idle, ?s1, [])"
      using Cons by (auto simp: section_step_def run_collect_def Let_def split: option.splits if_splits)
    with None wf Cons show ?thesis by (auto simp: run_event_def)
  next
    case (Some r)
    obtain ev2 s2 cs where r: "r = (ev2, s2, cs)" by (metis prod_cases3)
    with Some wf have s2: "wf_tcp s2" by (auto intro: run_collect_wf)
    obtain ev3 s3 cs3 where d: "drain ev2 s2 cs = Some (ev3, s3, cs3)" "wf_tcp s3"
      using drain_returns [OF s2, of ev2 cs] by auto
    obtain s4 cs4 where l: "run_limit ev3 s3 = (s4, cs4)" by fastforce
    have "run_event s = Some (s4, cs3 @ cs4)"
      using Cons Some r d l by (simp add: run_event_def)
    moreover have "section_step\<^sup>*\<^sup>* (Idle, s, []) (Idle, s4, cs3 @ cs4)"
      using collect_sections [OF Cons] Some r drain_sections [OF s2 d(1)] limit_sections [OF l]
      by (metis (no_types, lifting) rtranclp_trans)
    moreover have "wf_tcp s4" using run_limit_wf [OF d(2), of ev3] l by simp
    ultimately show ?thesis by blast
  qed
qed

definition idle_tcp :: cdpi_tcp where
  "idle_tcp = \<lparr>m_flow = [], m_events = []\<rparr>"

lemma wf_idle_tcp [simp]: "wf_tcp idle_tcp"
  by (simp add: wf_tcp_def idle_tcp_def)

lemma run_event_returns_witness:
  "\<exists>s' cs. run_event (idle_tcp\<lparr>m_events := [IdDir (Id peer_init peer_init 0 6) FROM_ADDR1]\<rparr>) =
     Some (s', cs) \<and> wf_tcp s'"
proof -
  have "wf_tcp (idle_tcp\<lparr>m_events := [IdDir (Id peer_init peer_init 0 6) FROM_ADDR1]\<rparr>)"
    by (simp add: wf_tcp_def idle_tcp_def wf_events_def)
  from run_event_returns [OF this] show ?thesis by blast
qed



end
