(* ===== verification/Tcp_Reassembly.thy ===== *)
theory Tcp_Reassembly
  imports Tcp
begin

text \<open>
  What the reassembly of \<open>cdpi_tcp.cpp\<close> promises: the segments of a direction reach the stream layer in
  the order of the stream, in whatever order they came in, and how connections open and close.
\<close>

section \<open>A stream cut into segments\<close>

text \<open>A segment with data and without a flag that opens or closes.\<close>

definition data_segment :: "cdpi_tcp_packet \<Rightarrow> bool" where
  "data_segment p \<longleftrightarrow> m_flags p AND TH_SYN = 0 \<and> m_flags p AND TH_FIN = 0 \<and>
     m_flags p AND TH_RST = 0 \<and> 0 < m_data_len p \<and>
     m_nxt_seq p = m_seq p + word_of_int (m_data_len p)"

fun chain :: "32 word \<Rightarrow> cdpi_tcp_packet list \<Rightarrow> bool" where
  "chain isn [] \<longleftrightarrow> True"
| "chain isn (p # ps) \<longleftrightarrow> data_segment p \<and> m_seq p = isn \<and> chain (m_nxt_seq p) ps"

definition total_len :: "cdpi_tcp_packet list \<Rightarrow> int" where
  "total_len ps = (\<Sum>p \<leftarrow> ps. m_data_len p)"

lemma total_len_simps [simp]:
  "total_len [] = 0" "total_len (p # ps) = m_data_len p + total_len ps"
  "total_len (ps @ qs) = total_len ps + total_len qs"
  by (simp_all add: total_len_def)

lemma chain_append:
  "chain isn (ps @ qs) \<longleftrightarrow> chain isn ps \<and> chain (isn + word_of_int (total_len ps)) qs"
proof (induction ps arbitrary: isn)
  case (Cons p ps)
  show ?case
  proof (cases "data_segment p \<and> m_seq p = isn")
    case True
    then have "m_nxt_seq p + word_of_int (total_len ps) = isn + word_of_int (total_len (p # ps))"
      by (simp add: data_segment_def)
    with True Cons show ?thesis by (simp add: add.assoc)
  qed auto
qed simp

lemma chain_data: "chain isn ps \<Longrightarrow> p \<in> set ps \<Longrightarrow> data_segment p"
  by (induction ps arbitrary: isn) auto

lemma chain_total_pos: "chain isn ps \<Longrightarrow> ps \<noteq> [] \<Longrightarrow> 0 < total_len ps"
proof (induction ps arbitrary: isn)
  case (Cons p ps)
  then show ?case by (cases ps) (auto simp: data_segment_def intro: add_pos_pos)
qed simp

lemma chain_total_nonneg: "chain isn ps \<Longrightarrow> 0 \<le> total_len ps"
  by (cases "ps = []") (auto dest: chain_total_pos)

text \<open>The sequence number behind a prefix; different prefixes end at different numbers.\<close>

definition seq_at :: "32 word \<Rightarrow> cdpi_tcp_packet list \<Rightarrow> nat \<Rightarrow> 32 word" where
  "seq_at isn ps k = isn + word_of_int (total_len (take k ps))"

lemma seq_at_0 [simp]: "seq_at isn ps 0 = isn"
  by (simp add: seq_at_def)

lemma chain_nth:
  assumes "chain isn ps" "k < length ps"
  shows "m_seq (ps ! k) = seq_at isn ps k" "m_nxt_seq (ps ! k) = seq_at isn ps (Suc k)"
    "data_segment (ps ! k)"
proof -
  have "chain isn (take k ps @ ps ! k # drop (Suc k) ps)"
    using assms by (simp add: id_take_nth_drop [symmetric])
  then have "m_seq (ps ! k) = seq_at isn ps k" "data_segment (ps ! k)"
    by (simp_all add: chain_append seq_at_def)
  then show "m_seq (ps ! k) = seq_at isn ps k" "m_nxt_seq (ps ! k) = seq_at isn ps (Suc k)"
    "data_segment (ps ! k)"
    using assms(2) by (simp_all add: seq_at_def data_segment_def take_Suc_conv_app_nth add.assoc)
qed

lemma seq_at_inject:
  assumes "chain isn ps" "total_len ps < 2 ^ 32" "j \<le> length ps" "k \<le> length ps"
    "seq_at isn ps j = seq_at isn ps k"
  shows "j = k"
proof (rule ccontr)
  have less: "total_len (take j ps) < total_len (take k ps)"
    if "j < k" "k \<le> length ps" for j k
  proof -
    have eq: "take k ps = take j ps @ drop j (take k ps)"
      using append_take_drop_id [of j "take k ps"] that(1) by (simp add: min_def)
    have "chain isn (take k ps @ drop k ps)" using assms(1) by simp
    then have "chain isn (take k ps)" by (simp only: chain_append)
    then have "chain (isn + word_of_int (total_len (take j ps))) (drop j (take k ps))"
      by (subst (asm) eq) (simp only: chain_append)
    moreover have "drop j (take k ps) \<noteq> []" using that by simp
    ultimately have "0 < total_len (drop j (take k ps))" by (rule chain_total_pos)
    moreover have "total_len (take k ps) = total_len (take j ps) + total_len (drop j (take k ps))"
      using arg_cong [OF eq, of total_len] by (simp only: total_len_simps)
    ultimately show ?thesis by linarith
  qed
  have range: "0 \<le> total_len (take k ps) \<and> total_len (take k ps) < 2 ^ 32" for k
  proof -
    have "chain isn (take k ps @ drop k ps)" using assms(1) by simp
    then have "chain isn (take k ps)" "chain (isn + word_of_int (total_len (take k ps))) (drop k ps)"
      by (simp_all only: chain_append)
    from this [THEN chain_total_nonneg] have "0 \<le> total_len (take k ps)" "0 \<le> total_len (drop k ps)" .
    moreover have "total_len ps = total_len (take k ps) + total_len (drop k ps)"
      by (simp flip: total_len_simps(3))
    ultimately show ?thesis using assms(2) by simp
  qed
  have "(word_of_int (total_len (take j ps)) :: 32 word) = word_of_int (total_len (take k ps))"
    using assms(5) by (simp add: seq_at_def)
  then have "uint (word_of_int (total_len (take j ps)) :: 32 word) =
      uint (word_of_int (total_len (take k ps)) :: 32 word)" by simp
  then have "total_len (take j ps) = total_len (take k ps)"
    using range [of j] range [of k] by (simp add: uint_word_of_int)
  moreover assume "j \<noteq> k"
  ultimately show False using less [of j k] less [of k j] assms(3,4) by (cases "j < k") auto
qed

section \<open>One direction\<close>

text \<open>
  What a direction holds when \<open>k\<close> segments of the stream were delivered and those in \<open>arrived\<close> have
  come in: it waits for segment \<open>k\<close>, and of the later ones it stores exactly those that came.
\<close>

definition partial_stream ::
    "32 word \<Rightarrow> cdpi_tcp_packet list \<Rightarrow> nat \<Rightarrow> cdpi_tcp_packet set \<Rightarrow> cdpi_tcp_uniflow \<Rightarrow> bool" where
  "partial_stream isn ps k arrived u \<longleftrightarrow> k \<le> length ps \<and> m_min_seq u = seq_at isn ps k \<and>
     (\<forall>j. k \<le> j \<and> j < length ps \<longrightarrow>
        map_of (m_packets u) (seq_at isn ps j) = (if ps ! j \<in> arrived then Some (ps ! j) else None)) \<and>
     map_of (m_packets u) (seq_at isn ps (length ps)) = None \<and> set (take k ps) \<subseteq> arrived"

lemma length_omap_insert: "length (omap_insert k v m) \<le> Suc (length m)"
  by (induction k v m rule: omap_insert.induct) auto

text \<open>The streams that are considered: segments of a chain of less than \<open>2 ^ 32\<close> bytes.\<close>

definition stream_ok :: "32 word \<Rightarrow> cdpi_tcp_packet list \<Rightarrow> bool" where
  "stream_ok isn ps \<longleftrightarrow> chain isn ps \<and> total_len ps < 2 ^ 32"

lemma seq_at_eq: "stream_ok isn ps \<Longrightarrow> j \<le> length ps \<Longrightarrow> k \<le> length ps \<Longrightarrow> seq_at isn ps j = seq_at isn ps k \<longleftrightarrow> j = k"
  using seq_at_inject [of isn ps j k] by (auto simp: stream_ok_def)

lemma chain_distinct:
  "stream_ok isn ps \<Longrightarrow> j < length ps \<Longrightarrow> k < length ps \<Longrightarrow> ps ! j = ps ! k \<longleftrightarrow> j = k"
  using chain_nth(1) [of isn ps j] chain_nth(1) [of isn ps k] seq_at_eq [of isn ps j k]
  by (metis less_imp_le stream_ok_def)

text \<open>Storing a segment, in any order and any number of times.\<close>

lemma store_segment:
  assumes ok: "stream_ok isn ps" and "partial_stream isn ps k arrived u" "p \<in> set ps"
  shows "\<exists>u'. store_packet p u = Some u' \<and> partial_stream isn ps k (insert p arrived) u' \<and>
    length (m_packets u') \<le> Suc (length (m_packets u)) \<and> m_is_rm u' = m_is_rm u"
proof -
  obtain n where n: "n < length ps" "p = ps ! n" using assms(3) by (auto simp: in_set_conv_nth)
  have p: "data_segment p" "m_seq p = seq_at isn ps n" using chain_nth [OF _ n(1)] ok n(2) by (auto simp: stream_ok_def)
  have s: "store_packet p u = Some (u\<lparr>m_packets := omap_insert (m_seq p) p (m_packets u)\<rparr>)"
    using p(1) by (simp add: store_packet_def data_segment_def)
  have "seq_at isn ps j = m_seq p \<longleftrightarrow> j = n" if "j \<le> length ps" for j
    using p(2) seq_at_eq [OF ok that, of n] n(1) by auto
  then have "partial_stream isn ps k (insert p arrived)
      (u\<lparr>m_packets := omap_insert (m_seq p) p (m_packets u)\<rparr>)"
    using assms(2) n chain_distinct [OF ok] by (auto simp: partial_stream_def)
  with s show ?thesis by (auto simp: length_omap_insert)
qed

text \<open>Taking out the segment that is waited for, and not finding it.\<close>

lemma take_segment:
  assumes ok: "stream_ok isn ps" and "partial_stream isn ps k arrived u" "k < length ps" "ps ! k \<in> arrived"
  shows "\<exists>u'. take_packet u = Some (ps ! k, u') \<and> partial_stream isn ps (Suc k) arrived u' \<and>
    length (m_packets u') \<le> length (m_packets u) \<and> m_is_rm u' = m_is_rm u"
proof -
  let ?p = "ps ! k"
  let ?u = "u\<lparr>m_packets := omap_erase (seq_at isn ps k) (m_packets u), m_min_seq := seq_at isn ps (Suc k)\<rparr>"
  have p: "data_segment ?p" "m_nxt_seq ?p = seq_at isn ps (Suc k)" using chain_nth [OF _ assms(3)] ok by (auto simp: stream_ok_def)
  have found: "map_of (m_packets u) (m_min_seq u) = Some ?p" "m_min_seq u = seq_at isn ps k"
    using assms by (auto simp: partial_stream_def)
  then have t: "take_packet u = Some (?p, ?u)"
    using p by (simp add: take_packet_def data_segment_def Let_def)
  have "seq_at isn ps j \<noteq> seq_at isn ps k" if "Suc k \<le> j" "j \<le> length ps" for j
    using seq_at_eq [OF ok that(2), of k] that assms(3) by auto
  then have "partial_stream isn ps (Suc k) arrived ?u"
    using assms by (auto simp: partial_stream_def take_Suc_conv_app_nth)
  with t take_packet_less [OF t] show ?thesis by auto
qed

lemma take_segment_None:
  assumes "partial_stream isn ps k arrived u" "k < length ps \<Longrightarrow> ps ! k \<notin> arrived"
  shows "take_packet u = None"
  using assms by (cases "k < length ps") (auto simp: partial_stream_def take_packet_def)

section \<open>The engine on one direction\<close>

text \<open>What the stream layer is told of a segment.\<close>

definition data_call :: "cdpi_id_dir \<Rightarrow> cdpi_tcp_packet \<Rightarrow> stream_call" where
  "data_call ev p = (STREAM_DATA_IN, ev, (m_bytes p)\<lparr>m_len := m_data_len p, m_pos := m_data_pos p\<rparr>)"

text \<open>The state of the engine while only this direction is active.\<close>

definition serving ::
    "32 word \<Rightarrow> cdpi_tcp_packet list \<Rightarrow> cdpi_id_dir \<Rightarrow> nat \<Rightarrow> cdpi_tcp_packet set \<Rightarrow> nat \<Rightarrow> cdpi_tcp \<Rightarrow> bool"
  where
  "serving isn ps ev k arrived n s \<longleftrightarrow> (\<exists>f. map_of (m_flow s) (m_id ev) = Some f \<and>
     partial_stream isn ps k arrived (get_uniflow (m_dir ev) f) \<and>
     length (m_packets (get_uniflow (m_dir ev) f)) \<le> n \<and> \<not> m_is_rm (get_uniflow (m_dir ev) f))"

lemma serving_partial: "serving isn ps ev k arrived n s \<Longrightarrow> k \<le> length ps \<and> set (take k ps) \<subseteq> arrived"
  by (auto simp: serving_def partial_stream_def)

lemma get_packet_serving:
  assumes ok: "stream_ok isn ps" and s: "serving isn ps ev k arrived n s"
    and "k < length ps" "ps ! k \<in> arrived"
  shows "\<exists>s'. get_packet (m_id ev) (m_dir ev) s = Some (ps ! k, s') \<and>
    serving isn ps ev (Suc k) arrived n s' \<and> m_events s' = m_events s"
proof -
  obtain f where f: "map_of (m_flow s) (m_id ev) = Some f"
      "partial_stream isn ps k arrived (get_uniflow (m_dir ev) f)"
      "length (m_packets (get_uniflow (m_dir ev) f)) \<le> n" "\<not> m_is_rm (get_uniflow (m_dir ev) f)"
    using s by (auto simp: serving_def)
  from take_segment [OF ok f(2) assms(3,4)] obtain u where
    "take_packet (get_uniflow (m_dir ev) f) = Some (ps ! k, u)" "partial_stream isn ps (Suc k) arrived u"
    "length (m_packets u) \<le> length (m_packets (get_uniflow (m_dir ev) f))"
    "m_is_rm u = m_is_rm (get_uniflow (m_dir ev) f)" by blast
  with f show ?thesis by (auto simp: get_packet_def serving_def)
qed

lemma get_packet_serving_None:
  "serving isn ps ev k arrived n s \<Longrightarrow> (k < length ps \<Longrightarrow> ps ! k \<notin> arrived) \<Longrightarrow>
     get_packet (m_id ev) (m_dir ev) s = None"
  by (auto simp: serving_def get_packet_def take_segment_None)

lemma run_packet_data: "data_segment p \<Longrightarrow> run_packet ev p s = (ev, s, [data_call ev p])"
  by (simp add: run_packet_def data_segment_def data_call_def Let_def)

text \<open>The loop delivers what is ready and no more.\<close>

lemma drain_serving:
  assumes ok: "stream_ok isn ps"
  shows "serving isn ps ev k arrived n s \<Longrightarrow>
    \<exists>k' s'. drain ev s acc = Some (ev, s', acc @ map (data_call ev) (take (k' - k) (drop k ps))) \<and>
      k \<le> k' \<and> serving isn ps ev k' arrived n s' \<and> m_events s' = m_events s \<and>
      (k' < length ps \<longrightarrow> ps ! k' \<notin> arrived)"
proof (induction "length ps - k" arbitrary: k s acc rule: less_induct)
  case less
  show ?case
  proof (cases "k < length ps \<and> ps ! k \<in> arrived")
    case True
    from get_packet_serving [OF ok less.prems] True obtain s1 where
      g: "get_packet (m_id ev) (m_dir ev) s = Some (ps ! k, s1)" and
      s1: "serving isn ps ev (Suc k) arrived n s1" "m_events s1 = m_events s" by blast
    have d: "data_segment (ps ! k)" using chain_nth(3) [of isn ps k] ok True by (simp add: stream_ok_def)
    have "length ps - Suc k < length ps - k" using True by (auto intro: diff_less_mono2)
    from less.hyps [OF this s1(1), of "acc @ [data_call ev (ps ! k)]"] obtain k' s' where
      r: "drain ev s1 (acc @ [data_call ev (ps ! k)]) =
        Some (ev, s', (acc @ [data_call ev (ps ! k)]) @
          map (data_call ev) (take (k' - Suc k) (drop (Suc k) ps)))"
      "Suc k \<le> k'" "serving isn ps ev k' arrived n s'" "m_events s' = m_events s1"
      "k' < length ps \<longrightarrow> ps ! k' \<notin> arrived" by blast
    have "take (k' - k) (drop k ps) = ps ! k # take (k' - Suc k) (drop (Suc k) ps)"
      using True r(2) by (simp add: Cons_nth_drop_Suc [symmetric] take_Cons')
    with r s1 g d have "drain ev s acc = Some (ev, s', acc @ map (data_call ev) (take (k' - k) (drop k ps)))"
      by (subst drain.simps) (simp add: run_packet_data)
    with r s1 show ?thesis by (intro exI [of _ k'] exI [of _ s']) simp
  next
    case False
    with get_packet_serving_None [OF less.prems] have "get_packet (m_id ev) (m_dir ev) s = None" by blast
    then have "drain ev s acc = Some (ev, s, acc)" by (subst drain.simps) simp
    with False less.prems show ?thesis by (intro exI [of _ k] exI [of _ s]) simp
  qed
qed

section \<open>Arrivals and rounds\<close>

text \<open>
  What happens to the engine: a segment of the connection comes in, through both sections of
  \<open>input_tcp\<close>, or the delivering thread does a round.
\<close>

datatype tcp_op = Arrive int cdpi_tcp_packet | Round

fun exec_op :: "cdpi_id_dir \<Rightarrow> tcp_op \<Rightarrow> cdpi_tcp \<times> stream_call list \<Rightarrow> (cdpi_tcp \<times> stream_call list) option"
  where
  "exec_op ev (Arrive now p) (s, cs) =
     (case input_lookup (m_id ev) (m_flags p) s of
        None \<Rightarrow> Some (s, cs)
      | Some (fl, s1) \<Rightarrow> Some (input_store now (m_id ev) (m_dir ev) p fl s1, cs))"
| "exec_op ev Round (s, cs) = map_option (\<lambda>(s', cs'). (s', cs @ cs')) (run_event s)"

fun exec_ops :: "cdpi_id_dir \<Rightarrow> tcp_op list \<Rightarrow> cdpi_tcp \<times> stream_call list \<Rightarrow> (cdpi_tcp \<times> stream_call list) option"
  where
  "exec_ops ev [] st = Some st"
| "exec_ops ev (x # xs) st = Option.bind (exec_op ev x st) (exec_ops ev xs)"

fun arrivals :: "tcp_op list \<Rightarrow> cdpi_tcp_packet list" where
  "arrivals [] = []"
| "arrivals (Arrive now p # xs) = p # arrivals xs"
| "arrivals (Round # xs) = arrivals xs"

text \<open>Between the operations: what was delivered, and whether a round is due.\<close>

definition between ::
    "32 word \<Rightarrow> cdpi_tcp_packet list \<Rightarrow> cdpi_id_dir \<Rightarrow> cdpi_tcp_packet set \<Rightarrow> nat \<Rightarrow>
     cdpi_tcp \<times> stream_call list \<Rightarrow> bool" where
  "between isn ps ev arrived n st \<longleftrightarrow> (\<exists>k. serving isn ps ev k arrived n (fst st) \<and>
     snd st = map (data_call ev) (take k ps) \<and>
     (m_events (fst st) = [ev] \<or>
      m_events (fst st) = [] \<and> (k < length ps \<longrightarrow> ps ! k \<notin> arrived)))"

lemma exec_arrive:
  assumes ok: "stream_ok isn ps" and b: "between isn ps ev arrived n st" and "p \<in> set ps"
    and dir: "m_dir ev \<in> {FROM_ADDR1, FROM_ADDR2}"
  shows "\<exists>st'. exec_op ev (Arrive now p) st = Some st' \<and> between isn ps ev (insert p arrived) (Suc n) st'"
proof -
  obtain s cs where st: "st = (s, cs)" by fastforce
  from b obtain k f where k: "cs = map (data_call ev) (take k ps)"
      "m_events s = [ev] \<or> m_events s = []"
    and f: "map_of (m_flow s) (m_id ev) = Some f"
      "partial_stream isn ps k arrived (get_uniflow (m_dir ev) f)"
      "length (m_packets (get_uniflow (m_dir ev) f)) \<le> n" "\<not> m_is_rm (get_uniflow (m_dir ev) f)"
    by (auto simp: between_def serving_def st)
  from store_segment [OF ok f(2) assms(3)] obtain u where
    u: "store_packet p (get_uniflow (m_dir ev) f) = Some u" "partial_stream isn ps k (insert p arrived) u"
      "length (m_packets u) \<le> Suc (length (m_packets (get_uniflow (m_dir ev) f)))"
      "m_is_rm u = m_is_rm (get_uniflow (m_dir ev) f)" by blast
  define s' where "s' = input_store now (m_id ev) (m_dir ev) p f s"
  have s': "s' = s\<lparr>m_flow := omap_insert (m_id ev) (put_uniflow (m_dir ev) (u\<lparr>m_time := now\<rparr>) f) (m_flow s),
      m_events := event_insert ev (m_events s)\<rparr>"
    using dir f(1) u(1) by (cases ev) (auto simp: s'_def input_store_def Let_def)
  have "partial_stream isn ps k (insert p arrived) (u\<lparr>m_time := now\<rparr>)"
    using u(2) by (simp add: partial_stream_def)
  moreover have "m_events s' = [ev]" using k(2) by (auto simp: s' event_insert_def)
  ultimately have "between isn ps ev (insert p arrived) (Suc n) (s', cs)"
    using k(1) f(3,4) u(3,4) by (auto simp: between_def serving_def s' intro!: exI [of _ k])
  then show ?thesis using f(1) by (simp add: st input_lookup_def s'_def)
qed

lemma exec_round:
  assumes ok: "stream_ok isn ps" and b: "between isn ps ev arrived n st" and "n \<le> 32"
  shows "\<exists>st'. exec_op ev Round st = Some st' \<and> between isn ps ev arrived n st' \<and> m_events (fst st') = []"
proof -
  obtain s cs where st: "st = (s, cs)" by fastforce
  from b obtain k where s: "serving isn ps ev k arrived n s" and cs: "cs = map (data_call ev) (take k ps)"
    and e: "m_events s = [ev] \<or> m_events s = [] \<and> (k < length ps \<longrightarrow> ps ! k \<notin> arrived)"
    by (auto simp: between_def st)
  show ?thesis
  proof (cases "m_events s")
    case Nil
    with b st show ?thesis by (auto simp: run_event_def)
  next
    case (Cons e' es)
    with e have ev: "m_events s = [ev]" by auto
    let ?s1 = "s\<lparr>m_events := []\<rparr>"
    have s1: "serving isn ps ev k arrived n ?s1" using s by (simp add: serving_def)
    then have c: "run_collect ev ?s1 = Some (ev, ?s1, [])"
      by (auto simp: run_collect_def serving_def get_uniflow_def Let_def)
    from drain_serving [OF ok s1, of "[]"] obtain k' s' where
      d: "drain ev ?s1 [] = Some (ev, s', map (data_call ev) (take (k' - k) (drop k ps)))"
      and k': "k \<le> k'" "serving isn ps ev k' arrived n s'" "m_events s' = []"
        "k' < length ps \<longrightarrow> ps ! k' \<notin> arrived" by auto
    have "num_packets (m_id ev) (m_dir ev) s' \<le> 32"
      using k'(2) assms(3) by (auto simp: num_packets_def serving_def)
    then have "run_limit ev s' = (s', [])" by (simp add: run_limit_def Let_def)
    then have "run_event s = Some (s', map (data_call ev) (take (k' - k) (drop k ps)))"
      using ev c d by (simp add: run_event_def)
    moreover have "map (data_call ev) (take k ps) @ map (data_call ev) (take (k' - k) (drop k ps)) =
        map (data_call ev) (take k' ps)"
      using k'(1) by (simp flip: map_append take_add)
    ultimately show ?thesis
      using k' cs st by (auto simp: between_def)
  qed
qed

lemma exec_ops_between:
  "stream_ok isn ps \<Longrightarrow> m_dir ev \<in> {FROM_ADDR1, FROM_ADDR2} \<Longrightarrow> between isn ps ev arrived n st \<Longrightarrow>
     set (arrivals ops) \<subseteq> set ps \<Longrightarrow> n + length (arrivals ops) \<le> 32 \<Longrightarrow>
     \<exists>st'. exec_ops ev ops st = Some st' \<and>
       between isn ps ev (arrived \<union> set (arrivals ops)) (n + length (arrivals ops)) st'"
proof (induction ops arbitrary: arrived n st)
  case Nil
  then show ?case by auto
next
  case (Cons x xs)
  show ?case
  proof (cases x)
    case (Arrive now p)
    with Cons.prems(4) have "p \<in> set ps" by simp
    from exec_arrive [OF Cons.prems(1,3) this Cons.prems(2)] obtain st1 where
      st1: "exec_op ev (Arrive now p) st = Some st1" "between isn ps ev (insert p arrived) (Suc n) st1"
      by blast
    from Cons.IH [OF Cons.prems(1,2) st1(2)] Cons.prems(4,5) Arrive show ?thesis by (auto simp: st1(1))
  next
    case Round
    have "n \<le> 32" using Cons.prems(5) by simp
    from exec_round [OF Cons.prems(1,3) this] obtain st1 where
      st1: "exec_op ev Round st = Some st1" "between isn ps ev arrived n st1"
      by blast
    from Cons.IH [OF Cons.prems(1,2) st1(2)] Cons.prems(4,5) Round show ?thesis by (auto simp: st1(1))
  qed
qed

lemma exec_ops_append: "exec_ops ev (xs @ ys) st = Option.bind (exec_ops ev xs st) (exec_ops ev ys)"
  by (induction xs arbitrary: st) (simp_all add: bind_split split: bind_splits)

text \<open>
  C1: reassembly. A direction that waits for the segment with number \<open>isn\<close> is given segments of
  a stream \<open>ps\<close>, in any order, any of them several times, with rounds of the delivering thread in
  between, at most 32 in all. After the next round the stream layer was told of exactly the
  segments up to the first one that has not arrived, each once, in the order of the stream, also
  when the sequence numbers wrap around.
\<close>
theorem tcp_reassembly:
  assumes "stream_ok isn ps" and "m_dir ev \<in> {FROM_ADDR1, FROM_ADDR2}"
    and "map_of (m_flow s) (m_id ev) = Some f" and "m_events s = []"
    and "m_packets (get_uniflow (m_dir ev) f) = []" "m_min_seq (get_uniflow (m_dir ev) f) = isn"
    and "\<not> m_is_rm (get_uniflow (m_dir ev) f)"
    and "set (arrivals ops) \<subseteq> set ps" "length (arrivals ops) \<le> 32"
  shows "\<exists>s'. exec_ops ev (ops @ [Round]) (s, []) =
    Some (s', map (data_call ev) (takeWhile (\<lambda>p. p \<in> set (arrivals ops)) ps))"
proof -
  have "between isn ps ev {} 0 (s, [])"
    using assms(3-7) by (auto simp: between_def serving_def partial_stream_def intro!: exI [of _ 0])
  from exec_ops_between [OF assms(1,2) this assms(8)] assms(9) obtain st where
    st: "exec_ops ev ops (s, []) = Some st"
      "between isn ps ev (set (arrivals ops)) (length (arrivals ops)) st" by auto
  from exec_round [OF assms(1) st(2) assms(9)] obtain s' cs where
    r: "exec_op ev Round st = Some (s', cs)"
      "between isn ps ev (set (arrivals ops)) (length (arrivals ops)) (s', cs)" "m_events s' = []" by auto
  then obtain k where k: "serving isn ps ev k (set (arrivals ops)) (length (arrivals ops)) s'"
      "cs = map (data_call ev) (take k ps)" "k < length ps \<longrightarrow> ps ! k \<notin> set (arrivals ops)"
    by (auto simp: between_def)
  from serving_partial [OF k(1)] have "k \<le> length ps" "set (take k ps) \<subseteq> set (arrivals ops)" by auto
  then have "takeWhile (\<lambda>p. p \<in> set (arrivals ops)) ps = take k ps"
  proof (intro takeWhile_eq_take_P_nth)
    fix j assume "j < k" "j < length ps"
    then have "ps ! j \<in> set (take k ps)" by (auto simp: in_set_conv_nth intro!: exI [of _ j])
    with \<open>set (take k ps) \<subseteq> set (arrivals ops)\<close> show "ps ! j \<in> set (arrivals ops)" by blast
  qed (use k(3) in simp)
  with st(1) r(1) k(2) show ?thesis by (auto simp: exec_ops_append)
qed

text \<open>Three segments around the wrap of the sequence numbers, the last of them missing.\<close>

definition sample_segment :: "32 word \<Rightarrow> byte list \<Rightarrow> cdpi_tcp_packet" where
  "sample_segment seq d = \<lparr>m_bytes = assign_str d, m_seq = seq,
     m_nxt_seq = seq + word_of_int (int (length d)), m_flags = 0x10, m_data_pos = 0,
     m_data_len = int (length d), m_read_pos = 0\<rparr>"

definition sample_stream :: "cdpi_tcp_packet list" where
  "sample_stream = [sample_segment 0xFFFFFFFF [1, 2], sample_segment 1 [3], sample_segment 2 [4]]"

definition sample_ev :: cdpi_id_dir where
  "sample_ev = IdDir (Id peer_init peer_init 0 6) FROM_ADDR1"

definition sample_tcp :: cdpi_tcp where
  "sample_tcp = \<lparr>m_flow = [(m_id sample_ev,
     \<lparr>m_flow1 = new_uniflow\<lparr>m_is_syn := True, m_min_seq := 0xFFFFFFFF\<rparr>, m_flow2 = new_uniflow\<rparr>)],
     m_events = []\<rparr>"

lemma sample_stream_ok: "stream_ok 0xFFFFFFFF sample_stream"
  by (simp add: stream_ok_def sample_stream_def sample_segment_def data_segment_def)

lemma tcp_reassembly_witness:
  "\<exists>s'. exec_ops sample_ev
     ([Arrive 0 (sample_segment 1 [3]), Round, Arrive 1 (sample_segment 1 [3]),
       Arrive 2 (sample_segment 0xFFFFFFFF [1, 2])] @ [Round]) (sample_tcp, []) =
     Some (s', [data_call sample_ev (sample_segment 0xFFFFFFFF [1, 2]),
       data_call sample_ev (sample_segment 1 [3])])"
proof -
  let ?ops = "[Arrive 0 (sample_segment 1 [3]), Round, Arrive 1 (sample_segment 1 [3]),
       Arrive 2 (sample_segment 0xFFFFFFFF [1, 2])]"
  obtain f where f: "map_of (m_flow sample_tcp) (m_id sample_ev) = Some f"
    "f = \<lparr>m_flow1 = new_uniflow\<lparr>m_is_syn := True, m_min_seq := 0xFFFFFFFF\<rparr>, m_flow2 = new_uniflow\<rparr>"
    by (simp add: sample_tcp_def)
  have d: "m_dir sample_ev = FROM_ADDR1" by (simp add: sample_ev_def)
  have "set (arrivals ?ops) \<subseteq> set sample_stream" by (simp add: sample_stream_def)
  from tcp_reassembly [OF sample_stream_ok _ f(1) _ _ _ _ this]
  have "\<exists>s'. exec_ops sample_ev (?ops @ [Round]) (sample_tcp, []) =
      Some (s', map (data_call sample_ev) (takeWhile (\<lambda>p. p \<in> set (arrivals ?ops)) sample_stream))"
    by (simp add: d f(2) get_uniflow_def new_uniflow_def sample_tcp_def)
  then show ?thesis by (simp add: sample_stream_def sample_segment_def)
qed

section \<open>From the wire to the block\<close>

text \<open>
  the block that the stream layer gets for a segment is well-formed and its window is the data of
  the packet: the bytes behind the TCP header up to the length of the packet. Its sequence number is
  the one on the wire, in host order.
\<close>
theorem tcp_packet_payload:
  assumes "tcp_packet mem len l4 = Inr p" and "0 \<le> m_data_len p"
  shows "wf_block (snd (snd (data_call ev p))) \<and>
    block_bytes (snd (snd (data_call ev p))) =
      drop (l4 + unat (drop_bit 4 (mem ! (l4 + 12))) * 4) (take (nat len) mem) \<and>
    unat (m_seq p) = be_nat (take 4 (drop (l4 + 4) mem)) \<and>
    m_nxt_seq p = m_seq p + word_of_int (m_data_len p)"
proof -
  obtain b seq flags off where r: "set_buf mem len = Inr b" "rds mem (l4 + 4) 4 = Inr seq"
    "rd mem (l4 + 13) = Inr flags" "rd mem (l4 + 12) = Inr off"
    and p: "p = \<lparr>m_bytes = b, m_seq = ntohl (u32_of seq),
      m_nxt_seq = ntohl (u32_of seq) + word_of_int (len - (int l4 + uint (drop_bit 4 off) * 4)),
      m_flags = flags, m_data_pos = int l4 + uint (drop_bit 4 off) * 4,
      m_data_len = len - (int l4 + uint (drop_bit 4 off) * 4), m_read_pos = 0\<rparr>"
    using assms(1) by (auto simp: tcp_packet_def bindR_eq_Inr Let_def)
  have b: "m_ptr b = Some (take (nat len) mem)" "0 \<le> len" "nat len \<le> length mem"
    using r(1) by (auto simp: set_buf_def bindR_eq_Inr rdsi_def rds_eq_Inr split: if_splits)
  have s: "seq = take 4 (drop (l4 + 4) mem)" "l4 + 4 + 4 \<le> length mem" "off = mem ! (l4 + 12)"
    using r(2,4) by (simp_all add: rds_eq_Inr rd_eq_Inr)
  define k where "k = l4 + unat (drop_bit 4 (mem ! (l4 + 12))) * 4"
  have k: "int l4 + uint (drop_bit 4 (mem ! (l4 + 12))) * 4 = int k" by (simp add: k_def uint_nat)
  have "int k \<le> len" using assms(2) by (simp add: p k s(3))
  then have "wf_block (b\<lparr>m_len := len - int k, m_pos := int k\<rparr>)"
    "block_bytes (b\<lparr>m_len := len - int k, m_pos := int k\<rparr>) = drop k (take (nat len) mem)"
    using b by (auto simp: wf_block_def block_bytes_def ptr_mem_def drop_take nat_diff_distrib')
  then show ?thesis
    using s by (simp add: data_call_def p k flip: k_def)
qed

definition sample_wire :: "byte list" where
  "sample_wire = [0, 80, 4, 1, 0, 0, 0, 7, 0, 0, 0, 0, 0x50, 0x18, 0, 0, 0, 0, 0, 0, 104, 105]"

text \<open>A segment of two bytes behind a header of 20 bytes.\<close>

lemma tcp_packet_payload_witness:
  "block_bytes (snd (snd (data_call sample_ev \<lparr>m_bytes = assign_str sample_wire, m_seq = 7,
     m_nxt_seq = 9, m_flags = 0x18, m_data_pos = 20, m_data_len = 2, m_read_pos = 0\<rparr>))) = [104, 105]"
proof -
  have "tcp_packet sample_wire 22 0 = Inr \<lparr>m_bytes = assign_str sample_wire, m_seq = 7,
     m_nxt_seq = 9, m_flags = 0x18, m_data_pos = 20, m_data_len = 2, m_read_pos = 0\<rparr>"
    by (simp add: tcp_packet_def sample_wire_def set_buf_def rdsi_def rds_def rd_def assign_str_def
        u32_of_def ntohl_def be_nat_def le_bytes_numeral Let_def)
  from tcp_packet_payload [OF this] show ?thesis by (simp add: sample_wire_def)
qed

end
