(* ===== verification/Tcp_Lifecycle.thy ===== *)
theory Tcp_Lifecycle
  imports Tcp_Reassembly
begin

text \<open>How connections of \<open>cdpi_tcp.cpp\<close> open, close, fail and are collected.\<close>

section \<open>Opening\<close>

lemma drain_idle: "get_packet (m_id ev) (m_dir ev) s = None \<Longrightarrow> drain ev s acc = Some (ev, s, acc)"
  by (subst drain.simps) simp

lemma drain_step:
  "get_packet (m_id ev) (m_dir ev) s = Some (p, s1) \<Longrightarrow> run_packet ev p s1 = (ev', s2, cs) \<Longrightarrow>
     drain ev s acc = drain ev' s2 (acc @ cs)"
  by (subst drain.simps) simp

lemma get_packet_unknown: "map_of (m_flow s) i = None \<Longrightarrow> get_packet i dir s = None"
  by (simp add: get_packet_def)

lemma num_packets_unknown: "map_of (m_flow s) i = None \<Longrightarrow> num_packets i dir s = 0"
  by (simp add: num_packets_def)

text \<open>What the SYN of an unknown connection makes of its direction.\<close>

definition opened :: "int \<Rightarrow> cdpi_tcp_packet \<Rightarrow> cdpi_tcp_uniflow" where
  "opened now p = new_uniflow\<lparr>m_packets := [(m_seq p, p\<lparr>m_nxt_seq := m_seq p + 1\<rparr>)],
     m_min_seq := m_seq p, m_is_syn := True, m_time := now\<rparr>"

lemma store_syn:
  "m_flags p AND TH_SYN \<noteq> 0 \<Longrightarrow>
     map_option (\<lambda>u. u\<lparr>m_time := now\<rparr>) (store_packet p new_uniflow) = Some (opened now p)"
  by (simp add: store_packet_def new_uniflow_def opened_def Let_def)

lemma get_uniflow_new [simp]: "get_uniflow dir new_flow = new_uniflow"
  by (simp add: get_uniflow_def new_flow_def)

lemma input_syn:
  assumes "map_of (m_flow s) i = None" "m_events s = []" "dir \<in> {FROM_ADDR1, FROM_ADDR2}"
    and "tcp_packet mem len l4 = Inr p" "m_flags p AND TH_SYN \<noteq> 0"
  shows "\<exists>s1. input_tcp now i dir mem len l4 s = Inr s1 \<and> m_events s1 = [IdDir i dir] \<and>
    map_of (m_flow s1) i = Some (put_uniflow dir (opened now p) new_flow)"
proof -
  have "rd mem (l4 + 13) = Inr (m_flags p)"
    using assms(4) by (auto simp: tcp_packet_def bindR_eq_Inr Let_def)
  moreover obtain u where "store_packet p new_uniflow = Some u" "u\<lparr>m_time := now\<rparr> = opened now p"
    using store_syn [OF assms(5), of now] by auto
  ultimately show ?thesis
    using assms by (auto simp: input_tcp_def input_lookup_def input_store_def event_insert_def Let_def)
qed

text \<open>
  C30: a SYN on an unknown connection opens it. The next round of the delivering thread tells the
  stream layer that the stream was created, and afterwards the direction waits for the segment behind
  the SYN with nothing stored: the state that \<open>tcp_reassembly\<close> starts from.
\<close>
theorem tcp_open:
  assumes "map_of (m_flow s) i = None" "m_events s = []" "dir \<in> {FROM_ADDR1, FROM_ADDR2}"
    and "tcp_packet mem len l4 = Inr p" "m_flags p AND TH_SYN \<noteq> 0"
  shows "\<exists>s1 s2 f. input_tcp now i dir mem len l4 s = Inr s1 \<and>
    run_event s1 = Some (s2, [(STREAM_CREATED, IdDir i dir, empty_bytes)]) \<and>
    m_events s2 = [] \<and> map_of (m_flow s2) i = Some f \<and>
    m_packets (get_uniflow dir f) = [] \<and> m_min_seq (get_uniflow dir f) = m_seq p + 1 \<and>
    m_is_syn (get_uniflow dir f) \<and> \<not> m_is_rm (get_uniflow dir f) \<and>
    get_uniflow (peer_dir dir) f = new_uniflow"
proof -
  let ?ev = "IdDir i dir"
  from input_syn [OF assms, of now] obtain s1 where
    s1: "input_tcp now i dir mem len l4 s = Inr s1" "m_events s1 = [?ev]"
      "map_of (m_flow s1) i = Some (put_uniflow dir (opened now p) new_flow)" by blast
  let ?s0 = "s1\<lparr>m_events := []\<rparr>"
  obtain u where t: "take_packet (opened now p) = Some (p\<lparr>m_nxt_seq := m_seq p + 1\<rparr>, u)"
    and u: "m_packets u = []" "m_min_seq u = m_seq p + 1" "m_is_syn u" "\<not> m_is_rm u"
    by (simp add: take_packet_def opened_def omap_erase_def new_uniflow_def Let_def)
  define s2 where "s2 = ?s0\<lparr>m_flow := omap_insert i (put_uniflow dir u (put_uniflow dir (opened now p) new_flow)) (m_flow s1)\<rparr>"
  have g: "get_packet i dir ?s0 = Some (p\<lparr>m_nxt_seq := m_seq p + 1\<rparr>, s2)"
    using s1(3) t by (simp add: get_packet_def s2_def)
  have c: "run_collect ?ev ?s0 = Some (?ev, ?s0, [])"
    using s1(3) by (auto simp: run_collect_def put_uniflow_def opened_def new_flow_def new_uniflow_def Let_def)
  have f2: "map_of (m_flow s2) i = Some (put_uniflow dir u (put_uniflow dir (opened now p) new_flow))"
    by (simp add: s2_def)
  have "take_packet u = None" using u by (simp add: take_packet_def)
  then have "get_packet i dir s2 = None" using f2 by (simp add: get_packet_def)
  then have "drain ?ev ?s0 [] = Some (?ev, s2, [(STREAM_CREATED, ?ev, empty_bytes)])"
    using g assms(5)
    by (subst drain_step [of _ _ _ s2]) (auto simp: run_packet_def Let_def intro: drain_idle)
  moreover have "run_limit ?ev s2 = (s2, [])"
    using f2 u by (simp add: run_limit_def num_packets_def Let_def)
  ultimately have "run_event s1 = Some (s2, [(STREAM_CREATED, ?ev, empty_bytes)])"
    using s1(2) c by (simp add: run_event_def)
  moreover have "m_events s2 = []" by (simp add: s2_def)
  moreover have "get_uniflow (peer_dir dir) (put_uniflow dir u (put_uniflow dir (opened now p) new_flow)) =
      new_uniflow"
    using assms(3) by (auto simp: peer_dir_def)
  ultimately show ?thesis
    using s1(1) f2 u by (intro exI [of _ s1] exI [of _ s2]) auto
qed

text \<open>A SYN of 20 bytes.\<close>

definition sample_syn :: "byte list" where
  "sample_syn = [0, 80, 4, 1, 0, 0, 0, 7, 0, 0, 0, 0, 0x50, 0x02, 0, 0, 0, 0, 0, 0]"

lemma sample_syn_packet:
  "tcp_packet sample_syn 20 0 = Inr \<lparr>m_bytes = assign_str sample_syn, m_seq = 7,
     m_nxt_seq = 7, m_flags = 0x02, m_data_pos = 20, m_data_len = 0, m_read_pos = 0\<rparr>"
  by (simp add: tcp_packet_def sample_syn_def set_buf_def rdsi_def rds_def rd_def assign_str_def
      u32_of_def ntohl_def be_nat_def le_bytes_numeral Let_def)

lemma tcp_open_witness:
  "\<exists>s1 s2. input_tcp 0 (Id peer_init peer_init 0 6) FROM_ADDR2 sample_syn 20 0 idle_tcp = Inr s1 \<and>
     run_event s1 = Some (s2, [(STREAM_CREATED, IdDir (Id peer_init peer_init 0 6) FROM_ADDR2, empty_bytes)])"
  using tcp_open [of idle_tcp "Id peer_init peer_init 0 6" FROM_ADDR2, OF _ _ _ sample_syn_packet, of 0]
  by (auto simp: idle_tcp_def)

section \<open>Closing\<close>

text \<open>
  C31: a FIN that is next in its direction. The stream layer is given an empty block for it, whatever
  data the segment carries. When the other direction had its FIN before, the flow is removed and
  both directions are destroyed; otherwise the flow stays, marked, and the loop goes on behind it.
\<close>
theorem tcp_fin:
  assumes "map_of (m_flow s) i = Some f" "u = get_uniflow dir f" "dir \<in> {FROM_ADDR1, FROM_ADDR2}"
    and "map_of (m_packets u) (m_min_seq u) = Some p"
    and "m_flags p AND TH_SYN = 0" "m_flags p AND TH_FIN \<noteq> 0"
  shows "\<exists>s1. get_packet i dir s = Some (p, s1) \<and>
    (if m_is_fin (get_uniflow (peer_dir dir) f)
     then \<exists>s2. drain (IdDir i dir) s cs = Some (IdDir i FROM_ADDR2, s2,
         cs @ [(STREAM_DATA_IN, IdDir i dir, empty_bytes),
               (STREAM_DESTROYED, IdDir i FROM_ADDR1, empty_bytes),
               (STREAM_DESTROYED, IdDir i FROM_ADDR2, empty_bytes)]) \<and>
         map_of (m_flow s2) = (map_of (m_flow s))(i := None)
     else drain (IdDir i dir) s cs =
         drain (IdDir i dir) s1 (cs @ [(STREAM_DATA_IN, IdDir i dir, empty_bytes)]) \<and>
       (\<exists>f1. map_of (m_flow s1) i = Some f1 \<and> m_is_fin (get_uniflow dir f1) \<and>
         m_min_seq (get_uniflow dir f1) = m_nxt_seq p))"
proof -
  obtain u1 where t: "take_packet u = Some (p, u1)" "m_is_fin u1" "m_min_seq u1 = m_nxt_seq p"
    using assms(4,6) by (simp add: take_packet_def Let_def)
  define s1 where "s1 = s\<lparr>m_flow := omap_insert i (put_uniflow dir u1 f) (m_flow s)\<rparr>"
  have g: "get_packet i dir s = Some (p, s1)"
    using assms(1,2) t by (simp add: get_packet_def s1_def)
  have peer: "get_uniflow (peer_dir dir) (put_uniflow dir u1 f) = get_uniflow (peer_dir dir) f"
    using assms(3) by (auto simp: peer_dir_def)
  show ?thesis
  proof (cases "m_is_fin (get_uniflow (peer_dir dir) f)")
    case True
    define s2 where "s2 = s1\<lparr>m_flow := omap_erase i (m_flow s1)\<rparr>"
    have "recv_fin i dir s1 = (True, s2)" using True peer by (simp add: recv_fin_def s1_def s2_def)
    then have "run_packet (IdDir i dir) p s1 = (IdDir i FROM_ADDR2, s2,
        [(STREAM_DATA_IN, IdDir i dir, empty_bytes), (STREAM_DESTROYED, IdDir i FROM_ADDR1, empty_bytes),
         (STREAM_DESTROYED, IdDir i FROM_ADDR2, empty_bytes)])"
      using assms(5,6) by (simp add: run_packet_def Let_def)
    moreover have gone: "map_of (m_flow s2) = (map_of (m_flow s))(i := None)"
      by (simp add: s1_def s2_def)
    then have "get_packet i FROM_ADDR2 s2 = None" by (simp add: get_packet_unknown)
    ultimately show ?thesis
      using True g gone drain_step [of "IdDir i dir" s p s1] by (simp add: drain_idle)
  next
    case False
    then have "recv_fin i dir s1 = (False, s1)" using peer by (simp add: recv_fin_def s1_def)
    then have "run_packet (IdDir i dir) p s1 = (IdDir i dir, s1, [(STREAM_DATA_IN, IdDir i dir, empty_bytes)])"
      using assms(5,6) by (simp add: run_packet_def Let_def)
    moreover have "map_of (m_flow s1) i = Some (put_uniflow dir u1 f)" by (simp add: s1_def)
    ultimately show ?thesis
      using False g t drain_step [of "IdDir i dir" s p s1] by simp
  qed
qed

definition sample_fin :: cdpi_tcp_packet where
  "sample_fin = \<lparr>m_bytes = assign_str [104, 105], m_seq = 7, m_nxt_seq = 9, m_flags = 0x11,
     m_data_pos = 0, m_data_len = 2, m_read_pos = 0\<rparr>"

definition sample_closing :: cdpi_tcp where
  "sample_closing = \<lparr>m_flow = [(m_id sample_ev,
     \<lparr>m_flow1 = new_uniflow\<lparr>m_packets := [(7, sample_fin)], m_min_seq := 7\<rparr>,
      m_flow2 = new_uniflow\<lparr>m_is_fin := True\<rparr>\<rparr>)], m_events = []\<rparr>"

lemma tcp_fin_witness:
  "\<exists>s2. drain (IdDir (m_id sample_ev) FROM_ADDR1) sample_closing [] =
    Some (IdDir (m_id sample_ev) FROM_ADDR2, s2,
      [(STREAM_DATA_IN, IdDir (m_id sample_ev) FROM_ADDR1, empty_bytes),
       (STREAM_DESTROYED, IdDir (m_id sample_ev) FROM_ADDR1, empty_bytes),
       (STREAM_DESTROYED, IdDir (m_id sample_ev) FROM_ADDR2, empty_bytes)]) \<and> map_of (m_flow s2) (m_id sample_ev) = None"
  using tcp_fin [of sample_closing "m_id sample_ev" "snd (hd (m_flow sample_closing))"
      "m_flow1 (snd (hd (m_flow sample_closing)))" FROM_ADDR1 sample_fin "[]"]
  by (auto simp: sample_closing_def sample_fin_def get_uniflow_def peer_dir_def)

section \<open>Failing\<close>

lemma length_omap_insert_new:
  "map_of m k = None \<Longrightarrow> length (omap_insert k v m) = Suc (length m)"
  by (induction k v m rule: omap_insert.induct) (auto split: if_splits)

text \<open>Segments that are not the one waited for pile up, old ones like new ones.\<close>

lemma store_pile:
  assumes "data_segment p"
  shows "store_packet p u = Some (u\<lparr>m_packets := omap_insert (m_seq p) p (m_packets u)\<rparr>)"
  using assms by (simp add: store_packet_def data_segment_def)

lemma arrive_pile:
  assumes "map_of (m_flow s) (m_id ev) = Some f" "m_dir ev \<in> {FROM_ADDR1, FROM_ADDR2}" "data_segment p"
    and "m_events s \<in> {[], [ev]}"
  shows "\<exists>s'. exec_op ev (Arrive now p) (s, cs) = Some (s', cs) \<and> m_events s' = [ev] \<and>
    (\<exists>u. map_of (m_flow s') (m_id ev) = Some (put_uniflow (m_dir ev) u f) \<and>
      m_packets u = omap_insert (m_seq p) p (m_packets (get_uniflow (m_dir ev) f)) \<and>
      m_min_seq u = m_min_seq (get_uniflow (m_dir ev) f) \<and> m_is_rm u = m_is_rm (get_uniflow (m_dir ev) f))"
  using assms
  by (cases ev)
    (auto simp: input_lookup_def input_store_def store_pile event_insert_def Let_def
      intro!: exI [of _ "_\<lparr>m_time := _\<rparr>"])

lemma arrive_many:
  "map_of (m_flow s) (m_id ev) = Some f \<Longrightarrow> m_dir ev \<in> {FROM_ADDR1, FROM_ADDR2} \<Longrightarrow>
     m_events s \<in> {[], [ev]} \<Longrightarrow> \<forall>p \<in> set qs. data_segment p \<Longrightarrow> distinct (map m_seq qs) \<Longrightarrow>
     set (map m_seq qs) \<inter> dom (map_of (m_packets (get_uniflow (m_dir ev) f))) = {} \<Longrightarrow>
     \<exists>s' f'. exec_ops ev (map (Arrive now) qs) (s, cs) = Some (s', cs) \<and>
       m_events s' = (if qs = [] then m_events s else [ev]) \<and>
       map_of (m_flow s') (m_id ev) = Some f' \<and>
       length (m_packets (get_uniflow (m_dir ev) f')) =
         length (m_packets (get_uniflow (m_dir ev) f)) + length qs \<and>
       dom (map_of (m_packets (get_uniflow (m_dir ev) f'))) =
         set (map m_seq qs) \<union> dom (map_of (m_packets (get_uniflow (m_dir ev) f))) \<and>
       m_min_seq (get_uniflow (m_dir ev) f') = m_min_seq (get_uniflow (m_dir ev) f) \<and>
       m_is_rm (get_uniflow (m_dir ev) f') = m_is_rm (get_uniflow (m_dir ev) f)"
proof (induction qs arbitrary: s f)
  case (Cons q qs)
  let ?u = "get_uniflow (m_dir ev) f"
  have q: "data_segment q" and new: "map_of (m_packets ?u) (m_seq q) = None"
    using Cons.prems(4,6) by (auto simp: domIff)
  from arrive_pile [OF Cons.prems(1,2) q Cons.prems(3), of now cs] obtain s1 u where
    s1: "exec_op ev (Arrive now q) (s, cs) = Some (s1, cs)" "m_events s1 = [ev]"
      "map_of (m_flow s1) (m_id ev) = Some (put_uniflow (m_dir ev) u f)"
    and u: "m_packets u = omap_insert (m_seq q) q (m_packets ?u)" "m_min_seq u = m_min_seq ?u"
      "m_is_rm u = m_is_rm ?u" by blast
  have dom: "dom (map_of (m_packets u)) = insert (m_seq q) (dom (map_of (m_packets ?u)))"
    by (simp add: u(1))
  have "set (map m_seq qs) \<inter> dom (map_of (m_packets u)) = {}"
    unfolding dom using Cons.prems(5,6) by auto
  with Cons.IH [OF s1(3) Cons.prems(2) _ _ _ ] Cons.prems(4,5) s1(2) obtain s' f' where
    "exec_ops ev (map (Arrive now) qs) (s1, cs) = Some (s', cs)" "m_events s' = [ev]"
    "map_of (m_flow s') (m_id ev) = Some f'"
    "length (m_packets (get_uniflow (m_dir ev) f')) = length (m_packets u) + length qs"
    "dom (map_of (m_packets (get_uniflow (m_dir ev) f'))) = set (map m_seq qs) \<union> dom (map_of (m_packets u))"
    "m_min_seq (get_uniflow (m_dir ev) f') = m_min_seq u"
    "m_is_rm (get_uniflow (m_dir ev) f') = m_is_rm u" by auto
  moreover have "length (m_packets u) = Suc (length (m_packets ?u))"
    by (simp add: u(1) length_omap_insert_new [OF new])
  ultimately show ?case
    using s1(1) u dom by (intro exI [of _ s'] exI [of _ f']) auto
qed auto

text \<open>
  C24: more than 32 segments, none of which is the one waited for, end the connection: both directions
  are reported as failed and the flow is removed. Nothing is asked of their sequence numbers, so
  it happens as well when all of them were delivered before: the test that is meant to refuse an
  old segment never holds, and a peer that repeats itself loses its connection.
\<close>
theorem tcp_overload:
  assumes "map_of (m_flow s) (m_id ev) = Some f" "m_dir ev \<in> {FROM_ADDR1, FROM_ADDR2}" "m_events s = []"
    and "m_packets (get_uniflow (m_dir ev) f) = []" "\<not> m_is_rm (get_uniflow (m_dir ev) f)"
    and "\<forall>p \<in> set qs. data_segment p" "distinct (map m_seq qs)" "32 < length qs"
    and "m_min_seq (get_uniflow (m_dir ev) f) \<notin> set (map m_seq qs)"
  shows "\<exists>s'. exec_ops ev (map (Arrive now) qs @ [Round]) (s, []) =
    Some (s', [(STREAM_ERROR, IdDir (m_id ev) FROM_ADDR1, empty_bytes),
      (STREAM_ERROR, IdDir (m_id ev) FROM_ADDR2, empty_bytes)]) \<and>
    map_of (m_flow s') (m_id ev) = None"
proof -
  have "qs \<noteq> []" using assms(8) by auto
  with arrive_many [OF assms(1,2) _ assms(6,7), of now "[]"] assms(3,4) obtain s1 f1 where
    s1: "exec_ops ev (map (Arrive now) qs) (s, []) = Some (s1, [])" "m_events s1 = [ev]"
      "map_of (m_flow s1) (m_id ev) = Some f1"
    and f1: "length (m_packets (get_uniflow (m_dir ev) f1)) = length qs"
      "dom (map_of (m_packets (get_uniflow (m_dir ev) f1))) = set (map m_seq qs)"
      "m_min_seq (get_uniflow (m_dir ev) f1) = m_min_seq (get_uniflow (m_dir ev) f)"
      "m_is_rm (get_uniflow (m_dir ev) f1) = m_is_rm (get_uniflow (m_dir ev) f)" by auto
  let ?s2 = "s1\<lparr>m_events := []\<rparr>"
  have c: "run_collect ev ?s2 = Some (ev, ?s2, [])"
    using s1(3) f1(4) assms(5) by (auto simp: run_collect_def get_uniflow_def Let_def)
  have "m_min_seq (get_uniflow (m_dir ev) f1) \<notin> dom (map_of (m_packets (get_uniflow (m_dir ev) f1)))"
    using f1(2,3) assms(9) by simp
  then have "take_packet (get_uniflow (m_dir ev) f1) = None"
    by (simp add: take_packet_def domIff)
  then have "get_packet (m_id ev) (m_dir ev) ?s2 = None" using s1(3) by (simp add: get_packet_def)
  then have d: "drain ev ?s2 [] = Some (ev, ?s2, [])" by (rule drain_idle)
  have "num_packets (m_id ev) (m_dir ev) ?s2 > MAX_PACKETS"
    using s1(3) f1(1) assms(8) by (simp add: num_packets_def)
  with s1 c d show ?thesis
    by (simp add: exec_ops_append run_event_def run_limit_def rm_flow_def Let_def)
qed

text \<open>Thirty-three old segments of one byte, before the number that is waited for.\<close>

definition sample_old :: "cdpi_tcp_packet list" where
  "sample_old = map (\<lambda>n. sample_segment (word_of_nat n) [0]) [0..<33]"

lemma sample_old_props:
  "distinct (map m_seq sample_old)" "\<forall>p \<in> set sample_old. data_segment p \<and> unat (m_seq p) < 33"
  "length sample_old = 33"
proof -
  have inj: "unat (word_of_nat n :: 32 word) = n" if "n < 33" for n using that by (simp add: unat_of_nat)
  have "map m_seq sample_old = map (\<lambda>n. word_of_nat n) [0..<33]"
    by (simp add: sample_old_def sample_segment_def)
  moreover have "inj_on (\<lambda>n. word_of_nat n :: 32 word) {0..<33}"
    by (rule inj_onI) (metis atLeastLessThan_iff inj)
  ultimately show "distinct (map m_seq sample_old)" by (simp only: distinct_map) simp
  show "\<forall>p \<in> set sample_old. data_segment p \<and> unat (m_seq p) < 33"
    using inj by (auto simp: sample_old_def data_segment_def sample_segment_def)
qed (simp add: sample_old_def)

lemma tcp_overload_witness:
  "\<exists>s'. exec_ops sample_ev (map (Arrive 0) sample_old @ [Round]) (sample_tcp, []) =
    Some (s', [(STREAM_ERROR, IdDir (m_id sample_ev) FROM_ADDR1, empty_bytes),
      (STREAM_ERROR, IdDir (m_id sample_ev) FROM_ADDR2, empty_bytes)]) \<and>
    map_of (m_flow s') (m_id sample_ev) = None"
proof -
  let ?f = "\<lparr>m_flow1 = new_uniflow\<lparr>m_is_syn := True, m_min_seq := 0xFFFFFFFF\<rparr>, m_flow2 = new_uniflow\<rparr>"
  have f: "map_of (m_flow sample_tcp) (m_id sample_ev) = Some ?f" "m_dir sample_ev = FROM_ADDR1"
    "m_events sample_tcp = []" by (simp_all add: sample_tcp_def sample_ev_def)
  have "0xFFFFFFFF \<notin> set (map m_seq sample_old)" using sample_old_props(2) by force
  then show ?thesis
    using tcp_overload [OF f(1), of sample_old 0] f sample_old_props
    by (simp add: get_uniflow_def new_uniflow_def)
qed

section \<open>Collection\<close>

definition gc_result :: "int \<Rightarrow> cdpi_tcp_flow \<Rightarrow> cdpi_tcp_flow" where
  "gc_result now f = (case gc_flow now f of None \<Rightarrow> f | Some (dir, f') \<Rightarrow> f')"

lemma gc_flows_find:
  "map_of (fst (gc_flows now m es)) i = map_option (gc_result now) (map_of m i)"
  by (induction m arbitrary: es) (auto simp: gc_result_def case_prod_beta split: option.splits)

lemma gc_flows_events:
  "set es \<subseteq> set (snd (gc_flows now m es)) \<and>
     (\<forall>(i, f) \<in> set m. \<forall>dir f'. gc_flow now f = Some (dir, f') \<longrightarrow>
       IdDir i dir \<in> set (snd (gc_flows now m es)))"
proof (induction now m es rule: gc_flows.induct)
  case (2 now i f m es)
  show ?case
  proof (cases "gc_flow now f")
    case None
    then show ?thesis using 2(1) [OF None] by (auto simp: case_prod_beta)
  next
    case (Some p)
    obtain dir f' where p: "p = (dir, f')" by fastforce
    have "set es \<subseteq> set (event_insert (IdDir i dir) es)"
      "IdDir i dir \<in> set (event_insert (IdDir i dir) es)" by (auto simp: event_insert_def)
    with 2(2) [OF Some p [symmetric]] Some p show ?thesis by (fastforce simp: case_prod_beta)
  qed
qed simp

lemma gc_flow_marks:
  "gc_flow now f = Some (dir, f') \<Longrightarrow> dir \<in> {FROM_ADDR1, FROM_ADDR2} \<and> m_is_rm (get_uniflow dir f')"
  by (auto simp: gc_flow_def get_uniflow_def Let_def split: if_splits)

lemma run_event_marked:
  assumes "m_events s = IdDir i dir # es" "map_of (m_flow s) i = Some f"
    "dir \<in> {FROM_ADDR1, FROM_ADDR2}" "m_is_rm (get_uniflow dir f)"
  shows "\<exists>s'. run_event s = Some (s', [(STREAM_ERROR, IdDir i FROM_ADDR1, empty_bytes),
      (STREAM_ERROR, IdDir i FROM_ADDR2, empty_bytes)]) \<and> map_of (m_flow s') i = None"
proof -
  let ?errors = "[(STREAM_ERROR, IdDir i FROM_ADDR1, empty_bytes), (STREAM_ERROR, IdDir i FROM_ADDR2, empty_bytes)]"
  define s1 where "s1 = s\<lparr>m_events := es, m_flow := omap_erase i (m_flow s)\<rparr>"
  have gone: "map_of (m_flow s1) i = None" by (simp add: s1_def)
  have "run_collect (IdDir i dir) (s\<lparr>m_events := es\<rparr>) = Some (IdDir i FROM_ADDR2, s1, ?errors)"
    using assms(2-4) by (auto simp: run_collect_def rm_flow_def s1_def get_uniflow_def Let_def)
  moreover have "drain (IdDir i FROM_ADDR2) s1 ?errors = Some (IdDir i FROM_ADDR2, s1, ?errors)"
    using gone by (intro drain_idle) (simp add: get_packet_unknown)
  moreover have "run_limit (IdDir i FROM_ADDR2) s1 = (s1, [])"
    using gone by (simp add: run_limit_def num_packets_unknown Let_def)
  ultimately show ?thesis using assms(1) gone by (simp add: run_event_def)
qed

text \<open>
  C25: a connection of which only one side opened, and which was silent for more than 120 seconds, does
  not survive the collector: an event is queued for it, and the round of the delivering thread that
  takes the event reports both directions as failed and removes the flow. Flows that the test does not
  mark are left as they are.
\<close>
theorem tcp_collected:
  assumes "map_of (m_flow s) i = Some f" "dir \<in> {FROM_ADDR1, FROM_ADDR2}"
    and "m_is_syn (get_uniflow dir f)" "\<not> m_is_syn (get_uniflow (peer_dir dir) f)"
    and "now - m_time (get_uniflow dir f) > 120"
  shows "(\<exists>d. IdDir i d \<in> set (m_events (garbage_collector now s)) \<and>
      (\<forall>s1 es. m_events s1 = IdDir i d # es \<longrightarrow>
         map_of (m_flow s1) i = map_of (m_flow (garbage_collector now s)) i \<longrightarrow>
         (\<exists>s2. run_event s1 = Some (s2, [(STREAM_ERROR, IdDir i FROM_ADDR1, empty_bytes),
             (STREAM_ERROR, IdDir i FROM_ADDR2, empty_bytes)]) \<and> map_of (m_flow s2) i = None))) \<and>
    (\<forall>j g. map_of (m_flow s) j = Some g \<longrightarrow> gc_flow now g = None \<longrightarrow>
       map_of (m_flow (garbage_collector now s)) j = Some g)"
proof -
  obtain d f' where gc: "gc_flow now f = Some (d, f')"
  proof -
    have "gc_flow now f \<noteq> None"
      using assms(2-5) by (auto simp: gc_flow_def get_uniflow_def peer_dir_def Let_def)
    then show thesis using that by auto
  qed
  have find: "map_of (m_flow (garbage_collector now s)) j = map_option (gc_result now) (map_of (m_flow s) j)"
    for j
    by (simp add: garbage_collector_def case_prod_beta gc_flows_find)
  have "(i, f) \<in> set (m_flow s)" using assms(1) by (rule map_of_SomeD)
  with gc_flows_events [of "m_events s" now "m_flow s"] gc
  have ev: "IdDir i d \<in> set (m_events (garbage_collector now s))"
    by (auto simp: garbage_collector_def case_prod_beta)
  have f': "map_of (m_flow (garbage_collector now s)) i = Some f'"
    using assms(1) gc by (simp add: find gc_result_def)
  show ?thesis
    using ev f' run_event_marked gc_flow_marks [OF gc] by (auto simp: find gc_result_def)
qed

lemma tcp_collected_witness:
  "IdDir (m_id sample_ev) FROM_ADDR1 \<in> set (m_events (garbage_collector 121 sample_tcp)) \<or>
   IdDir (m_id sample_ev) FROM_ADDR2 \<in> set (m_events (garbage_collector 121 sample_tcp)) \<or>
   IdDir (m_id sample_ev) FROM_NONE \<in> set (m_events (garbage_collector 121 sample_tcp))"
proof -
  have "\<exists>d. IdDir (m_id sample_ev) d \<in> set (m_events (garbage_collector 121 sample_tcp))"
    using tcp_collected [of sample_tcp "m_id sample_ev" "snd (hd (m_flow sample_tcp))" FROM_ADDR1 121]
    by (auto simp: sample_tcp_def get_uniflow_def peer_dir_def new_uniflow_def)
  then show ?thesis by (metis cdpi_direction.exhaust)
qed

end
