(* ===== verification/Numbers.thy ===== *)
theory Numbers
  imports Prelude
begin

text \<open>
  Numbers as text: what the extraction operators of \<open>std::istream\<close> and \<open>atoi\<close> read and what the
  insertion operators and \<open>printf\<close> write.
\<close>

section \<open>Reading numbers\<close>

text \<open>
  \<open>stream >> n\<close> for an \<open>int\<close>: white space is skipped, then come a sign and digits. \<open>None\<close>: the
  stream was empty, so that the variable is left alone. Without digits it becomes 0, and a number out
  of range becomes the nearest bound.
\<close>

definition is_space :: "byte \<Rightarrow> bool" where
  "is_space c \<longleftrightarrow> c = 0x20 \<or> 9 \<le> c \<and> c \<le> 13"

definition digit_value :: "byte \<Rightarrow> int option" where
  "digit_value c =
     (if 0x30 \<le> c \<and> c \<le> 0x39 then Some (uint c - 0x30)
      else if 0x61 \<le> c \<and> c \<le> 0x66 then Some (uint c - 0x61 + 10)
      else if 0x41 \<le> c \<and> c \<le> 0x46 then Some (uint c - 0x41 + 10)
      else None)"

definition is_digit_of :: "int \<Rightarrow> byte \<Rightarrow> bool" where
  "is_digit_of base c = (case digit_value c of None \<Rightarrow> False | Some d \<Rightarrow> d < base)"

fun digits_value :: "int \<Rightarrow> int \<Rightarrow> byte list \<Rightarrow> int" where
  "digits_value base acc [] = acc"
| "digits_value base acc (c # cs) =
     (case digit_value c of None \<Rightarrow> acc | Some d \<Rightarrow> digits_value base (acc * base + d) cs)"

definition clamp_int :: "int \<Rightarrow> int" where
  "clamp_int n = max (- 2147483648) (min 2147483647 n)"

definition read_int :: "int \<Rightarrow> byte list \<Rightarrow> int option" where
  "read_int base xs =
     (let ys = dropWhile is_space xs;
          neg = (ys \<noteq> [] \<and> hd ys = 0x2D);
          zs = (if ys \<noteq> [] \<and> (hd ys = 0x2D \<or> hd ys = 0x2B) then tl ys else ys);
          us = (if base = 16 \<and> length zs > 1 \<and> zs ! 0 = 0x30 \<and> (zs ! 1 = 0x78 \<or> zs ! 1 = 0x58)
                then drop 2 zs else zs);
          ds = takeWhile (is_digit_of base) us
      in if ys = [] then None
         else Some (clamp_int ((if neg then - 1 else 1) * digits_value base 0 ds)))"

text \<open>
  \<open>atoi\<close>: the number as a \<open>long\<close>, the nearest bound when it is out of range, narrowed to 32 bits as
  the C library does.
\<close>

definition clamp_long :: "int \<Rightarrow> int" where
  "clamp_long n = max (- 9223372036854775808) (min 9223372036854775807 n)"

definition atoi :: "byte list \<Rightarrow> int" where
  "atoi xs =
     (let ys = dropWhile is_space xs;
          neg = (ys \<noteq> [] \<and> hd ys = 0x2D);
          zs = (if ys \<noteq> [] \<and> (hd ys = 0x2D \<or> hd ys = 0x2B) then tl ys else ys)
      in sint (word_of_int (clamp_long ((if neg then - 1 else 1) * digits_value 10 0 (takeWhile (is_digit_of 10) zs))) :: 32 word))"

section \<open>Writing numbers\<close>

definition digit_char :: "nat \<Rightarrow> byte" where
  "digit_char d = (if d < 10 then 0x30 + word_of_nat d else 0x57 + word_of_nat d)"

fun num_text :: "nat \<Rightarrow> nat \<Rightarrow> byte list" where
  "num_text b n = (if b < 2 \<or> n < b then [digit_char n] else num_text b (n div b) @ [digit_char (n mod b)])"

declare num_text.simps [simp del]

lemma digit_chars:
  "\<forall>d \<in> set [0..<16]. digit_value (digit_char d) = Some (int d) \<and> \<not> is_space (digit_char d) \<and>
     digit_char d \<notin> {0x2D, 0x2B, 0, LF, CR, SP} \<and> (digit_char d = 0x30 \<longleftrightarrow> d = 0)"
  by code_simp

lemma digit_char_simps:
  assumes "d < 16"
  shows "digit_value (digit_char d) = Some (int d)" "\<not> is_space (digit_char d)"
    "digit_char d \<noteq> 0x2D" "digit_char d \<noteq> 0x2B" "digit_char d \<noteq> 0" "digit_char d \<noteq> LF" "digit_char d \<noteq> CR"
    "digit_char d \<noteq> SP"
    "digit_char d = 0x30 \<longleftrightarrow> d = 0"
  using digit_chars assms by auto

lemma num_text_ne [simp]: "num_text b n \<noteq> []"
  by (subst num_text.simps) simp

lemma num_text_digits: "2 \<le> b \<Longrightarrow> c \<in> set (num_text b n) \<Longrightarrow> \<exists>d < b. c = digit_char d"
proof (induction b n rule: num_text.induct)
  case (1 b n)
  have "n mod b < b" using "1.prems"(1) by simp
  with 1 show ?case
    by (subst (asm) (2) num_text.simps) (cases "n < b"; auto intro: exI [of _ "n mod b"])
qed

lemma digits_value_append:
  "(\<And>c. c \<in> set xs \<Longrightarrow> digit_value c \<noteq> None) \<Longrightarrow>
     digits_value b acc (xs @ ys) = digits_value b (digits_value b acc xs) ys"
proof (induction xs arbitrary: acc)
  case (Cons x xs)
  from Cons.prems [of x] obtain d where "digit_value x = Some d" by auto
  with Cons show ?case by simp
qed simp

lemma digits_value_num_text:
  "2 \<le> b \<Longrightarrow> b \<le> 16 \<Longrightarrow> digits_value (int b) 0 (num_text b n) = int n"
proof (induction b n rule: num_text.induct)
  case (1 b n)
  have d: "c \<in> set (num_text b (n div b)) \<Longrightarrow> digit_value c \<noteq> None" for c
    using num_text_digits [OF "1.prems"(1), of c "n div b"] "1.prems"(2) by (auto simp: digit_char_simps)
  show ?case
  proof (cases "n < b")
    case True
    with "1.prems" show ?thesis by (subst num_text.simps) (simp add: digit_char_simps)
  next
    case False
    with "1.prems" have "n mod b < 16" by (metis le_less_trans less_le_trans mod_less_divisor not_numeral_le_zero zero_less_iff_neq_zero order_less_le_trans)
    with False "1.IH" "1.prems" show ?thesis
      by (subst num_text.simps)
        (simp add: digits_value_append d digit_char_simps flip: of_nat_mult of_nat_add)
  qed
qed

lemma hd_num_text: "2 \<le> b \<Longrightarrow> b \<le> 16 \<Longrightarrow> hd (num_text b n) = 0x30 \<Longrightarrow> n = 0"
proof (induction b n rule: num_text.induct)
  case (1 b n)
  show ?case
  proof (cases "n < b")
    case True
    with "1.prems" show ?thesis by (subst (asm) num_text.simps) (simp add: digit_char_simps)
  next
    case False
    with "1.prems" have "num_text b n = num_text b (n div b) @ [digit_char (n mod b)]"
      by (subst num_text.simps) simp
    with False "1.IH" "1.prems" have "n div b = 0" by simp
    with False "1.prems" show ?thesis by (simp add: div_eq_0_iff)
  qed
qed

text \<open>\<open>r\<close> is what follows the number.\<close>

lemma read_int_num_text:
  assumes "b = 10 \<or> b = 16" "r = [] \<or> \<not> is_digit_of (int b) (hd r) \<and> hd r \<noteq> 0x78 \<and> hd r \<noteq> 0x58"
    and "n < 2147483648"
  shows "read_int (int b) (num_text b n @ r) = Some (int n)"
proof -
  let ?t = "num_text b n"
  have b: "2 \<le> b" "b \<le> 16" using assms(1) by auto
  have dig: "c \<in> set ?t \<Longrightarrow> is_digit_of (int b) c \<and> \<not> is_space c \<and> c \<noteq> 0x2D \<and> c \<noteq> 0x2B" for c
    using num_text_digits [OF b(1), of c n] b(2) by (auto simp: digit_char_simps is_digit_of_def)
  have hd: "hd ?t \<in> set ?t" by simp
  then have ds: "dropWhile is_space (?t @ r) = ?t @ r" using dig by (cases ?t) auto
  have x: "\<not> (length (?t @ r) > 1 \<and> (?t @ r) ! 0 = 0x30 \<and> ((?t @ r) ! 1 = 0x78 \<or> (?t @ r) ! 1 = 0x58))"
  proof (cases "hd ?t = 0x30")
    case True
    then have "n = 0" using hd_num_text b by blast
    then have "?t = [0x30]" using b by (simp add: num_text.simps digit_char_def)
    with assms(2) show ?thesis by (cases r) auto
  next
    case False
    then show ?thesis by (cases ?t) auto
  qed
  have "takeWhile (is_digit_of (int b)) (?t @ r) = ?t"
    using dig assms(2) by (cases r) (auto simp: takeWhile_append takeWhile_eq_all_conv)
  moreover have "hd (?t @ r) \<noteq> 0x2D" "hd (?t @ r) \<noteq> 0x2B" using dig [OF hd] by auto
  ultimately show ?thesis
    using x digits_value_num_text [OF b] assms(3)
    by (auto simp: read_int_def ds clamp_int_def Let_def)
qed

text \<open>The decimal text of an \<open>int\<close>.\<close>

definition int_text :: "int \<Rightarrow> byte list" where
  "int_text n = (if n < 0 then 0x2D # num_text 10 (nat (- n)) else num_text 10 (nat n))"

lemma num_text_dec:
  assumes "c \<in> set (num_text 10 n)"
  shows "0x30 \<le> c \<and> c \<le> 0x39" "is_digit_of 10 c" "\<not> is_space c" "c \<noteq> 0x2D" "c \<noteq> 0x2B"
proof -
  have "\<forall>d \<in> set [0..<10]. 0x30 \<le> digit_char d \<and> digit_char d \<le> 0x39" by code_simp
  then show "0x30 \<le> c \<and> c \<le> 0x39" using num_text_digits [of 10 c n] assms by auto
qed (use assms num_text_digits [of 10 c n] in \<open>auto simp: digit_char_simps is_digit_of_def\<close>)

text \<open>What is written is read back; \<open>2 ^ 31\<close> bounds what an \<open>int\<close> holds.\<close>

lemma atoi_int_text:
  assumes "- 2147483648 \<le> n" "n < 2147483648"
  shows "atoi (int_text n) = n"
proof -
  have d: "takeWhile (is_digit_of 10) (num_text 10 m) = num_text 10 m" for m
    using num_text_dec(2) [of _ m] by (subst takeWhile_eq_all_conv) blast
  have v: "digits_value 10 0 (num_text 10 m) = int m" for m
    using digits_value_num_text [of 10 m] by simp
  have s: "sint (word_of_int (clamp_long n) :: 32 word) = n"
    using assms by (simp add: clamp_long_def sint_sbintrunc' signed_take_bit_int_eq_self)
  show ?thesis
  proof (cases "n < 0")
    case True
    then have "dropWhile is_space (int_text n) = int_text n" by (simp add: int_text_def is_space_def)
    with True s show ?thesis by (simp add: atoi_def int_text_def d v)
  next
    case False
    have h: "hd (num_text 10 (nat n)) \<in> set (num_text 10 (nat n))" by simp
    from num_text_dec(3-5) [OF h] False
    have "dropWhile is_space (int_text n) = int_text n" "hd (int_text n) \<noteq> 0x2D" "hd (int_text n) \<noteq> 0x2B"
      by (cases "num_text 10 (nat n)"; auto simp: int_text_def)+
    with False s show ?thesis by (simp add: atoi_def int_text_def d v)
  qed
qed

end
