(* ===== verification/Http.thy ===== *)
theory Http
  imports Bytes Event Numbers
begin

text \<open>
  \<open>cdpi_http.hpp\<close> and \<open>cdpi_http.cpp\<close>: the incremental parser of one direction of an HTTP connection.
  An operation works on the parser object, the blocks that have not been parsed, and the queue of
  methods of the peer's parser, which the server side takes from. Exceptions keep what was done
  before them, so they are outcomes and not faults.
\<close>

section \<open>State\<close>

datatype http_state =
    HTTP_METHOD
  | HTTP_RESPONSE
  | HTTP_HEAD
  | HTTP_BODY
  | HTTP_CHUNK_LEN
  | HTTP_CHUNK_BODY
  | HTTP_CHUNK_EL
  | HTTP_CHUNK_TRAILER

text \<open>\<open>m_method\<close> is the queue with its front first.\<close>

record cdpi_http =
  m_type :: cdpi_proto_type
  m_state :: http_state
  m_method :: "byte list list"
  m_uri :: "byte list"
  m_ver :: "byte list"
  m_code :: "byte list"
  m_res_msg :: "byte list"
  m_header :: "(byte list, byte list) omap"
  m_trailer :: "(byte list, byte list) omap"
  m_mime_to_read :: "byte list set"
  m_body_read :: int
  m_chunk_len :: int
  m_content :: cdpi_bytes
  m_chunks :: "cdpi_bytes list"

definition new_http :: "cdpi_proto_type \<Rightarrow> int \<Rightarrow> cdpi_http" where
  "new_http type undef = \<lparr>m_type = type,
     m_state = (if type = PROTO_HTTP_CLIENT then HTTP_METHOD else HTTP_RESPONSE),
     m_method = [], m_uri = [], m_ver = [], m_code = [], m_res_msg = [], m_header = [],
     m_trailer = [], m_mime_to_read = {}, m_body_read = 0, m_chunk_len = undef,
     m_content = empty_bytes, m_chunks = []\<rparr>"

text \<open>
  What the code takes from outside. \<open>e_listen\<close> is the effect of the listener on the parser: it may
  add and remove media types. \<open>e_fresh\<close> is the content of new memory, \<open>e_undef\<close> the value of the
  variable \<open>content_len\<close> when nothing is read into it, and \<open>e_junk\<close> what is in the buffer of
  \<open>parse_chunk_len\<close> behind the bytes that were read.
\<close>

record http_env =
  e_listen :: "cdpi_event \<Rightarrow> cdpi_http \<Rightarrow> byte list set"
  e_fresh :: "nat \<Rightarrow> byte"
  e_undef :: int
  e_junk :: "byte list"

text \<open>
  The world of one call: \<open>w_out\<close> are the calls of the listener, each with the parser as the listener
  sees it.
\<close>

record http_world =
  w_http :: cdpi_http
  w_peer :: "byte list list option"
  w_bytes :: "cdpi_bytes list"
  w_out :: "(cdpi_event \<times> cdpi_http) list"

text \<open>\<open>More\<close> and \<open>Done\<close> are the results true and false.\<close>

datatype http_exit = More | Done | Throw_parse_error | Throw_proxy

definition emit :: "http_env \<Rightarrow> cdpi_event \<Rightarrow> http_world \<Rightarrow> http_world" where
  "emit env ev w =
     w\<lparr>w_http := (w_http w)\<lparr>m_mime_to_read := e_listen env ev (w_http w)\<rparr>,
       w_out := w_out w @ [(ev, w_http w)]\<rparr>"

definition upd_http :: "(cdpi_http \<Rightarrow> cdpi_http) \<Rightarrow> http_world \<Rightarrow> http_world" where
  "upd_http f w = w\<lparr>w_http := f (w_http w)\<rparr>"

text \<open>\<open>skip_bytes\<close> on the blocks that are left.\<close>

definition skip_w :: "int \<Rightarrow> http_world \<Rightarrow> http_world result" where
  "skip_w n w = bindR (skip_bytes (w_bytes w) n 0) (\<lambda>(bs, k). Inr (w\<lparr>w_bytes := bs\<rparr>))"

section \<open>Headers\<close>

definition set_header :: "byte list \<Rightarrow> byte list \<Rightarrow> cdpi_http \<Rightarrow> cdpi_http" where
  "set_header key val h = h\<lparr>m_header := omap_insert (to_lower_str key) val (m_header h)\<rparr>"

definition set_trailer :: "byte list \<Rightarrow> byte list \<Rightarrow> cdpi_http \<Rightarrow> cdpi_http" where
  "set_trailer key val h = h\<lparr>m_trailer := omap_insert (to_lower_str key) val (m_trailer h)\<rparr>"

definition get_header :: "cdpi_http \<Rightarrow> byte list \<Rightarrow> byte list" where
  "get_header h key =
     (case map_of (m_header h) (to_lower_str key) of None \<Rightarrow> [] | Some v \<Rightarrow> v)"

definition get_trailer :: "cdpi_http \<Rightarrow> byte list \<Rightarrow> byte list" where
  "get_trailer h key =
     (case map_of (m_trailer h) (to_lower_str key) of None \<Rightarrow> [] | Some v \<Rightarrow> v)"

definition get_header_keys :: "cdpi_http \<Rightarrow> byte list list" where
  "get_header_keys h = map fst (m_header h)"

definition get_trailer_keys :: "cdpi_http \<Rightarrow> byte list list" where
  "get_trailer_keys h = map fst (m_trailer h)"

definition get_method :: "cdpi_http \<Rightarrow> byte list" where
  "get_method h = (if m_method h \<noteq> [] then last (m_method h) else [])"

definition add_mime_to_read :: "byte list \<Rightarrow> cdpi_http \<Rightarrow> cdpi_http" where
  "add_mime_to_read mime h = h\<lparr>m_mime_to_read := insert mime (m_mime_to_read h)\<rparr>"

definition del_mime_to_raed :: "byte list \<Rightarrow> cdpi_http \<Rightarrow> cdpi_http" where
  "del_mime_to_raed mime h = h\<lparr>m_mime_to_read := m_mime_to_read h - {mime}\<rparr>"

definition is_in_mime_to_read :: "cdpi_http \<Rightarrow> bool" where
  "is_in_mime_to_read h =
     (let ctype = get_header h (str ''content-type''); n = find_char ctype 0x3B;
          mime = (if n < 0 then ctype else take (nat n) ctype)
      in mime \<in> m_mime_to_read h)"

section \<open>The first line\<close>

text \<open>
  The three fields of a line, separated by two spaces and ended by the line break: the rest after the
  second space, without the carriage return.
\<close>

definition strip_cr :: "byte list \<Rightarrow> int \<Rightarrow> byte list" where
  "strip_cr p n =
     (if n > 0 \<and> p ! nat (n - 1) = CR then take (nat (n - 1)) p else take (nat n) p)"

definition clear_message :: "cdpi_http \<Rightarrow> cdpi_http" where
  "clear_message h = h\<lparr>m_header := [], m_content := clear_bytes (m_content h), m_chunks := []\<rparr>"

definition parse_method :: "http_env \<Rightarrow> http_world \<Rightarrow> (http_exit \<times> http_world) result" where
  "parse_method env w =
     (let buf = read_bytes_ec (w_bytes w) 4096 LF [] in
      if buf = [] \<or> last buf \<noteq> LF then Inr (Done, w)
      else
        let w0 = upd_http clear_message w; n = find_char buf SP in
        if n < 0 then Inr (Throw_parse_error, w0)
        else
          let w1 = upd_http (\<lambda>h. h\<lparr>m_method := m_method h @ [take (nat n) buf]\<rparr>) w0;
              p = drop (nat n + 1) buf; n2 = find_char p SP in
          if n2 < 0 then Inr (Throw_parse_error, w1)
          else
            let w2 = upd_http (\<lambda>h. h\<lparr>m_uri := take (nat n2) p\<rparr>) w1;
                p2 = drop (nat n2 + 1) p; n3 = find_char p2 LF in
            if n3 < 0 then Inr (Throw_parse_error, w2)
            else
              let w3 = upd_http (\<lambda>h. h\<lparr>m_ver := strip_cr p2 n3\<rparr>) w2 in
              bindR (skip_w (int (length buf)) w3) (\<lambda>w4.
                Inr (More, emit env CDPI_EVENT_HTTP_READ_METHOD
                  (upd_http (\<lambda>h. h\<lparr>m_state := HTTP_HEAD\<rparr>) w4))))"

definition parse_response :: "http_env \<Rightarrow> http_world \<Rightarrow> (http_exit \<times> http_world) result" where
  "parse_response env w =
     (let buf = read_bytes_ec (w_bytes w) 4096 LF [] in
      if buf = [] \<or> last buf \<noteq> LF then Inr (Done, w)
      else
        let w0 = upd_http clear_message w; n = find_char buf SP in
        if n < 0 then Inr (Throw_parse_error, w0)
        else
          let w1 = upd_http (\<lambda>h. h\<lparr>m_ver := take (nat n) buf\<rparr>) w0;
              p = drop (nat n + 1) buf; n2 = find_char p SP in
          if n2 < 0 then Inr (Throw_parse_error, w1)
          else
            let w2 = upd_http (\<lambda>h. h\<lparr>m_code := take (nat n2) p\<rparr>) w1;
                p2 = drop (nat n2 + 1) p; n3 = find_char p2 LF in
            if n3 < 0 then Inr (Throw_parse_error, w2)
            else
              let w3 = upd_http (\<lambda>h. h\<lparr>m_res_msg := strip_cr p2 n3\<rparr>) w2 in
              bindR (skip_w (int (length buf)) w3) (\<lambda>w4.
                Inr (More, emit env CDPI_EVENT_HTTP_READ_RESPONSE
                  (upd_http (\<lambda>h. h\<lparr>m_state := HTTP_HEAD\<rparr>) w4))))"

section \<open>The header lines\<close>

definition set_state :: "http_state \<Rightarrow> http_world \<Rightarrow> http_world" where
  "set_state st = upd_http (\<lambda>h. h\<lparr>m_state := st\<rparr>)"

text \<open>The end of the headers of a request; \<open>len\<close> is the length of the empty line.\<close>

definition head_end_client :: "http_env \<Rightarrow> int \<Rightarrow> http_world \<Rightarrow> (http_exit \<times> http_world) result" where
  "head_end_client env len w =
     bindR (skip_w len w) (\<lambda>w1.
       if m_state (w_http w1) = HTTP_CHUNK_TRAILER then
         Inr (More, emit env CDPI_EVENT_HTTP_READ
           (emit env CDPI_EVENT_HTTP_READ_TRAILER (set_state HTTP_METHOD w1)))
       else if m_method (w_http w1) = [] then Inl EmptyQueue
       else if last (m_method (w_http w1)) = str ''CONNECT'' then
         Inr (Throw_proxy, emit env CDPI_EVENT_HTTP_PROXY (emit env CDPI_EVENT_HTTP_READ_HEAD w1))
       else
         let con_len = get_header (w_http w1) (str ''content-length'');
             tr_enc = to_lower_str (get_header (w_http w1) (str ''transfer-encoding''));
             w2 = (if con_len \<noteq> [] then set_state HTTP_BODY w1
                   else if tr_enc = str ''chunked'' then set_state HTTP_CHUNK_LEN w1
                   else emit env CDPI_EVENT_HTTP_READ (set_state HTTP_METHOD w1))
         in Inr (More, emit env CDPI_EVENT_HTTP_READ_HEAD w2))"

text \<open>
  The end of the headers of a response, which waits for the method of the request. The method is
  taken from the queue here, and again at the end of the trailers of the same response.
\<close>

definition head_end_server :: "http_env \<Rightarrow> int \<Rightarrow> http_world \<Rightarrow> (http_exit \<times> http_world) result" where
  "head_end_server env len w =
     (case w_peer w of
        None \<Rightarrow> Inr (Done, w)
      | Some [] \<Rightarrow> Inr (Done, w)
      | Some (method # rest) \<Rightarrow>
          bindR (skip_w len (w\<lparr>w_peer := Some rest\<rparr>)) (\<lambda>w1.
            let code = m_code (w_http w1) in
            if m_state (w_http w1) = HTTP_CHUNK_TRAILER then
              Inr (More, emit env CDPI_EVENT_HTTP_READ
                (emit env CDPI_EVENT_HTTP_READ_TRAILER (set_state HTTP_RESPONSE w1)))
            else if method = str ''CONNECT'' \<and> code = str ''200'' then
              Inr (Throw_proxy, emit env CDPI_EVENT_HTTP_PROXY (emit env CDPI_EVENT_HTTP_READ_HEAD w1))
            else if method = str ''HEAD'' \<or> code = str ''204'' \<or> code = str ''205'' \<or> code = str ''304'' then
              Inr (More, emit env CDPI_EVENT_HTTP_READ (set_state HTTP_RESPONSE w1))
            else
              let tr_enc = get_header (w_http w1) (str ''transfer-encoding'') in
              Inr (More, emit env CDPI_EVENT_HTTP_READ_HEAD
                (set_state (if tr_enc = str ''chunked'' then HTTP_CHUNK_LEN else HTTP_BODY) w1))))"

text \<open>
  One header line: \<open>None\<close> when it is stepped over, otherwise its key and value. The value ends
  at the first carriage return, line break or zero byte.
\<close>

definition header_field :: "byte list \<Rightarrow> (byte list \<times> byte list) option" where
  "header_field buf =
     (let pos = find_char buf 0x3A in
      if pos < 0 then None
      else
        let p = dropWhile (\<lambda>c. c = SP) (drop (nat pos + 1) buf) in
        if p = [] then None
        else Some (take (nat pos) buf, takeWhile (\<lambda>c. c \<noteq> CR \<and> c \<noteq> LF \<and> c \<noteq> 0) p))"

text \<open>
  \<open>parse_head\<close> reads lines until the empty one. \<open>if (HTTP_HEAD)\<close> tests the constant of the
  enumeration, which is not 0, so every field becomes a header.
\<close>

definition http_head_const :: int where
  "http_head_const = 2"

definition is_empty_line :: "byte list \<Rightarrow> bool" where
  "is_empty_line buf \<longleftrightarrow> buf = [CR, LF] \<or> buf = [LF]"

fun store_field :: "(byte list \<times> byte list) option \<Rightarrow> http_world \<Rightarrow> http_world" where
  "store_field None w = w"
| "store_field (Some (key, val)) w =
     (if http_head_const \<noteq> 0 then upd_http (set_header key val) w
      else upd_http (set_trailer key val) w)"

lemma skip_w_size:
  "skip_w n w = Inr w' \<Longrightarrow> 0 < n \<Longrightarrow> w_bytes w \<noteq> [] \<Longrightarrow>
     block_size (w_bytes w') < block_size (w_bytes w)"
  by (auto simp: skip_w_def bindR_eq_Inr dest: skip_bytes_size)

lemma read_bytes_ec_blocks: "read_bytes_ec bs n c [] \<noteq> [] \<Longrightarrow> bs \<noteq> []"
  by auto

text \<open>The loop of \<open>parse_head\<close>.\<close>

function parse_head :: "http_env \<Rightarrow> http_world \<Rightarrow> (http_exit \<times> http_world) result" where
  "parse_head env w =
     (let buf = read_bytes_ec (w_bytes w) 8192 LF []; len = int (length buf) in
      if buf = [] \<or> last buf \<noteq> LF then Inr (Done, w)
      else if is_empty_line buf then
        (if m_type (w_http w) = PROTO_HTTP_CLIENT then head_end_client env len w
         else if m_type (w_http w) = PROTO_HTTP_SERVER then head_end_server env len w
         else Inr (Throw_parse_error, w))
      else bindR (skip_w len (store_field (header_field buf) w)) (parse_head env))"
  by pat_completeness auto
termination
proof (relation "measure (\<lambda>(env, w). block_size (w_bytes w))", goal_cases)
  case (2 env w buf len w')
  have "w_bytes (store_field f w) = w_bytes w" for f by (cases "(f, w)" rule: store_field.cases) (auto simp: upd_http_def)
  with 2 skip_w_size [of len "store_field (header_field buf) w" w'] read_bytes_ec_blocks [of "w_bytes w"]
  show ?case by auto
qed simp

declare parse_head.simps [simp del]

section \<open>The body\<close>

definition content_length :: "http_env \<Rightarrow> cdpi_http \<Rightarrow> int" where
  "content_length env h =
     (case read_int 10 (get_header h (str ''content-length'')) of None \<Rightarrow> e_undef env | Some n \<Rightarrow> n)"

text \<open>\<open>read_bytes\<close> into the array of a block, from index \<open>pos\<close> on.\<close>

definition read_into :: "cdpi_bytes list \<Rightarrow> int \<Rightarrow> int \<Rightarrow> cdpi_bytes \<Rightarrow> cdpi_bytes result" where
  "read_into bs len pos b =
     bindR (read_bytes bs len []) (\<lambda>xs.
       case m_ptr b of
         None \<Rightarrow> Inl NullPointer
       | Some a \<Rightarrow>
           if pos < 0 \<or> pos + int (length xs) > int (length a) then Inl OutOfBounds
           else Inr (b\<lparr>m_ptr := Some (overwrite a (nat pos) xs)\<rparr>))"

text \<open>The loop that moves the body from the blocks to the content, 1024 bytes at a time.\<close>

function body_loop :: "int \<Rightarrow> http_world \<Rightarrow> http_world result" where
  "body_loop content_len w =
     (let h = w_http w; len = min (content_len - m_body_read h) 1024 in
      if m_body_read h \<ge> content_len then Inr w
      else bindR (if m_len (m_content h) > 0
                  then read_into (w_bytes w) len (m_body_read h) (m_content h)
                  else Inr (m_content h)) (\<lambda>content.
        bindR (skip_bytes (w_bytes w) len 0) (\<lambda>(bs, k).
          let w1 = (upd_http (\<lambda>h. h\<lparr>m_content := content\<rparr>) w)\<lparr>w_bytes := bs\<rparr> in
          if k = 0 then Inr w1
          else body_loop content_len (upd_http (\<lambda>h. h\<lparr>m_body_read := m_body_read h + k\<rparr>) w1))))"
  by pat_completeness auto
termination
proof (relation "measure (\<lambda>(content_len, w). block_size (w_bytes w))", goal_cases)
  case (2 content_len w h len content r bs k w1)
  then have "w_bytes w \<noteq> []" by auto
  with 2 skip_bytes_size [of "w_bytes w" len 0 bs k] show ?case by (auto simp: upd_http_def)
qed simp

declare body_loop.simps [simp del]

text \<open>\<open>parse_body\<close>: the content is allocated when its type is one to be read.\<close>

definition alloc_content :: "http_env \<Rightarrow> int \<Rightarrow> http_world \<Rightarrow> http_world result" where
  "alloc_content env n w =
     bindR (alloc (e_fresh env) n (m_content (w_http w))) (\<lambda>b.
       Inr (upd_http (\<lambda>h. h\<lparr>m_content := b\<rparr>) w))"

definition parse_body :: "http_env \<Rightarrow> http_world \<Rightarrow> (http_exit \<times> http_world) result" where
  "parse_body env w =
     (let content_len = content_length env (w_http w) in
      bindR (if is_in_mime_to_read (w_http w) \<and> m_len (m_content (w_http w)) = 0
             then alloc_content env content_len w else Inr w) (\<lambda>w1.
        bindR (body_loop content_len w1) (\<lambda>w2.
          if m_body_read (w_http w2) \<ge> content_len then
            (if m_type (w_http w2) = PROTO_HTTP_CLIENT \<or> m_type (w_http w2) = PROTO_HTTP_SERVER then
               let w3 = set_state (if m_type (w_http w2) = PROTO_HTTP_CLIENT then HTTP_METHOD
                                   else HTTP_RESPONSE) w2;
                   w4 = emit env CDPI_EVENT_HTTP_READ w3
               in Inr (More, emit env CDPI_EVENT_HTTP_READ_BODY
                    (upd_http (\<lambda>h. h\<lparr>m_body_read := 0\<rparr>) w4))
             else Inr (Done, w2))
          else Inr (Done, w2))))"

section \<open>Chunks\<close>

text \<open>
  The number is read from the buffer up to its first zero byte, which is behind the line when the
  line has none.
\<close>

definition store_chunk_len :: "http_env \<Rightarrow> byte list \<Rightarrow> http_world \<Rightarrow> http_world" where
  "store_chunk_len env buf w =
     (case read_int 16 (takeWhile (\<lambda>c. c \<noteq> 0) (buf @ e_junk env)) of
        None \<Rightarrow> w
      | Some n \<Rightarrow> upd_http (\<lambda>h. h\<lparr>m_chunk_len := n\<rparr>) w)"

text \<open>The block for the chunk that was announced; a length of 0 announces the trailers.\<close>

definition open_chunk :: "http_env \<Rightarrow> http_world \<Rightarrow> http_world result" where
  "open_chunk env w =
     (if m_chunk_len (w_http w) = 0 then Inr (set_state HTTP_CHUNK_TRAILER w)
      else bindR (if is_in_mime_to_read (w_http w)
                  then bindR (alloc (e_fresh env) (m_chunk_len (w_http w)) empty_bytes) (\<lambda>b.
                    Inr (upd_http (\<lambda>h. h\<lparr>m_chunks := m_chunks h @ [b]\<rparr>) w))
                  else Inr w) (\<lambda>w1. Inr (set_state HTTP_CHUNK_BODY w1)))"

definition parse_chunk_len :: "http_env \<Rightarrow> http_world \<Rightarrow> (http_exit \<times> http_world) result" where
  "parse_chunk_len env w =
     (let buf = read_bytes_ec (w_bytes w) 128 LF [] in
      if buf = [] then Inr (Done, w)
      else if last buf \<noteq> LF then Inr (Throw_parse_error, w)
      else bindR (open_chunk env (store_chunk_len env buf w)) (\<lambda>w1.
        bindR (skip_w (int (length buf)) w1) (\<lambda>w2. Inr (More, w2))))"

text \<open>The loop of \<open>parse_chunk_body\<close>; \<open>m_chunks.back()\<close> shares its array with the copy that is written.\<close>

function chunk_loop :: "http_world \<Rightarrow> http_world result" where
  "chunk_loop w =
     (let h = w_http w; len = min (m_chunk_len h - m_body_read h) 1024 in
      if m_body_read h \<ge> m_chunk_len h then Inr w
      else bindR (if is_in_mime_to_read h
                  then if m_chunks h = [] then Inl EmptyQueue
                       else bindR (read_into (w_bytes w) len (m_body_read h) (last (m_chunks h)))
                              (\<lambda>b. Inr (butlast (m_chunks h) @ [b]))
                  else Inr (m_chunks h)) (\<lambda>chunks.
        bindR (skip_bytes (w_bytes w) len 0) (\<lambda>(bs, k).
          let w1 = (upd_http (\<lambda>h. h\<lparr>m_chunks := chunks\<rparr>) w)\<lparr>w_bytes := bs\<rparr> in
          if k = 0 then Inr w1
          else chunk_loop (upd_http (\<lambda>h. h\<lparr>m_body_read := m_body_read h + k\<rparr>) w1))))"
  by pat_completeness auto
termination
proof (relation "measure (\<lambda>w. block_size (w_bytes w))", goal_cases)
  case (2 w h len chunks r bs k w1)
  then have "w_bytes w \<noteq> []" by auto
  with 2 skip_bytes_size [of "w_bytes w" len 0 bs k] show ?case by (auto simp: upd_http_def)
qed simp

declare chunk_loop.simps [simp del]

definition parse_chunk_body :: "http_env \<Rightarrow> http_world \<Rightarrow> (http_exit \<times> http_world) result" where
  "parse_chunk_body env w =
     bindR (chunk_loop w) (\<lambda>w1.
       if m_body_read (w_http w1) \<ge> m_chunk_len (w_http w1)
       then Inr (More, set_state HTTP_CHUNK_EL w1) else Inr (Done, w1))"

text \<open>The chunks put together: \<open>memcpy\<close> reads \<open>m_len\<close> bytes from the start of each array.\<close>

fun chunks_bytes :: "cdpi_bytes list \<Rightarrow> byte list result" where
  "chunks_bytes [] = Inr []"
| "chunks_bytes (b # bs) =
     bindR (rdsi (ptr_mem b) 0 (m_len b)) (\<lambda>xs. bindR (chunks_bytes bs) (\<lambda>ys. Inr (xs @ ys)))"

definition join_chunks :: "http_env \<Rightarrow> http_world \<Rightarrow> http_world result" where
  "join_chunks env w =
     (if m_chunks (w_http w) = [] then Inr w
      else bindR (alloc (e_fresh env) (\<Sum>b \<leftarrow> m_chunks (w_http w). m_len b) (m_content (w_http w)))
        (\<lambda>content. bindR (chunks_bytes (m_chunks (w_http w))) (\<lambda>xs.
          Inr (upd_http (\<lambda>h. h\<lparr>m_content := content\<lparr>m_ptr := Some xs\<rparr>\<rparr>) w))))"

definition parse_chunk_el :: "http_env \<Rightarrow> http_world \<Rightarrow> (http_exit \<times> http_world) result" where
  "parse_chunk_el env w =
     (let buf = read_bytes_ec (w_bytes w) 8 LF [] in
      if is_empty_line buf then
        bindR (skip_w (int (length buf)) w) (\<lambda>w1.
          let w2 = set_state (if m_chunk_len (w_http w1) = 0 then HTTP_CHUNK_TRAILER else HTTP_CHUNK_LEN) w1;
              w3 = upd_http (\<lambda>h. h\<lparr>m_body_read := 0\<rparr>) w2
          in bindR (join_chunks env w3) (\<lambda>w4. Inr (More, emit env CDPI_EVENT_HTTP_READ_BODY w4)))
      else Inr (Done, w))"

section \<open>The loop\<close>

definition http_step :: "http_env \<Rightarrow> http_world \<Rightarrow> (http_exit \<times> http_world) result" where
  "http_step env w =
     (case m_state (w_http w) of
        HTTP_METHOD \<Rightarrow> parse_method env w
      | HTTP_RESPONSE \<Rightarrow> parse_response env w
      | HTTP_HEAD \<Rightarrow> parse_head env w
      | HTTP_CHUNK_TRAILER \<Rightarrow> parse_head env w
      | HTTP_BODY \<Rightarrow> parse_body env w
      | HTTP_CHUNK_LEN \<Rightarrow> parse_chunk_len env w
      | HTTP_CHUNK_BODY \<Rightarrow> parse_chunk_body env w
      | HTTP_CHUNK_EL \<Rightarrow> parse_chunk_el env w)"

lemma w_bytes_simps [simp]:
  "w_bytes (emit env ev w) = w_bytes w" "w_bytes (upd_http f w) = w_bytes w"
  "w_bytes (set_state st w) = w_bytes w" "w_bytes (store_field fld w) = w_bytes w"
  by (cases "(fld, w)" rule: store_field.cases; simp add: emit_def upd_http_def set_state_def)+

lemma m_state_simps [simp]:
  "m_state (w_http (emit env ev w)) = m_state (w_http w)"
  "m_state (w_http (set_state st w)) = st"
  by (simp_all add: emit_def set_state_def upd_http_def)

lemma w_bytes_chunk_len [simp]: "w_bytes (store_chunk_len env buf w) = w_bytes w"
  by (simp add: store_chunk_len_def split: option.split)

lemma open_chunk_bytes: "open_chunk env w = Inr w' \<Longrightarrow> w_bytes w' = w_bytes w"
  by (auto simp: open_chunk_def bindR_eq_Inr split: if_splits)

lemma w_http_upd [simp]: "w_http (upd_http f w) = f (w_http w)"
  by (simp add: upd_http_def)

lemma body_loop_size: "body_loop n w = Inr w' \<Longrightarrow> block_size (w_bytes w') \<le> block_size (w_bytes w)"
proof (induction n w arbitrary: w' rule: body_loop.induct)
  case (1 n w)
  show ?case
  proof (cases "m_body_read (w_http w) \<ge> n")
    case True
    with "1.prems" show ?thesis by (subst (asm) body_loop.simps) simp
  next
    case False
    let ?len = "min (n - m_body_read (w_http w)) 1024"
    from "1.prems" False obtain content bs k where c:
      "(if m_len (m_content (w_http w)) > 0
        then read_into (w_bytes w) ?len (m_body_read (w_http w)) (m_content (w_http w))
        else Inr (m_content (w_http w))) = Inr content"
      "skip_bytes (w_bytes w) ?len 0 = Inr (bs, k)"
      "(let w1 = (upd_http (\<lambda>h. h\<lparr>m_content := content\<rparr>) w)\<lparr>w_bytes := bs\<rparr> in
        if k = 0 then Inr w1
        else body_loop n (upd_http (\<lambda>h. h\<lparr>m_body_read := m_body_read h + k\<rparr>) w1)) = Inr w'"
      by (subst (asm) body_loop.simps) (auto simp: bindR_eq_Inr Let_def)
    have "block_size bs \<le> block_size (w_bytes w)" using skip_bytes_size [OF c(2)] False by simp
    with c(3) "1.IH" [OF refl refl False c(1,2) refl refl] show ?thesis
      by (fastforce simp: Let_def split: if_splits)
  qed
qed

lemma chunk_loop_size: "chunk_loop w = Inr w' \<Longrightarrow> block_size (w_bytes w') \<le> block_size (w_bytes w)"
proof (induction w arbitrary: w' rule: chunk_loop.induct)
  case (1 w)
  show ?case
  proof (cases "m_body_read (w_http w) \<ge> m_chunk_len (w_http w)")
    case True
    with "1.prems" show ?thesis by (subst (asm) chunk_loop.simps) simp
  next
    case False
    let ?h = "w_http w" and ?len = "min (m_chunk_len (w_http w) - m_body_read (w_http w)) 1024"
    from "1.prems" False obtain chunks bs k where c:
      "(if is_in_mime_to_read ?h
        then if m_chunks ?h = [] then Inl EmptyQueue
             else bindR (read_into (w_bytes w) ?len (m_body_read ?h) (last (m_chunks ?h)))
                    (\<lambda>b. Inr (butlast (m_chunks ?h) @ [b]))
        else Inr (m_chunks ?h)) = Inr chunks"
      "skip_bytes (w_bytes w) ?len 0 = Inr (bs, k)"
      "(let w1 = (upd_http (\<lambda>h. h\<lparr>m_chunks := chunks\<rparr>) w)\<lparr>w_bytes := bs\<rparr> in
        if k = 0 then Inr w1
        else chunk_loop (upd_http (\<lambda>h. h\<lparr>m_body_read := m_body_read h + k\<rparr>) w1)) = Inr w'"
      by (subst (asm) chunk_loop.simps) (auto simp: bindR_eq_Inr Let_def)
    have "block_size bs \<le> block_size (w_bytes w)" using skip_bytes_size [OF c(2)] False by simp
    with c(3) "1.IH" [OF refl refl False c(1,2) refl refl] show ?thesis
      by (fastforce simp: Let_def split: if_splits)
  qed
qed

text \<open>A line that was skipped makes the rest smaller.\<close>

lemma skip_line_size:
  assumes "skip_w (int (length (read_bytes_ec (w_bytes w) n c []))) v = Inr w'"
    and "read_bytes_ec (w_bytes w) n c [] \<noteq> []" "w_bytes v = w_bytes w"
  shows "block_size (w_bytes w') < block_size (w_bytes w)"
  using skip_w_size [OF assms(1)] read_bytes_ec_blocks [OF assms(2)] assms(2,3) by simp

lemma head_end_client_size:
  assumes "head_end_client env (int (length (read_bytes_ec (w_bytes w) n c []))) w = Inr (More, w')"
    and "read_bytes_ec (w_bytes w) n c [] \<noteq> []"
  shows "block_size (w_bytes w') < block_size (w_bytes w)"
  using assms skip_line_size [of w n c w]
  by (auto simp: head_end_client_def bindR_eq_Inr Let_def split: if_splits)

lemma head_end_server_size:
  assumes "head_end_server env (int (length (read_bytes_ec (w_bytes w) n c []))) w = Inr (More, w')"
    and "read_bytes_ec (w_bytes w) n c [] \<noteq> []"
  shows "block_size (w_bytes w') < block_size (w_bytes w)"
  using assms skip_line_size [of w n c "w\<lparr>w_peer := _\<rparr>"]
  by (auto simp: head_end_server_def bindR_eq_Inr Let_def split: if_splits option.splits list.splits)

lemma parse_head_size:
  "parse_head env w = Inr (More, w') \<Longrightarrow> block_size (w_bytes w') < block_size (w_bytes w)"
proof (induction env w arbitrary: w' rule: parse_head.induct)
  case (1 env w)
  let ?buf = "read_bytes_ec (w_bytes w) 8192 LF []"
  have ne: "\<not> (?buf = [] \<or> last ?buf \<noteq> LF)"
    using "1.prems" by (subst (asm) parse_head.simps) (auto simp: Let_def split: if_splits)
  show ?case
  proof (cases "is_empty_line ?buf")
    case True
    with "1.prems" ne head_end_client_size [of env w 8192 LF w'] head_end_server_size [of env w 8192 LF w']
    show ?thesis by (subst (asm) parse_head.simps) (auto simp: Let_def split: if_splits)
  next
    case False
    with "1.prems" ne obtain w1 where w1: "skip_w (int (length ?buf)) (store_field (header_field ?buf) w) = Inr w1"
      "parse_head env w1 = Inr (More, w')"
      by (subst (asm) parse_head.simps) (auto simp: Let_def bindR_eq_Inr)
    from "1.IH" [OF refl refl ne False w1(1,2)] skip_line_size [OF w1(1)] ne show ?thesis by simp
  qed
qed

text \<open>The states from which a step may succeed without consuming a byte.\<close>

definition state_rank :: "http_state \<Rightarrow> nat" where
  "state_rank st = (if st = HTTP_BODY \<or> st = HTTP_CHUNK_BODY then 1 else 0)"

lemma parse_body_progress:
  "parse_body env w = Inr (More, w') \<Longrightarrow>
     block_size (w_bytes w') \<le> block_size (w_bytes w) \<and> state_rank (m_state (w_http w')) = 0"
  by (auto simp: parse_body_def alloc_content_def bindR_eq_Inr Let_def state_rank_def
      dest!: body_loop_size split: if_splits)

lemma http_step_progress:
  assumes "http_step env w = Inr (More, w')"
  shows "block_size (w_bytes w') < block_size (w_bytes w) \<or>
    block_size (w_bytes w') \<le> block_size (w_bytes w) \<and>
    state_rank (m_state (w_http w')) < state_rank (m_state (w_http w))"
proof (cases "m_state (w_http w)")
  case HTTP_METHOD
  with assms show ?thesis
    by (auto simp: http_step_def parse_method_def bindR_eq_Inr Let_def dest!: skip_line_size split: if_splits)
next
  case HTTP_RESPONSE
  with assms show ?thesis
    by (auto simp: http_step_def parse_response_def bindR_eq_Inr Let_def dest!: skip_line_size split: if_splits)
next
  case HTTP_BODY
  with assms parse_body_progress [of env w w'] show ?thesis by (simp add: http_step_def state_rank_def)
next
  case HTTP_CHUNK_LEN
  with assms show ?thesis
    by (auto simp: http_step_def parse_chunk_len_def bindR_eq_Inr Let_def
        dest!: open_chunk_bytes skip_line_size split: if_splits)
next
  case HTTP_CHUNK_BODY
  with assms show ?thesis
    by (auto simp: http_step_def parse_chunk_body_def bindR_eq_Inr state_rank_def dest!: chunk_loop_size
        split: if_splits)
next
  case HTTP_CHUNK_EL
  have "is_empty_line xs \<Longrightarrow> xs \<noteq> []" for xs by (auto simp: is_empty_line_def)
  with HTTP_CHUNK_EL assms show ?thesis
    by (auto simp: http_step_def parse_chunk_el_def join_chunks_def bindR_eq_Inr Let_def
        dest!: skip_line_size split: if_splits)
qed (use assms parse_head_size [of env w w'] in \<open>simp_all add: http_step_def\<close>)

text \<open>
  \<open>parse\<close>: step by step until one of them does not return true. Every step that does consumes a
  byte, or leaves a body for a state in which the next step has to.
\<close>

function http_parse :: "http_env \<Rightarrow> http_world \<Rightarrow> (http_exit \<times> http_world) result" where
  "http_parse env w =
     bindR (http_step env w) (\<lambda>(x, w'). if x = More then http_parse env w' else Inr (x, w'))"
  by pat_completeness auto
termination
proof (relation "measures [\<lambda>(env, w). block_size (w_bytes w), \<lambda>(env, w). state_rank (m_state (w_http w))]",
    goal_cases)
  case (2 env w r x w')
  then show ?case using http_step_progress [of env w w'] by auto
qed simp

declare http_parse.simps [simp del]

end
