(* ===== verification/Http_View.thy ===== *)
theory Http_View
  imports Http
begin

text \<open>
  The parser of \<open>cdpi_http.cpp\<close> sees the blocks only as the byte string they stand for: how the
  stream was cut into blocks has no influence on it, and it never fails on the blocks themselves.
\<close>

section \<open>The relation\<close>

definition same_view :: "http_world \<Rightarrow> http_world \<Rightarrow> bool" where
  "same_view w v \<longleftrightarrow> w_http w = w_http v \<and> w_peer w = w_peer v \<and> w_out w = w_out v \<and>
     wf_blocks (w_bytes w) \<and> wf_blocks (w_bytes v) \<and> contents (w_bytes w) = contents (w_bytes v)"

abbreviation (input) same_result ::
    "(http_exit \<times> http_world) result \<Rightarrow> (http_exit \<times> http_world) result \<Rightarrow> bool" where
  "same_result \<equiv> rel_sum (=) (rel_prod (=) same_view)"

named_theorems view_intros \<open>operations that respect the view\<close>

lemma rel_bindR [view_intros]:
  "rel_sum (=) R m m' \<Longrightarrow> (\<And>x y. R x y \<Longrightarrow> rel_sum (=) S (f x) (g y)) \<Longrightarrow>
     rel_sum (=) S (bindR m f) (bindR m' g)"
  by (cases m; cases m') auto

lemma rel_Inr [view_intros]: "R x y \<Longrightarrow> rel_sum (=) R (Inr x) (Inr y)"
  and rel_Inl [view_intros]: "rel_sum (=) R (Inl e) (Inl e)"
  and rel_exit [view_intros]: "same_view w v \<Longrightarrow> rel_prod (=) same_view (x, w) (x, v)"
  by simp_all

lemma same_view_simps:
  assumes "same_view w v"
  shows "w_http v = w_http w" "w_peer v = w_peer w" "w_out v = w_out w"
    "0 \<le> n \<Longrightarrow> read_bytes_ec (w_bytes v) n c [] = read_bytes_ec (w_bytes w) n c []"
    "0 \<le> n \<Longrightarrow> read_bytes (w_bytes v) n [] = read_bytes (w_bytes w) n []"
  using assms by (auto simp: same_view_def blocks.line blocks.peek)

lemma same_view_upd [view_intros]: "same_view w v \<Longrightarrow> same_view (upd_http f w) (upd_http f v)"
  by (simp add: same_view_def upd_http_def)

lemma same_view_set_state [view_intros]: "same_view w v \<Longrightarrow> same_view (set_state st w) (set_state st v)"
  by (simp add: set_state_def same_view_upd)

lemma same_view_emit [view_intros]: "same_view w v \<Longrightarrow> same_view (emit env ev w) (emit env ev v)"
  by (simp add: same_view_def emit_def)

lemma same_view_field [view_intros]: "same_view w v \<Longrightarrow> same_view (store_field fld w) (store_field fld v)"
  by (cases "(fld, w)" rule: store_field.cases) (auto intro: view_intros)

lemma same_view_peer [view_intros]: "same_view w v \<Longrightarrow> same_view (w\<lparr>w_peer := q\<rparr>) (v\<lparr>w_peer := q\<rparr>)"
  by (simp add: same_view_def)

text \<open>\<open>skip_bytes\<close> on both sides removes the same bytes.\<close>

lemma same_view_skip:
  assumes "same_view w v" "0 \<le> n"
  obtains bs bs' k where "skip_bytes (w_bytes w) n 0 = Inr (bs, k)" "skip_bytes (w_bytes v) n 0 = Inr (bs', k)"
    "wf_blocks bs" "wf_blocks bs'" "contents bs = contents bs'"
proof -
  from assms have wf: "wf_blocks (w_bytes w)" "wf_blocks (w_bytes v)"
    and eq: "contents (w_bytes w) = contents (w_bytes v)" by (simp_all add: same_view_def)
  from blocks.skip [OF wf(1) assms(2)] blocks.skip [OF wf(2) assms(2)] eq that show ?thesis by auto
qed

lemma skip_w_both:
  assumes "same_view w v" "0 \<le> n"
  obtains w1 v1 where "skip_w n w = Inr w1" "skip_w n v = Inr v1" "same_view w1 v1"
proof -
  from same_view_skip [OF assms] obtain bs bs' k where
    "skip_bytes (w_bytes w) n 0 = Inr (bs, k)" "skip_bytes (w_bytes v) n 0 = Inr (bs', k)"
    "wf_blocks bs" "wf_blocks bs'" "contents bs = contents bs'" .
  with assms(1) show ?thesis
    by (intro that [of "w\<lparr>w_bytes := bs\<rparr>" "v\<lparr>w_bytes := bs'\<rparr>"]) (simp_all add: skip_w_def same_view_def)
qed

lemma rel_skip_w [view_intros]:
  "same_view w v \<Longrightarrow> 0 \<le> n \<Longrightarrow> rel_sum (=) same_view (skip_w n w) (skip_w n v)"
  by (erule (1) skip_w_both) simp

section \<open>The steps\<close>

lemma rel_parse_method: "same_view w v \<Longrightarrow> same_result (parse_method env w) (parse_method env v)"
  unfolding parse_method_def Let_def by (auto simp: same_view_simps intro!: view_intros)

lemma rel_parse_response: "same_view w v \<Longrightarrow> same_result (parse_response env w) (parse_response env v)"
  unfolding parse_response_def Let_def by (auto simp: same_view_simps intro!: view_intros)

lemma rel_head_end_client:
  assumes "same_view w v" "0 \<le> len"
  shows "same_result (head_end_client env len w) (head_end_client env len v)"
proof -
  from skip_w_both [OF assms] obtain w1 v1 where
    "skip_w len w = Inr w1" "skip_w len v = Inr v1" and eq: "same_view w1 v1" .
  then show ?thesis
    by (auto simp: head_end_client_def Let_def same_view_simps [OF eq] intro!: view_intros eq)
qed

lemma rel_head_end_server:
  assumes "same_view w v" "0 \<le> len"
  shows "same_result (head_end_server env len w) (head_end_server env len v)"
  unfolding head_end_server_def Let_def
  using assms by (auto simp: same_view_simps intro!: view_intros split: option.splits list.splits)

lemma rel_parse_head: "same_view w v \<Longrightarrow> same_result (parse_head env w) (parse_head env v)"
proof (induction env w arbitrary: v rule: parse_head.induct)
  case (1 env w)
  let ?buf = "read_bytes_ec (w_bytes w) 8192 LF []"
  note eq = same_view_simps [OF "1.prems"]
  show ?case
  proof (cases "?buf = [] \<or> last ?buf \<noteq> LF \<or> is_empty_line ?buf")
    case True
    with "1.prems" show ?thesis
      by (subst (1 2) parse_head.simps)
        (auto simp: eq Let_def intro!: view_intros rel_head_end_client rel_head_end_server)
  next
    case False
    let ?fld = "header_field ?buf" and ?len = "int (length ?buf)"
    have "same_view (store_field ?fld w) (store_field ?fld v)" using "1.prems" by (intro view_intros)
    from skip_w_both [OF this, of ?len] obtain w1 v1 where
      s: "skip_w ?len (store_field ?fld w) = Inr w1" "skip_w ?len (store_field ?fld v) = Inr v1"
      "same_view w1 v1" by auto
    have "\<not> (?buf = [] \<or> last ?buf \<noteq> LF)" "\<not> is_empty_line ?buf" using False by auto
    from "1.IH" [OF refl refl this s(1,3)] False s(1,2) show ?thesis
      by (subst (1 2) parse_head.simps) (auto simp: eq Let_def)
  qed
qed

lemma read_into_view:
  "same_view w v \<Longrightarrow> 0 \<le> n \<Longrightarrow> read_into (w_bytes v) n pos b = read_into (w_bytes w) n pos b"
  by (simp add: read_into_def same_view_simps)

lemma rel_body_loop: "same_view w v \<Longrightarrow> rel_sum (=) same_view (body_loop n w) (body_loop n v)"
proof (induction n w arbitrary: v rule: body_loop.induct)
  case (1 n w)
  let ?h = "w_http w" and ?len = "min (n - m_body_read (w_http w)) 1024"
  note eq = same_view_simps [OF "1.prems"]
  show ?case
  proof (cases "m_body_read ?h \<ge> n")
    case True
    with "1.prems" show ?thesis by (subst (1 2) body_loop.simps) (simp add: eq)
  next
    case False
    define c where "c = (if m_len (m_content ?h) > 0
      then read_into (w_bytes w) ?len (m_body_read ?h) (m_content ?h) else Inr (m_content ?h))"
    have c': "(if m_len (m_content ?h) > 0
      then read_into (w_bytes v) ?len (m_body_read ?h) (m_content ?h) else Inr (m_content ?h)) = c"
      using False by (simp add: c_def read_into_view [OF "1.prems"])
    have "0 \<le> ?len" using False by simp
    from same_view_skip [OF "1.prems" this] obtain bs bs' k where
      s: "skip_bytes (w_bytes w) ?len 0 = Inr (bs, k)" "skip_bytes (w_bytes v) ?len 0 = Inr (bs', k)"
        "wf_blocks bs" "wf_blocks bs'" "contents bs = contents bs'" .
    show ?thesis
    proof (cases c)
      case (Inl e)
      with False c' show ?thesis by (subst (1 2) body_loop.simps) (simp add: eq c_def Let_def)
    next
      case (Inr content)
      let ?w1 = "(upd_http (\<lambda>h. h\<lparr>m_content := content\<rparr>) w)\<lparr>w_bytes := bs\<rparr>"
      let ?v1 = "(upd_http (\<lambda>h. h\<lparr>m_content := content\<rparr>) v)\<lparr>w_bytes := bs'\<rparr>"
      have v1: "same_view ?w1 ?v1" using "1.prems" s(3-5) by (simp add: same_view_def upd_http_def)
      then have "same_view (upd_http (\<lambda>h. h\<lparr>m_body_read := m_body_read h + k\<rparr>) ?w1)
          (upd_http (\<lambda>h. h\<lparr>m_body_read := m_body_read h + k\<rparr>) ?v1)" by (rule same_view_upd)
      from "1.IH" [OF refl refl False Inr [unfolded c_def] s(1) refl refl _ this]
      show ?thesis
        using False Inr c' s(1,2) v1 by (subst (1 2) body_loop.simps) (simp add: eq c_def Let_def)
    qed
  qed
qed

lemma rel_chunk_loop: "same_view w v \<Longrightarrow> rel_sum (=) same_view (chunk_loop w) (chunk_loop v)"
proof (induction w arbitrary: v rule: chunk_loop.induct)
  case (1 w)
  let ?h = "w_http w" and ?len = "min (m_chunk_len (w_http w) - m_body_read (w_http w)) 1024"
  note eq = same_view_simps [OF "1.prems"]
  show ?case
  proof (cases "m_body_read ?h \<ge> m_chunk_len ?h")
    case True
    with "1.prems" show ?thesis by (subst (1 2) chunk_loop.simps) (simp add: eq)
  next
    case False
    define c where "c = (if is_in_mime_to_read ?h
      then if m_chunks ?h = [] then Inl EmptyQueue
           else bindR (read_into (w_bytes w) ?len (m_body_read ?h) (last (m_chunks ?h)))
                  (\<lambda>b. Inr (butlast (m_chunks ?h) @ [b]))
      else Inr (m_chunks ?h))"
    have c': "(if is_in_mime_to_read ?h
      then if m_chunks ?h = [] then Inl EmptyQueue
           else bindR (read_into (w_bytes v) ?len (m_body_read ?h) (last (m_chunks ?h)))
                  (\<lambda>b. Inr (butlast (m_chunks ?h) @ [b]))
      else Inr (m_chunks ?h)) = c"
      using False by (simp add: c_def read_into_view [OF "1.prems"])
    have "0 \<le> ?len" using False by simp
    from same_view_skip [OF "1.prems" this] obtain bs bs' k where
      s: "skip_bytes (w_bytes w) ?len 0 = Inr (bs, k)" "skip_bytes (w_bytes v) ?len 0 = Inr (bs', k)"
        "wf_blocks bs" "wf_blocks bs'" "contents bs = contents bs'" .
    show ?thesis
    proof (cases c)
      case (Inl e)
      with False c' show ?thesis
        by (subst (1 2) chunk_loop.simps) (simp add: eq c_def Let_def del: if_split)
    next
      case (Inr chunks)
      let ?w1 = "(upd_http (\<lambda>h. h\<lparr>m_chunks := chunks\<rparr>) w)\<lparr>w_bytes := bs\<rparr>"
      let ?v1 = "(upd_http (\<lambda>h. h\<lparr>m_chunks := chunks\<rparr>) v)\<lparr>w_bytes := bs'\<rparr>"
      have v1: "same_view ?w1 ?v1" using "1.prems" s(3-5) by (simp add: same_view_def upd_http_def)
      then have "same_view (upd_http (\<lambda>h. h\<lparr>m_body_read := m_body_read h + k\<rparr>) ?w1)
          (upd_http (\<lambda>h. h\<lparr>m_body_read := m_body_read h + k\<rparr>) ?v1)" by (rule same_view_upd)
      from "1.IH" [OF refl refl False Inr [unfolded c_def] s(1) refl refl _ this]
      show ?thesis
        using False Inr c' s(1,2) v1
        by (subst (1 2) chunk_loop.simps) (simp add: eq c_def Let_def del: if_split)
    qed
  qed
qed

lemma rel_bindR_same:
  "(\<And>x. rel_sum (=) S (f x) (g x)) \<Longrightarrow> rel_sum (=) S (bindR m f) (bindR m g)"
  by (cases m) auto

lemma rel_alloc_content:
  "same_view w v \<Longrightarrow> rel_sum (=) same_view (alloc_content env n w) (alloc_content env n v)"
  unfolding alloc_content_def by (auto simp: same_view_simps intro!: rel_bindR_same view_intros)

lemma rel_parse_body: "same_view w v \<Longrightarrow> same_result (parse_body env w) (parse_body env v)"
  unfolding parse_body_def Let_def same_view_simps(1)
  by (intro rel_bindR [where R = same_view] rel_body_loop)
    (auto simp: same_view_simps intro: rel_alloc_content intro!: view_intros)

lemma rel_store_chunk_len [view_intros]:
  "same_view w v \<Longrightarrow> same_view (store_chunk_len env buf w) (store_chunk_len env buf v)"
  unfolding store_chunk_len_def by (auto intro: view_intros split: option.splits)

lemma rel_open_chunk [view_intros]:
  assumes "same_view w v"
  shows "rel_sum (=) same_view (open_chunk env w) (open_chunk env v)"
proof -
  have "rel_sum (=) same_view
    (bindR m (\<lambda>b. Inr (upd_http (\<lambda>h. h\<lparr>m_chunks := m_chunks h @ [b]\<rparr>) w)))
    (bindR m (\<lambda>b. Inr (upd_http (\<lambda>h. h\<lparr>m_chunks := m_chunks h @ [b]\<rparr>) v)))" for m
    using assms by (intro rel_bindR_same rel_Inr same_view_upd)
  with assms show ?thesis
    by (auto simp: open_chunk_def same_view_simps [OF assms]
        intro!: rel_bindR [where R = same_view] rel_Inr same_view_set_state)
qed

lemma rel_parse_chunk_len:
  "same_view w v \<Longrightarrow> same_result (parse_chunk_len env w) (parse_chunk_len env v)"
  unfolding parse_chunk_len_def Let_def
  by (auto simp: same_view_simps intro!: rel_bindR [where R = same_view] view_intros)

lemma rel_parse_chunk_body:
  "same_view w v \<Longrightarrow> same_result (parse_chunk_body env w) (parse_chunk_body env v)"
  unfolding parse_chunk_body_def
  by (rule rel_bindR [OF rel_chunk_loop]) (auto simp: same_view_simps intro!: view_intros)

lemma rel_join_chunks:
  "same_view w v \<Longrightarrow> rel_sum (=) same_view (join_chunks env w) (join_chunks env v)"
  unfolding join_chunks_def
  by (auto simp: same_view_simps intro!: rel_bindR_same view_intros)

lemma rel_parse_chunk_el:
  "same_view w v \<Longrightarrow> same_result (parse_chunk_el env w) (parse_chunk_el env v)"
  unfolding parse_chunk_el_def Let_def
  by (auto simp: same_view_simps intro!: rel_bindR [where R = same_view] rel_join_chunks rel_skip_w
    same_view_upd same_view_set_state intro: view_intros)

lemma rel_http_step: "same_view w v \<Longrightarrow> same_result (http_step env w) (http_step env v)"
  using rel_parse_method [of w v env] rel_parse_response [of w v env] rel_parse_head [of w v env]
    rel_parse_body [of w v env] rel_parse_chunk_len [of w v env] rel_parse_chunk_body [of w v env]
    rel_parse_chunk_el [of w v env]
  by (auto simp: http_step_def same_view_simps(1) split: http_state.splits)

lemma rel_http_parse: "same_view w v \<Longrightarrow> same_result (http_parse env w) (http_parse env v)"
proof (induction env w arbitrary: v rule: http_parse.induct)
  case (1 env w)
  note rel = rel_http_step [OF "1.prems", of env]
  show ?case
  proof (cases "http_step env w")
    case (Inl e)
    with rel show ?thesis by (subst (1 2) http_parse.simps) (cases "http_step env v"; simp)
  next
    case (Inr r)
    obtain x w1 where r: "r = (x, w1)" by (cases r)
    with Inr rel obtain v1 where v1: "http_step env v = Inr (x, v1)" "same_view w1 v1"
      by (cases "http_step env v") (auto simp: rel_prod_sel)
    have "x = More \<Longrightarrow> same_result (http_parse env w1) (http_parse env v1)"
      using "1.IH" [OF Inr r [symmetric] _ v1(2)] by simp
    with v1 show ?thesis
      by (subst (1 2) http_parse.simps) (simp add: Inr r)
  qed
qed

section \<open>Properties\<close>

text \<open>
  C12: \<open>parse\<close> does not see where the segments of the stream were cut: on two lists of blocks that
  stand for the same byte string it ends with the same outcome, the same parser object and the same
  calls of the listener, and leaves the same bytes unread.
\<close>

theorem http_parse_view:
  assumes "wf_blocks bs" "wf_blocks bs'" "contents bs = contents bs'"
  shows "rel_sum (=) (rel_prod (=) same_view)
    (http_parse env (w\<lparr>w_bytes := bs\<rparr>)) (http_parse env (w\<lparr>w_bytes := bs'\<rparr>))"
  by (rule rel_http_parse) (simp add: same_view_def assms)

theorem http_parse_view_witness:
  "rel_sum (=) (rel_prod (=) same_view)
    (http_parse \<lparr>e_listen = \<lambda>_ _. {}, e_fresh = \<lambda>_. 0, e_undef = 0, e_junk = [0]\<rparr>
      (\<lparr>w_http = new_http PROTO_HTTP_CLIENT 0, w_peer = None, w_bytes = [], w_out = []\<rparr>
        \<lparr>w_bytes := [assign_str (str ''GET /x HT''), assign_str (str ''TP/1.1''), assign_str [LF, LF]]\<rparr>))
    (http_parse \<lparr>e_listen = \<lambda>_ _. {}, e_fresh = \<lambda>_. 0, e_undef = 0, e_junk = [0]\<rparr>
      (\<lparr>w_http = new_http PROTO_HTTP_CLIENT 0, w_peer = None, w_bytes = [], w_out = []\<rparr>
        \<lparr>w_bytes := [assign_str (str ''GET /x HTTP/1.1'' @ [LF, LF])]\<rparr>))"
  by (rule http_parse_view)
    (simp, simp, simp add: contents_def assign_str_def block_bytes_def str_def ptr_mem_def)

end
