(* ===== verification/Http_Parts.thy ===== *)
theory Http_Parts
  imports Http
begin

text \<open>
  What the parser of \<open>cdpi_http.cpp\<close> makes of the parts of a well-formed message: the first line, the
  header lines, and the bytes of a body or of a chunk.
\<close>

section \<open>Lines\<close>

lemma line_ended:
  assumes "wf_blocks bs" "contents bs = l @ LF # r" "LF \<notin> set l" "length l < n"
  shows "read_bytes_ec bs (int n) LF [] = l @ [LF]"
proof -
  have "takeWhile (\<lambda>x. x \<noteq> LF) (take n (l @ LF # r)) = l" "LF \<in> set (take n (l @ LF # r))"
    using assms(3,4) by (auto simp: takeWhile_append take_Cons' takeWhile_eq_all_conv)
  with assms(1,2) show ?thesis by (simp add: blocks.line first_line_eq)
qed

lemma skip_w_contents:
  assumes "wf_blocks (w_bytes w)" "contents (w_bytes w) = l @ r"
  obtains bs' where "skip_w (int (length l)) w = Inr (w\<lparr>w_bytes := bs'\<rparr>)" "wf_blocks bs'" "contents bs' = r"
  using blocks.skip [OF assms(1), of "int (length l)"] assms(2) by (auto simp: skip_w_def)

lemma find_char_append: "c \<notin> set l \<Longrightarrow> find_char (l @ c # r) c = int (length l)"
  by (auto simp: find_char_eq takeWhile_append takeWhile_eq_all_conv)

section \<open>The first line\<close>

text \<open>Three fields with a space between them; the last one may hold spaces.\<close>

definition first_bytes :: "byte list \<Rightarrow> byte list \<Rightarrow> byte list \<Rightarrow> byte list" where
  "first_bytes a b c = a @ SP # b @ SP # c @ [CR, LF]"

definition field_ok :: "byte list \<Rightarrow> byte list \<Rightarrow> byte list \<Rightarrow> bool" where
  "field_ok a b c \<longleftrightarrow> SP \<notin> set a \<and> SP \<notin> set b \<and> LF \<notin> set a \<union> set b \<union> set c \<and>
     length a + length b + length c + 4 \<le> 4096"

lemma first_line_parts:
  assumes "field_ok a b c"
  shows "find_char (first_bytes a b c) SP = int (length a)"
    and "find_char (b @ SP # c @ [CR, LF]) SP = int (length b)"
    and "find_char (c @ [CR, LF]) LF = 1 + int (length c)"
    and "strip_cr (c @ [CR, LF]) (1 + int (length c)) = c"
  using assms find_char_append [of LF "c @ [CR]" "[]"]
  by (simp_all add: field_ok_def first_bytes_def find_char_append strip_cr_def nat_add_distrib)

lemma first_line_read:
  assumes "wf_blocks bs" "contents bs = first_bytes a b c @ r" "field_ok a b c"
  shows "read_bytes_ec bs 4096 LF [] = first_bytes a b c"
  using line_ended [OF assms(1), of "a @ SP # b @ SP # c @ [CR]" r 4096] assms(2,3)
  by (simp add: first_bytes_def field_ok_def)

lemma parse_method_line:
  assumes "wf_blocks (w_bytes w)" "contents (w_bytes w) = first_bytes a b c @ r" "field_ok a b c"
  obtains bs' where "wf_blocks bs'" "contents bs' = r"
    "parse_method env w = Inr (More, emit env CDPI_EVENT_HTTP_READ_METHOD
       (w\<lparr>w_bytes := bs', w_http := (clear_message (w_http w))\<lparr>m_method := m_method (w_http w) @ [a],
           m_uri := b, m_ver := c, m_state := HTTP_HEAD\<rparr>\<rparr>))"
proof -
  let ?w = "upd_http (\<lambda>h. h\<lparr>m_ver := c\<rparr>) (upd_http (\<lambda>h. h\<lparr>m_uri := b\<rparr>)
    (upd_http (\<lambda>h. h\<lparr>m_method := m_method h @ [a]\<rparr>) (upd_http clear_message w)))"
  from skip_w_contents [of ?w "first_bytes a b c" r] assms(1,2)
  obtain bs' where s: "skip_w (int (length (first_bytes a b c))) ?w = Inr (?w\<lparr>w_bytes := bs'\<rparr>)"
    "wf_blocks bs'" "contents bs' = r" by auto
  have p: "drop (Suc (length a)) (first_bytes a b c) = b @ SP # c @ [CR, LF]"
    "take (length a) (first_bytes a b c) = a" "first_bytes a b c \<noteq> []" "last (first_bytes a b c) = LF"
    by (simp_all add: first_bytes_def)
  from s(1) have "parse_method env w = Inr (More, emit env CDPI_EVENT_HTTP_READ_METHOD
       (upd_http (\<lambda>h. h\<lparr>m_state := HTTP_HEAD\<rparr>) (?w\<lparr>w_bytes := bs'\<rparr>)))"
    unfolding parse_method_def Let_def first_line_read [OF assms]
    by (simp add: first_line_parts [OF assms(3)] p del: find_char_negative)
  with s(2,3) show ?thesis by (intro that [of bs']) (simp_all add: upd_http_def clear_message_def)
qed

lemma parse_response_line:
  assumes "wf_blocks (w_bytes w)" "contents (w_bytes w) = first_bytes a b c @ r" "field_ok a b c"
  obtains bs' where "wf_blocks bs'" "contents bs' = r"
    "parse_response env w = Inr (More, emit env CDPI_EVENT_HTTP_READ_RESPONSE
       (w\<lparr>w_bytes := bs', w_http := (clear_message (w_http w))\<lparr>m_ver := a, m_code := b,
           m_res_msg := c, m_state := HTTP_HEAD\<rparr>\<rparr>))"
proof -
  let ?w = "upd_http (\<lambda>h. h\<lparr>m_res_msg := c\<rparr>) (upd_http (\<lambda>h. h\<lparr>m_code := b\<rparr>)
    (upd_http (\<lambda>h. h\<lparr>m_ver := a\<rparr>) (upd_http clear_message w)))"
  from skip_w_contents [of ?w "first_bytes a b c" r] assms(1,2)
  obtain bs' where s: "skip_w (int (length (first_bytes a b c))) ?w = Inr (?w\<lparr>w_bytes := bs'\<rparr>)"
    "wf_blocks bs'" "contents bs' = r" by auto
  have p: "drop (Suc (length a)) (first_bytes a b c) = b @ SP # c @ [CR, LF]"
    "take (length a) (first_bytes a b c) = a" "first_bytes a b c \<noteq> []" "last (first_bytes a b c) = LF"
    by (simp_all add: first_bytes_def)
  from s(1) have "parse_response env w = Inr (More, emit env CDPI_EVENT_HTTP_READ_RESPONSE
       (upd_http (\<lambda>h. h\<lparr>m_state := HTTP_HEAD\<rparr>) (?w\<lparr>w_bytes := bs'\<rparr>)))"
    unfolding parse_response_def Let_def first_line_read [OF assms]
    by (simp add: first_line_parts [OF assms(3)] p del: find_char_negative)
  with s(2,3) show ?thesis by (intro that [of bs']) (simp_all add: upd_http_def clear_message_def)
qed

section \<open>The header lines\<close>

definition header_line :: "byte list \<times> byte list \<Rightarrow> byte list" where
  "header_line f = fst f @ [0x3A, SP] @ snd f @ [CR, LF]"

definition header_ok :: "byte list \<times> byte list \<Rightarrow> bool" where
  "header_ok f \<longleftrightarrow> 0x3A \<notin> set (fst f) \<and> LF \<notin> set (fst f) \<and> CR \<notin> set (snd f) \<and> LF \<notin> set (snd f) \<and>
     0 \<notin> set (snd f) \<and> (snd f = [] \<or> hd (snd f) \<noteq> SP) \<and> length (fst f) + length (snd f) + 4 \<le> 8192"

text \<open>The map of the headers: a later one with the same name replaces an earlier one.\<close>

definition header_map :: "(byte list \<times> byte list) list \<Rightarrow> (byte list, byte list) omap \<Rightarrow>
    (byte list, byte list) omap" where
  "header_map fs m = fold (\<lambda>(k, v). omap_insert (to_lower_str k) v) fs m"

lemma header_field_line: "header_ok f \<Longrightarrow> header_field (header_line f) = Some f"
proof (cases f)
  case (Pair k v)
  assume ok: "header_ok f"
  have "find_char (header_line f) 0x3A = int (length k)"
    using ok Pair find_char_append [of "0x3A" k] by (simp add: header_line_def header_ok_def)
  moreover have "drop (nat (int (length k)) + 1) (header_line f) = SP # v @ [CR, LF]"
    by (simp add: header_line_def Pair)
  moreover have "dropWhile (\<lambda>c. c = SP) (SP # v @ [CR, LF]) = v @ [CR, LF]"
    using ok Pair by (cases v) (auto simp: header_ok_def)
  moreover have "takeWhile (\<lambda>c. c \<noteq> CR \<and> c \<noteq> LF \<and> c \<noteq> 0) (v @ [CR, LF]) = v"
    using ok Pair by (subst takeWhile_append2) (auto simp: header_ok_def)
  ultimately show ?thesis
    by (simp add: header_field_def Let_def Pair header_line_def del: find_char_negative)
qed

lemma parse_head_lines:
  assumes "wf_blocks (w_bytes w)" "contents (w_bytes w) = concat (map header_line fs) @ r"
    "\<forall>f \<in> set fs. header_ok f"
  shows "\<exists>bs'. wf_blocks bs' \<and> contents bs' = r \<and>
    parse_head env w = parse_head env
      (w\<lparr>w_bytes := bs', w_http := (w_http w)\<lparr>m_header := header_map fs (m_header (w_http w))\<rparr>\<rparr>)"
  using assms
proof (induction fs arbitrary: w)
  case Nil
  then show ?case by (intro exI [of _ "w_bytes w"]) (simp add: header_map_def)
next
  case (Cons f fs)
  obtain k v where f: "f = (k, v)" by (cases f)
  let ?l = "header_line f" and ?r = "concat (map header_line fs) @ r"
  let ?w1 = "store_field (Some f) w"
  have ok: "header_ok f" using Cons.prems(3) by simp
  have "read_bytes_ec (w_bytes w) (int 8192) LF [] = (k @ [0x3A, SP] @ v @ [CR]) @ [LF]"
    using Cons.prems(1,2) ok f by (intro line_ended) (auto simp: header_line_def header_ok_def)
  then have buf: "read_bytes_ec (w_bytes w) 8192 LF [] = ?l" by (simp add: header_line_def f)
  from skip_w_contents [of ?w1 ?l ?r] Cons.prems(1,2) obtain bs1 where s:
    "skip_w (int (length ?l)) ?w1 = Inr (?w1\<lparr>w_bytes := bs1\<rparr>)" "wf_blocks bs1" "contents bs1 = ?r"
    by auto
  from Cons.IH [of "?w1\<lparr>w_bytes := bs1\<rparr>"] s(2,3) Cons.prems(3)
  obtain bs' where b: "wf_blocks bs'" "contents bs' = r"
    "parse_head env (?w1\<lparr>w_bytes := bs1\<rparr>) = parse_head env (?w1\<lparr>w_bytes := bs1\<rparr>\<lparr>w_bytes := bs',
      w_http := (w_http ?w1)\<lparr>m_header := header_map fs (m_header (w_http ?w1))\<rparr>\<rparr>)" by auto
  have "\<not> is_empty_line ?l" "?l \<noteq> []" "last ?l = LF"
    using ok by (auto simp: is_empty_line_def header_line_def Cons_eq_append_conv append_eq_Cons_conv)
  then have "parse_head env w = parse_head env (?w1\<lparr>w_bytes := bs1\<rparr>)"
    using s(1) header_field_line [OF ok] by (subst parse_head.simps) (simp add: buf)
  with b show ?case
    by (intro exI [of _ bs']) (simp add: f upd_http_def http_head_const_def set_header_def header_map_def)
qed

text \<open>A head: the header lines and the empty line.\<close>

definition head_bytes :: "(byte list \<times> byte list) list \<Rightarrow> byte list" where
  "head_bytes fs = concat (map header_line fs) @ [CR, LF]"

lemma parse_head_end:
  assumes "wf_blocks (w_bytes w)" "contents (w_bytes w) = head_bytes fs @ r" "\<forall>f \<in> set fs. header_ok f"
  obtains bs1 w1 where "wf_blocks bs1" "contents bs1 = [CR, LF] @ r"
    "w1 = w\<lparr>w_bytes := bs1, w_http := (w_http w)\<lparr>m_header := header_map fs (m_header (w_http w))\<rparr>\<rparr>"
    "parse_head env w =
      (if m_type (w_http w) = PROTO_HTTP_CLIENT then head_end_client env 2 w1
       else if m_type (w_http w) = PROTO_HTTP_SERVER then head_end_server env 2 w1
       else Inr (Throw_parse_error, w1))"
proof -
  from parse_head_lines [of w fs "[CR, LF] @ r" env] assms obtain bs1 where b:
    "wf_blocks bs1" "contents bs1 = [CR, LF] @ r"
    "parse_head env w = parse_head env
      (w\<lparr>w_bytes := bs1, w_http := (w_http w)\<lparr>m_header := header_map fs (m_header (w_http w))\<rparr>\<rparr>)"
    by (auto simp: head_bytes_def)
  have "read_bytes_ec bs1 8192 LF [] = [CR, LF]"
    using line_ended [OF b(1), of "[CR]" r 8192] b(2) by simp
  with b(3) show ?thesis
    by (intro that [OF b(1,2) refl]) (simp add: parse_head.simps [of env "_\<lparr>w_bytes := bs1, w_http := _\<rparr>"] is_empty_line_def)
qed

section \<open>The body\<close>

lemma read_into_contents:
  assumes "wf_blocks bs" "0 \<le> n" "m_ptr b = Some a" "0 \<le> pos" "pos + n \<le> int (length a)"
  shows "read_into bs n pos b = Inr (b\<lparr>m_ptr := Some (overwrite a (nat pos) (take (nat n) (contents bs)))\<rparr>)"
  using assms by (simp add: read_into_def blocks.peek)

lemma overwrite_overwrite:
  "i + length xs + length ys \<le> length m \<Longrightarrow>
     overwrite (overwrite m i xs) (i + length xs) ys = overwrite m i (xs @ ys)"
  by (cases xs) (auto simp: overwrite_def min_def ac_simps)

lemma skip_taken:
  assumes "wf_blocks bs" "0 \<le> n"
  obtains bs' where "skip_bytes bs n 0 = Inr (bs', int (length (take (nat n) (contents bs))))"
    "wf_blocks bs'" "contents bs' = drop (length (take (nat n) (contents bs))) (contents bs)"
proof -
  have "min n (int (length (contents bs))) = int (length (take (nat n) (contents bs)))"
    "drop (nat n) (contents bs) = drop (length (take (nat n) (contents bs))) (contents bs)"
    using assms(2) by (auto simp: min_def)
  with blocks.skip [OF assms] that show ?thesis by metis
qed

lemma take_rest:
  assumes "0 \<le> n" "n \<le> m"
  shows "take (nat n) xs @ take (nat (m - int (length (take (nat n) xs)))) (drop (length (take (nat n) xs)) xs) =
    take (nat m) xs"
proof (cases "nat n \<le> length xs")
  case True
  with assms have "nat m = nat n + nat (m - int (length (take (nat n) xs)))" by (simp add: min_def)
  with True show ?thesis by (metis length_take min.absorb2 take_add)
qed (use assms in simp)

text \<open>The content that the loop leaves, after the bytes \<open>d\<close> that it found from position \<open>k\<close> on.\<close>

definition filled :: "int \<Rightarrow> byte list \<Rightarrow> cdpi_bytes \<Rightarrow> cdpi_bytes" where
  "filled k d b = b\<lparr>m_ptr := map_option (\<lambda>a. overwrite a (nat k) d) (m_ptr b)\<rparr>"

definition room :: "int \<Rightarrow> cdpi_bytes \<Rightarrow> bool" where
  "room n b \<longleftrightarrow> (\<exists>a. m_ptr b = Some a \<and> n \<le> int (length a))"

lemma overwrite_Nil [simp]: "overwrite m i [] = m"
  by (simp add: overwrite_def)

lemma filled_Nil [simp]: "filled k [] b = b"
  by (simp add: filled_def map_option.id [unfolded id_def])

lemma filled_append:
  "room n b \<Longrightarrow> 0 \<le> k \<Longrightarrow> k + int (length xs) + int (length ys) \<le> n \<Longrightarrow>
     filled (k + int (length xs)) ys (filled k xs b) = filled k (xs @ ys) b"
  by (auto simp: filled_def room_def overwrite_overwrite nat_add_distrib)

lemma room_filled: "room n b \<Longrightarrow> 0 \<le> k \<Longrightarrow> k + int (length d) \<le> n \<Longrightarrow> room n (filled k d b)"
  by (auto simp: filled_def room_def)

lemma room_mono: "room n b \<Longrightarrow> k \<le> n \<Longrightarrow> room k b"
  by (auto simp: room_def)

lemma m_len_filled [simp]: "m_len (filled k d b) = m_len b"
  by (simp add: filled_def)

lemma read_into_filled:
  assumes "wf_blocks bs" "0 \<le> n" "room (pos + n) b" "0 \<le> pos"
  shows "read_into bs n pos b = Inr (filled pos (take (nat n) (contents bs)) b)"
  using assms by (auto simp: room_def filled_def read_into_contents)

text \<open>
  \<open>body_loop\<close> and \<open>chunk_loop\<close> share this contract: blocks of at most 1024 bytes are moved to where
  \<open>put\<close> keeps them, until \<open>bound\<close> bytes were read or no byte is left.
\<close>

locale copy_loop =
  fixes loop :: "http_world \<Rightarrow> http_world result"
    and bound :: "cdpi_http \<Rightarrow> int"
    and ok :: "cdpi_http \<Rightarrow> bool"
    and put :: "int \<Rightarrow> byte list \<Rightarrow> cdpi_http \<Rightarrow> cdpi_http"
  assumes loop_end: "bound (w_http w) \<le> m_body_read (w_http w) \<Longrightarrow> loop w = Inr w"
    and loop_step: "wf_blocks (w_bytes w) \<Longrightarrow> ok (w_http w) \<Longrightarrow> k = m_body_read (w_http w) \<Longrightarrow>
      0 \<le> k \<Longrightarrow> k < bound (w_http w) \<Longrightarrow> n = min (bound (w_http w) - k) 1024 \<Longrightarrow>
      e = take (nat n) (contents (w_bytes w)) \<Longrightarrow>
      skip_bytes (w_bytes w) n 0 = Inr (bs, int (length e)) \<Longrightarrow> h = put k e (w_http w) \<Longrightarrow>
      loop w = (if e = [] then Inr (w\<lparr>w_bytes := bs, w_http := h\<rparr>)
        else loop (w\<lparr>w_bytes := bs, w_http := h\<lparr>m_body_read := k + int (length e)\<rparr>\<rparr>))"
    and put_ok: "ok h \<Longrightarrow> 0 \<le> k \<Longrightarrow> k + int (length d) \<le> bound h \<Longrightarrow>
      ok ((put k d h)\<lparr>m_body_read := j\<rparr>) \<and> bound ((put k d h)\<lparr>m_body_read := j\<rparr>) = bound h"
    and put_Nil: "ok h \<Longrightarrow> put k [] h = h"
    and put_append: "ok h \<Longrightarrow> 0 \<le> k \<Longrightarrow> k + int (length d) + int (length e) \<le> bound h \<Longrightarrow>
      put (k + int (length d)) e ((put k d h)\<lparr>m_body_read := j\<rparr>) = (put k (d @ e) h)\<lparr>m_body_read := j\<rparr>"
begin

lemma loop_contents:
  assumes "wf_blocks (w_bytes w)" "ok (w_http w)" "k = m_body_read (w_http w)" "0 \<le> k"
    and "d = take (nat (bound (w_http w) - k)) (contents (w_bytes w))"
  shows "\<exists>bs'. wf_blocks bs' \<and> contents bs' = drop (length d) (contents (w_bytes w)) \<and>
    loop w = Inr (w\<lparr>w_bytes := bs', w_http := (put k d (w_http w))\<lparr>m_body_read := k + int (length d)\<rparr>\<rparr>)"
  using assms
proof (induction "length (contents (w_bytes w))" arbitrary: w k d rule: less_induct)
  case less
  let ?h = "w_http w" and ?s = "contents (w_bytes w)"
  let ?n = "min (bound ?h - k) 1024"
  show ?case
  proof (cases "bound ?h \<le> k")
    case True
    with less.prems put_Nil [of ?h k] loop_end [of w] show ?thesis
      by (intro exI [of _ "w_bytes w"]) simp
  next
    case False
    define e where "e = take (nat ?n) ?s"
    have "0 \<le> ?n" using False by simp
    from skip_taken [OF less.prems(1) this, folded e_def] obtain bs where
      s: "skip_bytes (w_bytes w) ?n 0 = Inr (bs, int (length e))" "wf_blocks bs"
        "contents bs = drop (length e) ?s" .
    note step = loop_step [OF less.prems(1-4) _ refl e_def s(1) refl]
    show ?thesis
    proof (cases "e = []")
      case True
      then have "?s = []" using False by (auto simp: e_def)
      moreover have "?h\<lparr>m_body_read := k\<rparr> = ?h" using less.prems(3) by simp
      ultimately show ?thesis
        using False True less.prems s step put_Nil [of ?h k] by (intro exI [of _ bs]) simp
    next
      case ne: False
      let ?h2 = "(put k e ?h)\<lparr>m_body_read := k + int (length e)\<rparr>"
      let ?w2 = "w\<lparr>w_bytes := bs, w_http := ?h2\<rparr>"
      define d2 where "d2 = take (nat (bound ?h - (k + int (length e)))) (contents bs)"
      have d: "d = e @ d2"
        using take_rest [of ?n "bound ?h - k" ?s, folded e_def] False less.prems(5)
        by (simp add: diff_diff_eq d2_def s(3))
      have "length e \<le> nat ?n" by (simp add: e_def)
      with False have le: "k + int (length e) \<le> bound ?h" by linarith
      note ok = put_ok [OF less.prems(2,4) this, of "k + int (length e)"]
      have "0 < length e" "length e \<le> length ?s" using ne by (simp, simp add: e_def)
      then have "length (contents bs) < length ?s" by (simp add: s(3) diff_less del: length_greater_0_conv)
      from less.hyps [of ?w2 "k + int (length e)" d2] this obtain bs' where b: "wf_blocks bs'"
        "contents bs' = drop (length d2) (contents bs)"
        "loop ?w2 = Inr (?w2\<lparr>w_bytes := bs', w_http := (put (k + int (length e)) d2 ?h2)
          \<lparr>m_body_read := k + int (length e) + int (length d2)\<rparr>\<rparr>)"
        using s(2) ok less.prems(4) by (auto simp: d2_def)
      have "k + int (length e) + int (length d2) \<le> bound ?h" using le by (simp add: d2_def)
      note put_append [OF less.prems(2,4) this]
      with b s(3) step ne False show ?thesis
        by (intro exI [of _ bs']) (simp add: d ac_simps)
    qed
  qed
qed

end

definition body_ok :: "int \<Rightarrow> cdpi_http \<Rightarrow> bool" where
  "body_ok n h \<longleftrightarrow> (m_len (m_content h) > 0 \<longrightarrow> room n (m_content h))"

definition put_body :: "int \<Rightarrow> byte list \<Rightarrow> cdpi_http \<Rightarrow> cdpi_http" where
  "put_body k d h = (if m_len (m_content h) > 0 then h\<lparr>m_content := filled k d (m_content h)\<rparr> else h)"

interpretation body: copy_loop "body_loop n" "\<lambda>_. n" "body_ok n" put_body for n
proof
  show "n \<le> m_body_read (w_http w) \<Longrightarrow> body_loop n w = Inr w" for w
    by (subst body_loop.simps) simp
next
  fix w :: http_world and k m e bs h
  assume a: "wf_blocks (w_bytes w)" "body_ok n (w_http w)" "k = m_body_read (w_http w)" "0 \<le> k" "k < n"
    "m = min (n - k) 1024" "e = take (nat m) (contents (w_bytes w))"
    "skip_bytes (w_bytes w) m 0 = Inr (bs, int (length e))" "h = put_body k e (w_http w)"
  have "m_len (m_content (w_http w)) > 0 \<Longrightarrow>
      read_into (w_bytes w) m k (m_content (w_http w)) = Inr (filled k e (m_content (w_http w)))"
    unfolding a(7) by (rule read_into_filled [OF a(1) _ _ a(4)]) (use a in \<open>auto simp: body_ok_def elim: room_mono\<close>)
  with a(5) show "body_loop n w = (if e = [] then Inr (w\<lparr>w_bytes := bs, w_http := h\<rparr>)
      else body_loop n (w\<lparr>w_bytes := bs, w_http := h\<lparr>m_body_read := k + int (length e)\<rparr>\<rparr>))"
    by (subst body_loop.simps, cases "m_len (m_content (w_http w)) > 0")
      (simp_all add: a(3) [symmetric] a(6) [symmetric] a(8,9) upd_http_def put_body_def Let_def)
qed (auto simp: body_ok_def put_body_def filled_append intro: room_filled)

lemma is_in_mime_to_read_simps [simp]:
  "is_in_mime_to_read (h\<lparr>m_chunks := cs\<rparr>) = is_in_mime_to_read h"
  "is_in_mime_to_read (h\<lparr>m_content := b\<rparr>) = is_in_mime_to_read h"
  "is_in_mime_to_read (h\<lparr>m_body_read := k\<rparr>) = is_in_mime_to_read h"
  "is_in_mime_to_read (h\<lparr>m_state := st\<rparr>) = is_in_mime_to_read h"
  "is_in_mime_to_read (h\<lparr>m_chunk_len := k\<rparr>) = is_in_mime_to_read h"
  by (simp_all add: is_in_mime_to_read_def get_header_def)

definition chunk_ok :: "cdpi_http \<Rightarrow> bool" where
  "chunk_ok h \<longleftrightarrow> (is_in_mime_to_read h \<longrightarrow> m_chunks h \<noteq> [] \<and> room (m_chunk_len h) (last (m_chunks h)))"

definition put_chunk :: "int \<Rightarrow> byte list \<Rightarrow> cdpi_http \<Rightarrow> cdpi_http" where
  "put_chunk k d h =
     (if is_in_mime_to_read h
      then h\<lparr>m_chunks := butlast (m_chunks h) @ [filled k d (last (m_chunks h))]\<rparr> else h)"

interpretation chunk: copy_loop chunk_loop m_chunk_len chunk_ok put_chunk
proof
  show "m_chunk_len (w_http w) \<le> m_body_read (w_http w) \<Longrightarrow> chunk_loop w = Inr w" for w
    by (subst chunk_loop.simps) simp
next
  fix w :: http_world and k m e bs h
  assume a: "wf_blocks (w_bytes w)" "chunk_ok (w_http w)" "k = m_body_read (w_http w)" "0 \<le> k"
    "k < m_chunk_len (w_http w)" "m = min (m_chunk_len (w_http w) - k) 1024"
    "e = take (nat m) (contents (w_bytes w))"
    "skip_bytes (w_bytes w) m 0 = Inr (bs, int (length e))" "h = put_chunk k e (w_http w)"
  have "is_in_mime_to_read (w_http w) \<Longrightarrow>
      read_into (w_bytes w) m k (last (m_chunks (w_http w))) = Inr (filled k e (last (m_chunks (w_http w))))"
    unfolding a(7) by (rule read_into_filled [OF a(1) _ _ a(4)]) (use a in \<open>auto simp: chunk_ok_def elim: room_mono\<close>)
  with a(2,5) show "chunk_loop w = (if e = [] then Inr (w\<lparr>w_bytes := bs, w_http := h\<rparr>)
      else chunk_loop (w\<lparr>w_bytes := bs, w_http := h\<lparr>m_body_read := k + int (length e)\<rparr>\<rparr>))"
    by (subst chunk_loop.simps, cases "is_in_mime_to_read (w_http w)")
      (simp_all add: a(3) [symmetric] a(6) [symmetric] a(8,9) upd_http_def put_chunk_def chunk_ok_def Let_def)
next
  fix h k j and d :: "byte list"
  assume "chunk_ok h" "0 \<le> k" "k + int (length d) \<le> m_chunk_len h"
  then show "chunk_ok ((put_chunk k d h)\<lparr>m_body_read := j\<rparr>) \<and>
      m_chunk_len ((put_chunk k d h)\<lparr>m_body_read := j\<rparr>) = m_chunk_len h"
    by (simp add: chunk_ok_def put_chunk_def room_filled)
next
  fix h k
  assume "chunk_ok h"
  then show "put_chunk k [] h = h" by (simp add: chunk_ok_def put_chunk_def)
next
  fix h k j and d e :: "byte list"
  assume "chunk_ok h" "0 \<le> k" "k + int (length d) + int (length e) \<le> m_chunk_len h"
  then show "put_chunk (k + int (length d)) e ((put_chunk k d h)\<lparr>m_body_read := j\<rparr>) =
      (put_chunk k (d @ e) h)\<lparr>m_body_read := j\<rparr>"
    using filled_append [of "m_chunk_len h" "last (m_chunks h)" k d e]
    by (cases "is_in_mime_to_read h") (auto simp: chunk_ok_def put_chunk_def)
qed

end
