(* ===== verification/Http_Message.thy ===== *)
theory Http_Message
  imports Http_Parts
begin

text \<open>
  Whole messages: a request with a body of a given length and a chunked body are read to their
  fields and their content, with the calls of the listener in between.
\<close>

lemma http_parse_step: "http_step env w = Inr (More, v) \<Longrightarrow> http_parse env w = http_parse env v"
  by (subst http_parse.simps) simp

section \<open>A request with a body\<close>

text \<open>A listener that does not change what the parser reads.\<close>

definition observes :: "http_env \<Rightarrow> bool" where
  "observes env \<longleftrightarrow> e_listen env = (\<lambda>ev h. m_mime_to_read h)"

lemma emit_observes: "observes env \<Longrightarrow> emit env ev w = w\<lparr>w_out := w_out w @ [(ev, w_http w)]\<rparr>"
  by (simp add: emit_def observes_def)

lemma names_lower [simp]:
  "to_lower_str (str ''content-length'') = str ''content-length''"
  "to_lower_str (str ''content-type'') = str ''content-type''"
  "to_lower_str (str ''transfer-encoding'') = str ''transfer-encoding''"
  by (simp_all add: to_lower_str_def lower_case_def str_def)

lemma get_header_simps [simp]:
  "get_header (h\<lparr>m_chunks := cs\<rparr>) = get_header h"
  "get_header (h\<lparr>m_content := b\<rparr>) = get_header h"
  "get_header (h\<lparr>m_body_read := k\<rparr>) = get_header h"
  "get_header (h\<lparr>m_state := st\<rparr>) = get_header h"
  "get_header (h\<lparr>m_chunk_len := k\<rparr>) = get_header h"
  by (simp_all add: get_header_def fun_eq_iff)

text \<open>The content that a body leaves.\<close>

definition content_of :: "cdpi_http \<Rightarrow> byte list \<Rightarrow> cdpi_bytes" where
  "content_of h body = (if is_in_mime_to_read h then assign_str body else empty_bytes)"

lemma overwrite_all: "length d = length m \<Longrightarrow> overwrite m 0 d = d"
  by (simp add: overwrite_def)

lemma parse_body_contents:
  assumes "observes env" "wf_blocks (w_bytes w)" "contents (w_bytes w) = body @ r"
    and "get_header (w_http w) (str ''content-length'') = num_text 10 (length body)" "length body < 2147483648"
    and "m_content (w_http w) = empty_bytes" "m_body_read (w_http w) = 0" "m_type (w_http w) = PROTO_HTTP_CLIENT"
  obtains bs' h where "wf_blocks bs'" "contents bs' = r"
    "h = (w_http w)\<lparr>m_content := content_of (w_http w) body, m_state := HTTP_METHOD\<rparr>"
    "parse_body env w = Inr (More, w\<lparr>w_bytes := bs', w_http := h,
       w_out := w_out w @ [(CDPI_EVENT_HTTP_READ, h\<lparr>m_body_read := int (length body)\<rparr>),
         (CDPI_EVENT_HTTP_READ_BODY, h)]\<rparr>)"
proof -
  let ?h = "w_http w" and ?n = "int (length body)"
  have n: "content_length env ?h = ?n"
    using read_int_num_text [of 10 "[]" "length body"] assms(4,5) by (simp add: content_length_def)
  define c where "c = (if is_in_mime_to_read ?h
    then \<lparr>m_ptr = Some (map (e_fresh env) [0..<length body]), m_pos = 0, m_len = ?n\<rparr> else empty_bytes)"
  let ?w1 = "w\<lparr>w_http := ?h\<lparr>m_content := c\<rparr>\<rparr>"
  have alloc: "(if is_in_mime_to_read ?h \<and> m_len (m_content ?h) = 0 then alloc_content env ?n w else Inr w) = Inr ?w1"
    using assms(6) by (cases w) (auto simp: c_def alloc_content_def alloc_def empty_bytes_def upd_http_def)
  have "body_ok ?n (w_http ?w1)"
    by (auto simp: body_ok_def room_def c_def empty_bytes_def)
  from body.loop_contents [of ?w1 ?n 0 body] this assms(2,3,7) obtain bs' where b:
    "wf_blocks bs'" "contents bs' = r"
    "body_loop ?n ?w1 = Inr (?w1\<lparr>w_bytes := bs', w_http := (put_body 0 body (w_http ?w1))\<lparr>m_body_read := ?n\<rparr>\<rparr>)"
    by auto
  have "put_body 0 body (w_http ?w1) = ?h\<lparr>m_content := content_of ?h body\<rparr>"
    by (auto simp: put_body_def c_def content_of_def filled_def overwrite_all assign_str_def empty_bytes_def)
  with b n alloc assms(1,7,8) show ?thesis
    by (intro that [OF b(1,2) refl])
      (simp add: parse_body_def Let_def emit_observes upd_http_def set_state_def del: if_split)
qed

definition request_bytes :: "byte list \<Rightarrow> byte list \<Rightarrow> byte list \<Rightarrow> (byte list \<times> byte list) list \<Rightarrow> byte list" where
  "request_bytes meth uri ver fs = first_bytes meth uri ver @ head_bytes fs"

text \<open>The parser behind the head of a request.\<close>

definition requested :: "byte list \<Rightarrow> byte list \<Rightarrow> byte list \<Rightarrow> (byte list \<times> byte list) list \<Rightarrow> cdpi_http \<Rightarrow> cdpi_http" where
  "requested meth uri ver fs h = (clear_message h)\<lparr>m_method := m_method h @ [meth], m_uri := uri, m_ver := ver,
     m_header := header_map fs [], m_state := HTTP_HEAD\<rparr>"

lemma request_head:
  assumes "observes env" "wf_blocks (w_bytes w)" "contents (w_bytes w) = request_bytes meth uri ver fs @ r"
    and "field_ok meth uri ver" "\<forall>f \<in> set fs. header_ok f"
    and "m_type (w_http w) = PROTO_HTTP_CLIENT" "m_state (w_http w) = HTTP_METHOD" "meth \<noteq> str ''CONNECT''"
    and "get_header (requested meth uri ver fs (w_http w)) (str ''content-length'') \<noteq> []"
  obtains bs' h1 where "wf_blocks bs'" "contents bs' = r" 
    "http_parse env w = http_parse env (w\<lparr>w_bytes := bs',
       w_http := (requested meth uri ver fs (w_http w))\<lparr>m_state := HTTP_BODY\<rparr>,
       w_out := w_out w @ [(CDPI_EVENT_HTTP_READ_METHOD, h1),
         (CDPI_EVENT_HTTP_READ_HEAD, (requested meth uri ver fs (w_http w))\<lparr>m_state := HTTP_BODY\<rparr>)]\<rparr>)"
proof -
  have "contents (w_bytes w) = first_bytes meth uri ver @ head_bytes fs @ r"
    using assms(3) by (simp add: request_bytes_def)
  from parse_method_line [OF assms(2) this assms(4), of env] obtain bs1 where bs1:
    "wf_blocks bs1" "contents bs1 = head_bytes fs @ r"
    "parse_method env w = Inr (More, emit env CDPI_EVENT_HTTP_READ_METHOD (w\<lparr>w_bytes := bs1,
      w_http := (clear_message (w_http w))\<lparr>m_method := m_method (w_http w) @ [meth], m_uri := uri,
        m_ver := ver, m_state := HTTP_HEAD\<rparr>\<rparr>))" .
  then obtain w1 where m: "wf_blocks bs1" "contents bs1 = head_bytes fs @ r" "parse_method env w = Inr (More, w1)"
    "w1 = emit env CDPI_EVENT_HTTP_READ_METHOD (w\<lparr>w_bytes := bs1, w_http := (clear_message (w_http w))
      \<lparr>m_method := m_method (w_http w) @ [meth], m_uri := uri, m_ver := ver, m_state := HTTP_HEAD\<rparr>\<rparr>)"
    by blast
  note w1 = m(4) [unfolded emit_observes [OF assms(1)]]
  from parse_head_end [of w1 fs r env] m(1,2) assms(5) obtain bs2 w2 where h:
    "wf_blocks bs2" "contents bs2 = [CR, LF] @ r"
    "w2 = w1\<lparr>w_bytes := bs2, w_http := (w_http w1)\<lparr>m_header := header_map fs (m_header (w_http w1))\<rparr>\<rparr>"
    "parse_head env w1 = (if m_type (w_http w1) = PROTO_HTTP_CLIENT then head_end_client env 2 w2
       else if m_type (w_http w1) = PROTO_HTTP_SERVER then head_end_server env 2 w2
       else Inr (Throw_parse_error, w2))" by (auto simp: w1)
  have w2: "w_http w2 = requested meth uri ver fs (w_http w)"
    by (simp add: h(3) w1 requested_def clear_message_def)
  from skip_w_contents [of w2 "[CR, LF]" r] h(1-3) obtain bs3 where s:
    "skip_w 2 w2 = Inr (w2\<lparr>w_bytes := bs3\<rparr>)" "wf_blocks bs3" "contents bs3 = r" by auto
  have "http_parse env w = http_parse env w1"
    using assms(7) m(3) by (intro http_parse_step) (simp add: http_step_def)
  also have "http_step env w1 = Inr (More, emit env CDPI_EVENT_HTTP_READ_HEAD (set_state HTTP_BODY (w2\<lparr>w_bytes := bs3\<rparr>)))"
    using s(1) w2 assms(6,8,9) h(4)
    by (simp add: http_step_def w1 head_end_client_def Let_def requested_def clear_message_def)
  then have "http_parse env w1 = http_parse env (emit env CDPI_EVENT_HTTP_READ_HEAD (set_state HTTP_BODY (w2\<lparr>w_bytes := bs3\<rparr>)))"
    by (rule http_parse_step)
  finally show ?thesis
    by (intro that [OF s(2,3), of "(clear_message (w_http w))\<lparr>m_method := m_method (w_http w) @ [meth],
        m_uri := uri, m_ver := ver, m_state := HTTP_HEAD\<rparr>"])
      (simp add: emit_observes [OF assms(1)] set_state_def upd_http_def h(3) w1 requested_def clear_message_def)
qed

text \<open>
  C9: a request with a body is read to its fields: the parser consumes exactly the message, records
  the method, URI, version and headers, keeps the body when its type is one to be read, and ends in
  the state for the next request after four calls of the listener. The end of the message is
  reported before its body.
\<close>

theorem http_request:
  assumes "observes env" "wf_blocks (w_bytes w)"
    and "contents (w_bytes w) = request_bytes meth uri ver fs @ body @ r"
    and "field_ok meth uri ver" "\<forall>f \<in> set fs. header_ok f" "meth \<noteq> str ''CONNECT''"
    and "m_type (w_http w) = PROTO_HTTP_CLIENT" "m_state (w_http w) = HTTP_METHOD" "m_body_read (w_http w) = 0"
    and "map_of (header_map fs []) (str ''content-length'') = Some (num_text 10 (length body))"
    and "length body < 2147483648"
  shows "\<exists>v. http_parse env w = http_parse env v \<and> wf_blocks (w_bytes v) \<and> contents (w_bytes v) = r \<and>
    (let h = requested meth uri ver fs (w_http w) in
      w_http v = h\<lparr>m_content := content_of h body, m_state := HTTP_METHOD\<rparr>) \<and>
    map fst (w_out v) = map fst (w_out w) @ [CDPI_EVENT_HTTP_READ_METHOD, CDPI_EVENT_HTTP_READ_HEAD,
      CDPI_EVENT_HTTP_READ, CDPI_EVENT_HTTP_READ_BODY]"
proof -
  let ?h = "requested meth uri ver fs (w_http w)"
  have len: "get_header ?h (str ''content-length'') = num_text 10 (length body)"
    using assms(10) by (simp add: get_header_def requested_def)
  from request_head [of env w meth uri ver fs "body @ r"] assms len obtain bs1 h1 where h:
    "wf_blocks bs1" "contents bs1 = body @ r" 
    "http_parse env w = http_parse env (w\<lparr>w_bytes := bs1, w_http := ?h\<lparr>m_state := HTTP_BODY\<rparr>,
       w_out := w_out w @ [(CDPI_EVENT_HTTP_READ_METHOD, h1), (CDPI_EVENT_HTTP_READ_HEAD, ?h\<lparr>m_state := HTTP_BODY\<rparr>)]\<rparr>)"
    by auto
  let ?w1 = "w\<lparr>w_bytes := bs1, w_http := ?h\<lparr>m_state := HTTP_BODY\<rparr>,
       w_out := w_out w @ [(CDPI_EVENT_HTTP_READ_METHOD, h1), (CDPI_EVENT_HTTP_READ_HEAD, ?h\<lparr>m_state := HTTP_BODY\<rparr>)]\<rparr>"
  have "m_content ?h = empty_bytes" "m_body_read ?h = 0" "m_type ?h = PROTO_HTTP_CLIENT"
    using assms(7,9) by (simp_all add: requested_def clear_message_def clear_bytes_def empty_bytes_def)
  with parse_body_contents [of env ?w1 body r] assms(1,11) h(1,2) len obtain bs2 h2 where b:
    "wf_blocks bs2" "contents bs2 = r"
    "h2 = (w_http ?w1)\<lparr>m_content := content_of (w_http ?w1) body, m_state := HTTP_METHOD\<rparr>"
    "parse_body env ?w1 = Inr (More, ?w1\<lparr>w_bytes := bs2, w_http := h2,
       w_out := w_out ?w1 @ [(CDPI_EVENT_HTTP_READ, h2\<lparr>m_body_read := int (length body)\<rparr>),
         (CDPI_EVENT_HTTP_READ_BODY, h2)]\<rparr>)" by auto
  define v where "v = ?w1\<lparr>w_bytes := bs2, w_http := h2,
       w_out := w_out ?w1 @ [(CDPI_EVENT_HTTP_READ, h2\<lparr>m_body_read := int (length body)\<rparr>),
         (CDPI_EVENT_HTTP_READ_BODY, h2)]\<rparr>"
  have "http_parse env ?w1 = http_parse env v"
    using b(4) by (intro http_parse_step) (simp add: http_step_def v_def)
  with h(3) b(1-3) show ?thesis
    by (intro exI [of _ v]) (simp add: v_def content_of_def)
qed

text \<open>A request of seven bytes for a mail form.\<close>

definition sample_fields :: "(byte list \<times> byte list) list" where
  "sample_fields = [(str ''Content-Type'', str ''a''), (str ''Content-Length'', str ''7'')]"

definition sample_env :: http_env where
  "sample_env = \<lparr>e_listen = \<lambda>_ h. m_mime_to_read h, e_fresh = \<lambda>_. 0xff, e_undef = 0, e_junk = [0]\<rparr>"

definition sample_world :: "byte list \<Rightarrow> http_world" where
  "sample_world xs = \<lparr>w_http = add_mime_to_read (str ''a'') (new_http PROTO_HTTP_CLIENT 0), w_peer = None,
     w_bytes = [assign_str xs], w_out = []\<rparr>"

theorem http_request_witness:
  "\<exists>v. http_parse sample_env (sample_world (request_bytes (str ''POST'') (str ''/f'') (str ''HTTP/1.1'') sample_fields
       @ str ''to=you!'' @ str ''GET'')) = http_parse sample_env v \<and> wf_blocks (w_bytes v) \<and>
     contents (w_bytes v) = str ''GET'' \<and>
    (let h = requested (str ''POST'') (str ''/f'') (str ''HTTP/1.1'') sample_fields
        (w_http (sample_world (request_bytes (str ''POST'') (str ''/f'') (str ''HTTP/1.1'') sample_fields
       @ str ''to=you!'' @ str ''GET''))) in
      w_http v = h\<lparr>m_content := content_of h (str ''to=you!''), m_state := HTTP_METHOD\<rparr>) \<and>
    map fst (w_out v) = map fst (w_out (sample_world (request_bytes (str ''POST'') (str ''/f'') (str ''HTTP/1.1'') sample_fields
       @ str ''to=you!'' @ str ''GET''))) @ [CDPI_EVENT_HTTP_READ_METHOD, CDPI_EVENT_HTTP_READ_HEAD,
      CDPI_EVENT_HTTP_READ, CDPI_EVENT_HTTP_READ_BODY]"
  by (rule http_request)
    (simp add: observes_def sample_env_def sample_world_def new_http_def add_mime_to_read_def
      field_ok_def header_ok_def sample_fields_def str_def header_map_def to_lower_str_def lower_case_def
      num_text.simps digit_char_def)+

end
