(* ===== verification/Http_Chunked.thy ===== *)
theory Http_Chunked
  imports Http_Message
begin

text \<open>
  A chunked body is read to the concatenation of its chunks. It has its own state machine: the length
  line, the bytes of the chunk, the line break, and at the length 0 the trailers.
\<close>

section \<open>One chunk\<close>

definition chunk_bytes :: "byte list \<Rightarrow> byte list" where
  "chunk_bytes c = num_text 16 (length c) @ [CR, LF] @ c @ [CR, LF]"

lemma num_text_chars: "2 \<le> b \<Longrightarrow> b \<le> 16 \<Longrightarrow> c \<in> set (num_text b n) \<Longrightarrow> c \<noteq> 0 \<and> c \<noteq> LF \<and> c \<noteq> CR"
  using num_text_digits [of b c n] digit_char_simps by (metis le_less_trans less_le_trans)

lemma num_text_length: "2 \<le> b \<Longrightarrow> n < b ^ Suc k \<Longrightarrow> length (num_text b n) \<le> Suc k"
proof (induction k arbitrary: n)
  case 0
  then show ?case by (subst num_text.simps) simp
next
  case (Suc k)
  show ?case
  proof (cases "n < b")
    case True
    then show ?thesis by (subst num_text.simps) simp
  next
    case False
    have "n div b < b ^ Suc k" using Suc.prems by (simp add: less_mult_imp_div_less mult.commute)
    from Suc.IH [OF Suc.prems(1) this] False Suc.prems(1) show ?thesis by (subst num_text.simps) simp
  qed
qed

lemma chunk_len_line:
  assumes "wf_blocks bs" "contents bs = num_text 16 n @ [CR, LF] @ r" "n < 2147483648"
  shows "read_bytes_ec bs 128 LF [] = num_text 16 n @ [CR, LF]"
proof -
  have "length (num_text 16 n) \<le> Suc 7" using assms(3) by (intro num_text_length) simp_all
  moreover have "LF \<notin> set (num_text 16 n @ [CR])" using num_text_chars [of 16 LF n] by auto
  ultimately show ?thesis
    using line_ended [OF assms(1), of "num_text 16 n @ [CR]" r 128] assms(2) by simp
qed

lemma store_chunk_len_line:
  assumes "n < 2147483648"
  shows "store_chunk_len env (num_text 16 n @ [CR, LF]) w = upd_http (\<lambda>h. h\<lparr>m_chunk_len := int n\<rparr>) w"
proof -
  have "takeWhile (\<lambda>c. c \<noteq> 0) ((num_text 16 n @ [CR, LF]) @ e_junk env) =
    num_text 16 n @ CR # LF # takeWhile (\<lambda>c. c \<noteq> 0) (e_junk env)"
    using num_text_chars [of 16 0 n] by (auto simp: takeWhile_append)
  moreover have "read_int 16 (num_text 16 n @ CR # LF # xs) = Some (int n)" for xs
    using read_int_num_text [of 16 "CR # LF # xs" n] assms by (simp add: is_digit_of_def digit_value_def)
  ultimately show ?thesis by (simp add: store_chunk_len_def)
qed

text \<open>The bytes of a chunk and the line break behind it.\<close>

lemma chunks_bytes_assign: "chunks_bytes (map assign_str cs) = Inr (concat cs)"
  by (induction cs) (auto simp: assign_str_def ptr_mem_def rdsi_def rds_def)

definition joined :: "byte list list \<Rightarrow> cdpi_bytes \<Rightarrow> cdpi_bytes" where
  "joined cs b = b\<lparr>m_ptr := Some (concat cs), m_len := int (length (concat cs))\<rparr>"

lemma join_chunks_assign:
  assumes "m_chunks (w_http w) = map assign_str cs" "cs \<noteq> []"
  shows "join_chunks env w = Inr (upd_http (\<lambda>h. h\<lparr>m_content := joined cs (m_content h)\<rparr>) w)"
proof -
  have "(\<Sum>b \<leftarrow> map assign_str cs. m_len b) = int (length (concat cs))"
    by (induction cs) (auto simp: assign_str_def)
  moreover have "0 \<le> int (length (concat cs))" by simp
  ultimately show ?thesis
    using assms chunks_bytes_assign [of cs]
    by (auto simp: join_chunks_def alloc_def joined_def upd_http_def)
qed

lemma chunk_body_step:
  assumes "wf_blocks (w_bytes w)" "contents (w_bytes w) = c @ r" "m_chunk_len (w_http w) = int (length c)"
    and "m_body_read (w_http w) = 0" "is_in_mime_to_read (w_http w)"
    and "m_chunks (w_http w) = cs @ [\<lparr>m_ptr = Some a, m_pos = 0, m_len = int (length c)\<rparr>]" "length a = length c"
  obtains bs' where "wf_blocks bs'" "contents bs' = r"
    "parse_chunk_body env w = Inr (More, w\<lparr>w_bytes := bs', w_http := (w_http w)
      \<lparr>m_chunks := cs @ [assign_str c], m_body_read := int (length c), m_state := HTTP_CHUNK_EL\<rparr>\<rparr>)"
proof -
  have "chunk_ok (w_http w)" using assms by (simp add: chunk_ok_def room_def)
  with chunk.loop_contents [of w 0 c] assms obtain bs' where b: "wf_blocks bs'" "contents bs' = r"
    "chunk_loop w = Inr (w\<lparr>w_bytes := bs', w_http := (put_chunk 0 c (w_http w))\<lparr>m_body_read := int (length c)\<rparr>\<rparr>)"
    by auto
  have "put_chunk 0 c (w_http w) = (w_http w)\<lparr>m_chunks := cs @ [assign_str c]\<rparr>"
    using assms(5-7) by (simp add: put_chunk_def filled_def overwrite_all assign_str_def)
  with b assms(3) show ?thesis
    by (intro that [OF b(1,2)]) (simp add: parse_chunk_body_def set_state_def upd_http_def)
qed

lemma chunk_el_step:
  assumes "observes env" "wf_blocks (w_bytes w)" "contents (w_bytes w) = CR # LF # r" "m_chunk_len (w_http w) \<noteq> 0"
    and "m_chunks (w_http w) = map assign_str cs" "cs \<noteq> []"
  obtains bs' h where "wf_blocks bs'" "contents bs' = r"
    "h = (w_http w)\<lparr>m_state := HTTP_CHUNK_LEN, m_body_read := 0, m_content := joined cs (m_content (w_http w))\<rparr>"
    "parse_chunk_el env w = Inr (More, w\<lparr>w_bytes := bs', w_http := h,
       w_out := w_out w @ [(CDPI_EVENT_HTTP_READ_BODY, h)]\<rparr>)"
proof -
  have buf: "read_bytes_ec (w_bytes w) 8 LF [] = [CR, LF]"
    using line_ended [OF assms(2), of "[CR]" r 8] assms(3) by simp
  from skip_w_contents [of w "[CR, LF]" r] assms(2,3) obtain bs' where s:
    "skip_w 2 w = Inr (w\<lparr>w_bytes := bs'\<rparr>)" "wf_blocks bs'" "contents bs' = r" by auto
  let ?w = "upd_http (\<lambda>h. h\<lparr>m_body_read := 0\<rparr>) (set_state HTTP_CHUNK_LEN (w\<lparr>w_bytes := bs'\<rparr>))"
  have "join_chunks env ?w = Inr (upd_http (\<lambda>h. h\<lparr>m_content := joined cs (m_content h)\<rparr>) ?w)"
    using assms(5,6) by (intro join_chunks_assign) (simp_all add: set_state_def)
  with buf s(1) assms(4) show ?thesis
    by (intro that [OF s(2,3) refl])
      (simp add: parse_chunk_el_def is_empty_line_def emit_observes [OF assms(1)] set_state_def upd_http_def)
qed

lemma open_chunk_step:
  assumes "wf_blocks (w_bytes w)" "contents (w_bytes w) = num_text 16 n @ [CR, LF] @ r" "n < 2147483648" "n \<noteq> 0"
    and "is_in_mime_to_read (w_http w)"
  obtains bs' where "wf_blocks bs'" "contents bs' = r"
    "parse_chunk_len env w = Inr (More, w\<lparr>w_bytes := bs', w_http := (w_http w)\<lparr>m_chunk_len := int n,
       m_chunks := m_chunks (w_http w) @ [\<lparr>m_ptr = Some (map (e_fresh env) [0..<n]), m_pos = 0, m_len = int n\<rparr>],
       m_state := HTTP_CHUNK_BODY\<rparr>\<rparr>)"
proof -
  let ?t = "num_text 16 n @ [CR, LF]"
  let ?b = "\<lparr>m_ptr = Some (map (e_fresh env) [0..<n]), m_pos = 0, m_len = int n\<rparr>"
  let ?w = "upd_http (\<lambda>h. h\<lparr>m_chunk_len := int n\<rparr>) w"
  let ?w1 = "set_state HTTP_CHUNK_BODY (upd_http (\<lambda>h. h\<lparr>m_chunks := m_chunks h @ [?b]\<rparr>) ?w)"
  have o: "open_chunk env (store_chunk_len env ?t w) = Inr ?w1"
    using assms(3-5) by (simp add: store_chunk_len_line open_chunk_def alloc_def empty_bytes_def)
  from skip_w_contents [of ?w1 ?t r] assms(1,2) obtain bs' where s:
    "skip_w (int (length ?t)) ?w1 = Inr (?w1\<lparr>w_bytes := bs'\<rparr>)" "wf_blocks bs'" "contents bs' = r" by auto
  show ?thesis
    using s(1) o chunk_len_line [OF assms(1-3)]
    by (intro that [OF s(2,3)]) (simp add: parse_chunk_len_def Let_def set_state_def upd_http_def)
qed

lemma read_chunk:
  assumes "observes env" "wf_blocks (w_bytes w)" "contents (w_bytes w) = chunk_bytes c @ r" "c \<noteq> []"
    and "length c < 2147483648" "m_state (w_http w) = HTTP_CHUNK_LEN" "m_body_read (w_http w) = 0"
    and "is_in_mime_to_read (w_http w)" "m_chunks (w_http w) = map assign_str cs"
  obtains bs' h where "wf_blocks bs'" "contents bs' = r"
    "h = (w_http w)\<lparr>m_chunk_len := int (length c), m_chunks := map assign_str (cs @ [c]),
       m_content := joined (cs @ [c]) (m_content (w_http w))\<rparr>"
    "http_parse env w = http_parse env (w\<lparr>w_bytes := bs', w_http := h,
       w_out := w_out w @ [(CDPI_EVENT_HTTP_READ_BODY, h)]\<rparr>)"
proof -
  let ?h = "w_http w" and ?b = "\<lparr>m_ptr = Some (map (e_fresh env) [0..<length c]), m_pos = 0, m_len = int (length c)\<rparr>"
  from open_chunk_step [of w "length c" "c @ CR # LF # r" env] assms obtain bs1 where 1: "wf_blocks bs1"
    "contents bs1 = c @ CR # LF # r"
    "parse_chunk_len env w = Inr (More, w\<lparr>w_bytes := bs1, w_http := ?h\<lparr>m_chunk_len := int (length c),
       m_chunks := map assign_str cs @ [?b], m_state := HTTP_CHUNK_BODY\<rparr>\<rparr>)"
    by (auto simp: chunk_bytes_def)
  let ?w1 = "w\<lparr>w_bytes := bs1, w_http := ?h\<lparr>m_chunk_len := int (length c),
       m_chunks := map assign_str cs @ [?b], m_state := HTTP_CHUNK_BODY\<rparr>\<rparr>"
  from chunk_body_step [of ?w1 c "CR # LF # r" "map assign_str cs" "map (e_fresh env) [0..<length c]" env] 1(1,2) assms(7,8) obtain bs2 where 2:
    "wf_blocks bs2" "contents bs2 = CR # LF # r"
    "parse_chunk_body env ?w1 = Inr (More, ?w1\<lparr>w_bytes := bs2, w_http := (w_http ?w1)
      \<lparr>m_chunks := map assign_str cs @ [assign_str c], m_body_read := int (length c), m_state := HTTP_CHUNK_EL\<rparr>\<rparr>)"
    by auto
  define w2 where "w2 = ?w1\<lparr>w_bytes := bs2, w_http := (w_http ?w1)
      \<lparr>m_chunks := map assign_str cs @ [assign_str c], m_body_read := int (length c), m_state := HTTP_CHUNK_EL\<rparr>\<rparr>"
  from chunk_el_step [of env w2 r "cs @ [c]"] assms(1,4) 2(1,2) obtain bs3 h3 where 3: "wf_blocks bs3" "contents bs3 = r"
    "h3 = (w_http w2)\<lparr>m_state := HTTP_CHUNK_LEN, m_body_read := 0, m_content := joined (cs @ [c]) (m_content (w_http w2))\<rparr>"
    "parse_chunk_el env w2 = Inr (More, w2\<lparr>w_bytes := bs3, w_http := h3,
       w_out := w_out w2 @ [(CDPI_EVENT_HTTP_READ_BODY, h3)]\<rparr>)" by (auto simp: w2_def)
  have "http_parse env w = http_parse env ?w1"
    using 1(3) assms(6) by (intro http_parse_step) (simp add: http_step_def)
  also have "\<dots> = http_parse env w2"
    using 2(3) by (intro http_parse_step) (simp add: http_step_def w2_def)
  also have "\<dots> = http_parse env (w2\<lparr>w_bytes := bs3, w_http := h3,
       w_out := w_out w2 @ [(CDPI_EVENT_HTTP_READ_BODY, h3)]\<rparr>)"
    using 3(4) by (intro http_parse_step) (simp add: http_step_def w2_def)
  finally have p: "http_parse env w = http_parse env (w\<lparr>w_bytes := bs3, w_http := h3,
       w_out := w_out w @ [(CDPI_EVENT_HTTP_READ_BODY, h3)]\<rparr>)" by (simp add: w2_def)
  show ?thesis
    using assms(6,7) by (intro that [OF 3(1,2) _ p]) (cases ?h, simp add: 3(3) w2_def)
qed

text \<open>What a list of chunks leaves in the parser.\<close>

definition with_chunks :: "byte list list \<Rightarrow> cdpi_http \<Rightarrow> cdpi_http" where
  "with_chunks cs h = (if cs = [] then h
     else h\<lparr>m_chunk_len := int (length (last cs)), m_chunks := map assign_str cs,
            m_content := joined cs (m_content h)\<rparr>)"

lemma read_chunks:
  assumes "observes env" "wf_blocks (w_bytes w)" "contents (w_bytes w) = concat (map chunk_bytes ds) @ r"
    and "\<forall>c \<in> set ds. c \<noteq> [] \<and> length c < 2147483648"
    and "m_state h = HTTP_CHUNK_LEN" "m_body_read h = 0" "is_in_mime_to_read h" "m_chunks h = []"
    and "w_http w = with_chunks cs h"
  shows "\<exists>v. http_parse env w = http_parse env v \<and> wf_blocks (w_bytes v) \<and> contents (w_bytes v) = r \<and>
    w_http v = with_chunks (cs @ ds) h \<and> w_peer v = w_peer w \<and>
    map fst (w_out v) = map fst (w_out w) @ replicate (length ds) CDPI_EVENT_HTTP_READ_BODY"
  using assms(2-4,9)
proof (induction ds arbitrary: w cs)
  case Nil
  then show ?case by auto
next
  case (Cons d ds)
  have h: "m_state (w_http w) = HTTP_CHUNK_LEN" "m_body_read (w_http w) = 0" "is_in_mime_to_read (w_http w)"
    "m_chunks (w_http w) = map assign_str cs"
    using Cons.prems(4) assms(5-8) by (auto simp: with_chunks_def)
  from read_chunk [of env w d "concat (map chunk_bytes ds) @ r" cs] assms(1) Cons.prems h
  obtain bs' h' where r: "wf_blocks bs'" "contents bs' = concat (map chunk_bytes ds) @ r"
    "h' = (w_http w)\<lparr>m_chunk_len := int (length d), m_chunks := map assign_str (cs @ [d]),
       m_content := joined (cs @ [d]) (m_content (w_http w))\<rparr>"
    "http_parse env w = http_parse env (w\<lparr>w_bytes := bs', w_http := h',
       w_out := w_out w @ [(CDPI_EVENT_HTTP_READ_BODY, h')]\<rparr>)" by auto
  have "h' = with_chunks (cs @ [d]) h"
    using Cons.prems(4) by (simp add: r(3) with_chunks_def joined_def)
  with Cons.IH [of "w\<lparr>w_bytes := bs', w_http := h', w_out := w_out w @ [(CDPI_EVENT_HTTP_READ_BODY, h')]\<rparr>" "cs @ [d]"]
    r(1,2,4) Cons.prems(3) show ?case by simp
qed

section \<open>The whole body\<close>

definition chunk_end :: "(byte list \<times> byte list) list \<Rightarrow> byte list" where
  "chunk_end ts = num_text 16 0 @ [CR, LF] @ head_bytes ts"

lemma read_last_chunk:
  assumes "wf_blocks (w_bytes w)" "contents (w_bytes w) = num_text 16 0 @ [CR, LF] @ r"
    and "m_state (w_http w) = HTTP_CHUNK_LEN"
  obtains bs' where "wf_blocks bs'" "contents bs' = r"
    "http_parse env w = http_parse env (w\<lparr>w_bytes := bs',
       w_http := (w_http w)\<lparr>m_chunk_len := 0, m_state := HTTP_CHUNK_TRAILER\<rparr>\<rparr>)"
proof -
  let ?t = "num_text 16 0 @ [CR, LF]"
  let ?w1 = "set_state HTTP_CHUNK_TRAILER (upd_http (\<lambda>h. h\<lparr>m_chunk_len := 0\<rparr>) w)"
  have o: "open_chunk env (store_chunk_len env ?t w) = Inr ?w1"
    by (simp add: store_chunk_len_line open_chunk_def)
  from skip_w_contents [of ?w1 ?t r] assms(1,2) obtain bs' where s:
    "skip_w (int (length ?t)) ?w1 = Inr (?w1\<lparr>w_bytes := bs'\<rparr>)" "wf_blocks bs'" "contents bs' = r" by auto
  have "http_step env w = Inr (More, ?w1\<lparr>w_bytes := bs'\<rparr>)"
    using assms(3) s(1) o chunk_len_line [OF assms(1,2)] by (simp add: http_step_def parse_chunk_len_def Let_def)
  then have "http_parse env w = http_parse env (?w1\<lparr>w_bytes := bs'\<rparr>)" by (rule http_parse_step)
  with s(2,3) show ?thesis by (intro that [OF s(2,3)]) (cases w, simp add: set_state_def upd_http_def)
qed

lemma read_trailers:
  assumes "observes env" "wf_blocks (w_bytes w)" "contents (w_bytes w) = head_bytes ts @ r" "\<forall>f \<in> set ts. header_ok f"
    and "m_state (w_http w) = HTTP_CHUNK_TRAILER" "m_type (w_http w) = PROTO_HTTP_CLIENT"
  obtains v where "http_parse env w = http_parse env v" "wf_blocks (w_bytes v)" "contents (w_bytes v) = r"
    "w_http v = (w_http w)\<lparr>m_header := header_map ts (m_header (w_http w)), m_state := HTTP_METHOD\<rparr>"
    "map fst (w_out v) = map fst (w_out w) @ [CDPI_EVENT_HTTP_READ_TRAILER, CDPI_EVENT_HTTP_READ]"
    "w_peer v = w_peer w"
proof -
  from parse_head_end [OF assms(2-4), of env] obtain bs1 w1 where h: "wf_blocks bs1" "contents bs1 = [CR, LF] @ r"
    "w1 = w\<lparr>w_bytes := bs1, w_http := (w_http w)\<lparr>m_header := header_map ts (m_header (w_http w))\<rparr>\<rparr>"
    "parse_head env w = (if m_type (w_http w) = PROTO_HTTP_CLIENT then head_end_client env 2 w1
      else if m_type (w_http w) = PROTO_HTTP_SERVER then head_end_server env 2 w1 else Inr (Throw_parse_error, w1))" .
  from skip_w_contents [of w1 "[CR, LF]" r] h(1-3) obtain bs2 where s:
    "skip_w 2 w1 = Inr (w1\<lparr>w_bytes := bs2\<rparr>)" "wf_blocks bs2" "contents bs2 = r" by auto
  let ?v = "emit env CDPI_EVENT_HTTP_READ (emit env CDPI_EVENT_HTTP_READ_TRAILER
    (set_state HTTP_METHOD (w1\<lparr>w_bytes := bs2\<rparr>)))"
  have "http_step env w = Inr (More, ?v)"
    using assms(5,6) h(4) s(1) by (simp add: http_step_def head_end_client_def h(3))
  then have "http_parse env w = http_parse env ?v" by (rule http_parse_step)
  then show ?thesis
    by (rule that) (simp_all add: s emit_observes [OF assms(1)] set_state_def upd_http_def h(3))
qed


text \<open>A parser behind the head of a request of the type that is read.\<close>

definition sample_chunked :: "byte list \<Rightarrow> http_world" where
  "sample_chunked xs = \<lparr>w_http = (add_mime_to_read (str ''a'') (new_http PROTO_HTTP_CLIENT 0))
     \<lparr>m_state := HTTP_CHUNK_LEN, m_header := [(str ''content-type'', str ''a; b'')]\<rparr>,
     w_peer = None, w_bytes = [assign_str xs], w_out = []\<rparr>"


end
