(* ===== verification/Http_Safe.thy ===== *)
theory Http_Safe
  imports Http_Chunked
begin

text \<open>
  The parser of \<open>cdpi_http.cpp\<close> on arbitrary bytes: with a listener that only observes it stays inside
  of its arrays and its queue, whatever the peer sends.
\<close>

section \<open>The invariant\<close>

definition http_inv :: "http_env \<Rightarrow> http_world \<Rightarrow> bool" where
  "http_inv env w \<longleftrightarrow>
     wf_blocks (w_bytes w) \<and> 0 \<le> m_body_read (w_http w) \<and>
     (m_state (w_http w) = HTTP_HEAD \<longrightarrow> m_len (m_content (w_http w)) = 0 \<and>
        (m_type (w_http w) = PROTO_HTTP_CLIENT \<longrightarrow> m_method (w_http w) \<noteq> [])) \<and>
     (m_state (w_http w) = HTTP_BODY \<longrightarrow> body_ok (content_length env (w_http w)) (w_http w)) \<and>
     (m_state (w_http w) = HTTP_CHUNK_BODY \<longrightarrow> chunk_ok (w_http w)) \<and>
     (m_state (w_http w) = HTTP_RESPONSE \<longrightarrow> m_type (w_http w) \<noteq> PROTO_HTTP_CLIENT) \<and>
     (\<forall>b \<in> set (m_chunks (w_http w)). 0 \<le> m_len b \<and> room (m_len b) b)"

text \<open>
  What a step may do: keep the invariant and the types to be read, or fail to allocate, which it only
  tries for a type to be read.
\<close>

definition safe_result :: "http_env \<Rightarrow> http_world \<Rightarrow> (http_exit \<times> http_world) result \<Rightarrow> bool" where
  "safe_result env w r \<longleftrightarrow>
     (case r of
        Inl e \<Rightarrow> e = BadAlloc \<and> m_mime_to_read (w_http w) \<noteq> {}
      | Inr (x, v) \<Rightarrow> http_inv env v \<and> m_mime_to_read (w_http v) = m_mime_to_read (w_http w))"

lemma safe_result_Inr [simp]:
  "safe_result env w (Inr (x, v)) \<longleftrightarrow> http_inv env v \<and> m_mime_to_read (w_http v) = m_mime_to_read (w_http w)"
  by (simp add: safe_result_def)

lemma safe_result_Inl [simp]: "safe_result env w (Inl e) \<longleftrightarrow> e = BadAlloc \<and> m_mime_to_read (w_http w) \<noteq> {}"
  by (simp add: safe_result_def)

lemma safe_result_mono:
  "safe_result env v r \<Longrightarrow> m_mime_to_read (w_http v) = m_mime_to_read (w_http w) \<Longrightarrow> safe_result env w r"
  by (auto simp: safe_result_def split: sum.splits)

lemma skip_w_safe:
  assumes "wf_blocks (w_bytes w)"
  obtains bs' where "skip_w (int n) w = Inr (w\<lparr>w_bytes := bs'\<rparr>)" "wf_blocks bs'"
  using blocks.skip [OF assms, of "int n"] by (auto simp: skip_w_def)

lemma emit_inv [simp]: "observes env \<Longrightarrow> http_inv env (emit env ev w) \<longleftrightarrow> http_inv env w"
  by (simp add: emit_observes http_inv_def)

lemma w_http_emit [simp]: "observes env \<Longrightarrow> w_http (emit env ev w) = w_http w"
  by (simp add: emit_observes)

lemma parse_method_safe:
  assumes "observes env" "http_inv env w" "m_state (w_http w) = HTTP_METHOD"
  shows "safe_result env w (parse_method env w)"
proof -
  have skip: "safe_result env w (bindR (skip_w (int n) v) (\<lambda>w4. Inr (More, emit env ev
      (upd_http (\<lambda>h. h\<lparr>m_state := HTTP_HEAD\<rparr>) w4))))"
    if "v = upd_http (\<lambda>h. h\<lparr>m_ver := c\<rparr>) (upd_http (\<lambda>h. h\<lparr>m_uri := b\<rparr>)
      (upd_http (\<lambda>h. h\<lparr>m_method := m_method h @ [a]\<rparr>) (upd_http clear_message w)))" for v n a b c ev
  proof -
    have "wf_blocks (w_bytes v)" using assms(2) that by (simp add: http_inv_def)
    from skip_w_safe [OF this, of n] obtain bs where
      "skip_w (int n) v = Inr (v\<lparr>w_bytes := bs\<rparr>)" "wf_blocks bs" .
    with assms that show ?thesis
      by (simp add: http_inv_def upd_http_def clear_message_def clear_bytes_def)
  qed
  show ?thesis
    using assms unfolding parse_method_def Let_def
    by (auto simp: http_inv_def clear_message_def intro!: skip)
qed

lemma parse_response_safe:
  assumes "observes env" "http_inv env w" "m_state (w_http w) = HTTP_RESPONSE"
  shows "safe_result env w (parse_response env w)"
proof -
  have skip: "safe_result env w (bindR (skip_w (int n) v) (\<lambda>w4. Inr (More, emit env ev
      (upd_http (\<lambda>h. h\<lparr>m_state := HTTP_HEAD\<rparr>) w4))))"
    if "v = upd_http (\<lambda>h. h\<lparr>m_res_msg := c\<rparr>) (upd_http (\<lambda>h. h\<lparr>m_code := b\<rparr>)
      (upd_http (\<lambda>h. h\<lparr>m_ver := a\<rparr>) (upd_http clear_message w)))" for v n a b c ev
  proof -
    have "wf_blocks (w_bytes v)" using assms(2) that by (simp add: http_inv_def)
    from skip_w_safe [OF this, of n] obtain bs where
      "skip_w (int n) v = Inr (v\<lparr>w_bytes := bs\<rparr>)" "wf_blocks bs" .
    with assms that show ?thesis
      by (simp add: http_inv_def upd_http_def clear_message_def clear_bytes_def)
  qed
  show ?thesis
    using assms unfolding parse_response_def Let_def
    by (auto simp: http_inv_def clear_message_def intro!: skip)
qed

lemma store_field_inv:
  "http_inv env w \<Longrightarrow> m_state (w_http w) \<in> {HTTP_HEAD, HTTP_CHUNK_TRAILER} \<Longrightarrow>
     http_inv env (store_field fld w)"
  by (cases "(fld, w)" rule: store_field.cases) (auto simp: http_inv_def set_header_def http_head_const_def)

lemma store_field_http [simp]:
  "m_state (w_http (store_field fld w)) = m_state (w_http w)"
  "m_mime_to_read (w_http (store_field fld w)) = m_mime_to_read (w_http w)"
  by (cases "(fld, w)" rule: store_field.cases; simp add: set_header_def http_head_const_def)+

lemma set_state_http [simp]: "w_http (set_state st w) = (w_http w)\<lparr>m_state := st\<rparr>"
  by (simp add: set_state_def)

lemma head_end_client_safe:
  assumes "observes env" "http_inv env w" "m_state (w_http w) \<in> {HTTP_HEAD, HTTP_CHUNK_TRAILER}"
    and "m_type (w_http w) = PROTO_HTTP_CLIENT"
  shows "safe_result env w (head_end_client env (int n) w)"
proof -
  have "wf_blocks (w_bytes w)" using assms(2) by (simp add: http_inv_def)
  from skip_w_safe [OF this, of n] obtain bs where
    "skip_w (int n) w = Inr (w\<lparr>w_bytes := bs\<rparr>)" "wf_blocks bs" .
  with assms show ?thesis
    by (auto simp: head_end_client_def http_inv_def body_ok_def Let_def)
qed

lemma head_end_server_safe:
  assumes "observes env" "http_inv env w" "m_state (w_http w) \<in> {HTTP_HEAD, HTTP_CHUNK_TRAILER}"
    and "m_type (w_http w) = PROTO_HTTP_SERVER"
  shows "safe_result env w (head_end_server env (int n) w)"
proof (cases "w_peer w = None \<or> w_peer w = Some []")
  case True
  with assms(2) show ?thesis by (auto simp: head_end_server_def)
next
  case False
  then obtain m ms where p: "w_peer w = Some (m # ms)" by (auto simp: neq_Nil_conv)
  have "wf_blocks (w_bytes (w\<lparr>w_peer := Some ms\<rparr>))" using assms(2) by (simp add: http_inv_def)
  from skip_w_safe [OF this, of n] obtain bs where
    "skip_w (int n) (w\<lparr>w_peer := Some ms\<rparr>) = Inr (w\<lparr>w_peer := Some ms, w_bytes := bs\<rparr>)" "wf_blocks bs" .
  with assms p show ?thesis
    by (auto simp: head_end_server_def http_inv_def body_ok_def Let_def)
qed

lemma parse_head_safe:
  "observes env \<Longrightarrow> http_inv env w \<Longrightarrow> m_state (w_http w) \<in> {HTTP_HEAD, HTTP_CHUNK_TRAILER} \<Longrightarrow>
     safe_result env w (parse_head env w)"
proof (induction env w rule: parse_head.induct)
  case (1 env w)
  let ?buf = "read_bytes_ec (w_bytes w) 8192 LF []"
  show ?case
  proof (cases "?buf = [] \<or> last ?buf \<noteq> LF \<or> is_empty_line ?buf")
    case True
    with "1.prems" head_end_client_safe [of env w "length ?buf"] head_end_server_safe [of env w "length ?buf"]
    show ?thesis by (subst parse_head.simps) (auto simp: Let_def)
  next
    case False
    let ?v = "store_field (header_field ?buf) w"
    from "1.prems" have v: "http_inv env ?v" by (intro store_field_inv)
    then have "wf_blocks (w_bytes ?v)" by (simp add: http_inv_def)
    from skip_w_safe [OF this, of "length ?buf"] obtain bs where
      s: "skip_w (int (length ?buf)) ?v = Inr (?v\<lparr>w_bytes := bs\<rparr>)" "wf_blocks bs" .
    have "safe_result env (?v\<lparr>w_bytes := bs\<rparr>) (parse_head env (?v\<lparr>w_bytes := bs\<rparr>))"
      using "1.prems" False v s(2) by (intro "1.IH" [OF refl refl _ _ s(1)]) (auto simp: http_inv_def)
    then have "safe_result env w (parse_head env (?v\<lparr>w_bytes := bs\<rparr>))"
      by (rule safe_result_mono) simp
    with False s(1) show ?thesis by (subst parse_head.simps) (simp add: Let_def)
  qed
qed


section \<open>Bodies and chunks\<close>

lemma parse_body_safe:
  assumes "observes env" "http_inv env w" "m_state (w_http w) = HTTP_BODY"
  shows "safe_result env w (parse_body env w)"
proof -
  let ?n = "content_length env (w_http w)"
  let ?r = "if is_in_mime_to_read (w_http w) \<and> m_len (m_content (w_http w)) = 0 then alloc_content env ?n w else Inr w"
  have inv: "wf_blocks (w_bytes w)" "0 \<le> m_body_read (w_http w)" "body_ok ?n (w_http w)"
    using assms(2,3) by (simp_all add: http_inv_def)
  show ?thesis
  proof (cases "?n < 0 \<and> is_in_mime_to_read (w_http w) \<and> m_len (m_content (w_http w)) = 0")
    case True
    then show ?thesis
      by (auto simp: parse_body_def Let_def alloc_content_def alloc_def is_in_mime_to_read_def)
  next
    case False
    obtain c where c: "?r = Inr (w\<lparr>w_http := (w_http w)\<lparr>m_content := c\<rparr>\<rparr>)"
      "body_ok ?n ((w_http w)\<lparr>m_content := c\<rparr>)"
    proof (cases "is_in_mime_to_read (w_http w) \<and> m_len (m_content (w_http w)) = 0")
      case True
      with False show ?thesis
        by (intro that [of "(m_content (w_http w))\<lparr>m_ptr := Some (map (e_fresh env) [0..<nat ?n]), m_len := ?n\<rparr>"])
          (simp_all add: alloc_content_def alloc_def upd_http_def body_ok_def room_def)
    next
      case False
      with inv(3) show ?thesis by (intro that [of "m_content (w_http w)"]) auto
    qed
    let ?w1 = "w\<lparr>w_http := (w_http w)\<lparr>m_content := c\<rparr>\<rparr>"
    let ?k = "m_body_read (w_http w)"
    define d where "d = take (nat (?n - ?k)) (contents (w_bytes w))"
    from body.loop_contents [of ?w1 ?n ?k d] inv(1,2) c(2)
    obtain bs where b: "wf_blocks bs" "body_loop ?n ?w1 = Inr (?w1\<lparr>w_bytes := bs,
        w_http := (put_body ?k d (w_http ?w1))\<lparr>m_body_read := ?k + int (length d)\<rparr>\<rparr>)" by (auto simp: d_def)
    define h where "h = (put_body ?k d (w_http ?w1))\<lparr>m_body_read := ?k + int (length d)\<rparr>"
    have "body_ok ?n h"
    proof (cases "?k \<le> ?n")
      case True
      then have "?k + int (length d) \<le> ?n" by (simp add: d_def)
      with body.put_ok [of ?n "w_http ?w1" ?k d] c(2) inv(2) show ?thesis by (simp add: h_def)
    next
      case False
      then have "d = []" by (simp add: d_def)
      with c(2) show ?thesis by (simp add: h_def body_ok_def put_body_def)
    qed
    moreover have "m_state h = HTTP_BODY" "m_chunks h = m_chunks (w_http w)" "content_length env h = ?n"
      "m_mime_to_read h = m_mime_to_read (w_http w)" "0 \<le> m_body_read h"
      using assms(3) inv(2) by (auto simp: h_def put_body_def content_length_def)
    ultimately show ?thesis
      using assms(1,2) c(1) b h_def
      by (simp add: parse_body_def Let_def http_inv_def del: if_split split: if_split)
  qed
qed

lemma parse_chunk_len_safe:
  assumes "observes env" "http_inv env w" "m_state (w_http w) = HTTP_CHUNK_LEN"
  shows "safe_result env w (parse_chunk_len env w)"
proof -
  let ?buf = "read_bytes_ec (w_bytes w) 128 LF []"
  obtain k where v: "store_chunk_len env ?buf w = upd_http (\<lambda>h. h\<lparr>m_chunk_len := k\<rparr>) w"
  proof (cases "read_int 16 (takeWhile (\<lambda>c. c \<noteq> 0) (?buf @ e_junk env))")
    case None
    then show ?thesis
      by (intro that [of "m_chunk_len (w_http w)"]) (simp add: store_chunk_len_def upd_http_def)
  qed (auto simp: store_chunk_len_def intro: that)
  have wf: "wf_blocks (w_bytes w)" using assms(2) by (simp add: http_inv_def)
  show ?thesis
  proof (cases "open_chunk env (store_chunk_len env ?buf w)")
    case (Inl e)
    then have "safe_result env w (Inl e)"
      by (auto simp: v open_chunk_def alloc_def is_in_mime_to_read_def split: if_splits)
    with Inl assms show ?thesis by (simp add: parse_chunk_len_def Let_def)
  next
    case (Inr w1)
    have "w_bytes w1 = w_bytes w" using open_chunk_bytes [OF Inr] by simp
    with wf skip_w_safe [of w1 "length ?buf"] obtain bs where
      s: "skip_w (int (length ?buf)) w1 = Inr (w1\<lparr>w_bytes := bs\<rparr>)" "wf_blocks bs" by auto
    have "http_inv env (w1\<lparr>w_bytes := bs\<rparr>)" "m_mime_to_read (w_http w1) = m_mime_to_read (w_http w)"
      using Inr assms s(2)
      by (auto simp: v open_chunk_def alloc_def bindR_eq_Inr http_inv_def chunk_ok_def room_def split: if_splits)
    with Inr s(1) assms show ?thesis by (simp add: parse_chunk_len_def Let_def)
  qed
qed

lemma parse_chunk_body_safe:
  assumes "observes env" "http_inv env w" "m_state (w_http w) = HTTP_CHUNK_BODY"
  shows "safe_result env w (parse_chunk_body env w)"
proof -
  let ?k = "m_body_read (w_http w)" and ?n = "m_chunk_len (w_http w)"
  define d where "d = take (nat (?n - ?k)) (contents (w_bytes w))"
  have inv: "wf_blocks (w_bytes w)" "0 \<le> ?k" "chunk_ok (w_http w)"
    using assms(2,3) by (simp_all add: http_inv_def)
  from chunk.loop_contents [OF inv(1,3) refl inv(2) d_def] obtain bs where b: "wf_blocks bs"
    "chunk_loop w = Inr (w\<lparr>w_bytes := bs, w_http := (put_chunk ?k d (w_http w))\<lparr>m_body_read := ?k + int (length d)\<rparr>\<rparr>)"
    by auto
  define h where "h = (put_chunk ?k d (w_http w))\<lparr>m_body_read := ?k + int (length d)\<rparr>"
  have "chunk_ok h \<and> (\<forall>b \<in> set (m_chunks h). 0 \<le> m_len b \<and> room (m_len b) b)"
  proof (cases "?k \<le> ?n")
    case True
    then have le: "?k + int (length d) \<le> ?n" by (simp add: d_def)
    with chunk.put_ok [OF inv(3,2) this] have "chunk_ok h" by (simp add: h_def)
    moreover have "room (m_len b) (filled ?k d b)" if "room (m_len b) b" "room ?n b" for b
      using that le inv(2) by (auto simp: room_def filled_def)
    then have "\<forall>b \<in> set (m_chunks h). 0 \<le> m_len b \<and> room (m_len b) b"
      using assms(2) inv(3) by (auto simp: h_def put_chunk_def http_inv_def chunk_ok_def dest: in_set_butlastD)
    ultimately show ?thesis by simp
  next
    case False
    then have "d = []" by (simp add: d_def)
    with assms(2) inv(3) show ?thesis by (auto simp: h_def put_chunk_def http_inv_def chunk_ok_def)
  qed
  moreover have "m_state h = HTTP_CHUNK_BODY" "m_mime_to_read h = m_mime_to_read (w_http w)" "0 \<le> m_body_read h"
    using assms(3) inv(2) by (auto simp: h_def put_chunk_def)
  ultimately show ?thesis
    using b h_def by (simp add: parse_chunk_body_def http_inv_def)
qed

lemma chunks_bytes_returns:
  "\<forall>b \<in> set cs. 0 \<le> m_len b \<and> room (m_len b) b \<Longrightarrow> \<exists>xs. chunks_bytes cs = Inr xs"
proof (induction cs)
  case (Cons b cs)
  then obtain xs where "chunks_bytes cs = Inr xs" by auto
  moreover have "returns (rdsi (ptr_mem b) 0 (m_len b))"
    using Cons.prems by (auto simp: rdsi_def rds_def room_def ptr_mem_def returns_def)
  ultimately show ?case by (auto simp: returns_def)
qed simp

lemma join_chunks_returns:
  assumes "\<forall>b \<in> set (m_chunks (w_http w)). 0 \<le> m_len b \<and> room (m_len b) b"
  obtains c where "join_chunks env w = Inr (upd_http (\<lambda>h. h\<lparr>m_content := c\<rparr>) w)"
proof (cases "m_chunks (w_http w) = []")
  case True
  then show ?thesis
    by (intro that [of "m_content (w_http w)"]) (simp add: join_chunks_def upd_http_def)
next
  case False
  have "0 \<le> (\<Sum>b \<leftarrow> m_chunks (w_http w). m_len b)"
    using assms by (intro sum_list_nonneg) auto
  with False chunks_bytes_returns [OF assms] show ?thesis
    by (auto simp: join_chunks_def alloc_def intro: that)
qed

lemma parse_chunk_el_safe:
  assumes "observes env" "http_inv env w" "m_state (w_http w) = HTTP_CHUNK_EL"
  shows "safe_result env w (parse_chunk_el env w)"
proof -
  let ?buf = "read_bytes_ec (w_bytes w) 8 LF []"
  have "wf_blocks (w_bytes w)" using assms(2) by (simp add: http_inv_def)
  from skip_w_safe [OF this, of "length ?buf"] obtain bs where
    s: "skip_w (int (length ?buf)) w = Inr (w\<lparr>w_bytes := bs\<rparr>)" "wf_blocks bs" .
  let ?w = "upd_http (\<lambda>h. h\<lparr>m_body_read := 0\<rparr>) (set_state (if m_chunk_len (w_http w) = 0
    then HTTP_CHUNK_TRAILER else HTTP_CHUNK_LEN) (w\<lparr>w_bytes := bs\<rparr>))"
  have "\<forall>b \<in> set (m_chunks (w_http ?w)). 0 \<le> m_len b \<and> room (m_len b) b"
    using assms(2) by (simp add: http_inv_def)
  from join_chunks_returns [OF this, of env] obtain c where
    "join_chunks env ?w = Inr (upd_http (\<lambda>h. h\<lparr>m_content := c\<rparr>) ?w)" .
  with s assms show ?thesis
    by (simp add: parse_chunk_el_def Let_def http_inv_def)
qed

lemma http_step_safe: "observes env \<Longrightarrow> http_inv env w \<Longrightarrow> safe_result env w (http_step env w)"
  using parse_method_safe parse_response_safe parse_head_safe parse_body_safe
    parse_chunk_len_safe parse_chunk_body_safe parse_chunk_el_safe
  by (cases "m_state (w_http w)") (auto simp: http_step_def)

lemma http_parse_safe_result:
  "observes env \<Longrightarrow> http_inv env w \<Longrightarrow>
     safe_result env w (http_parse env w) \<and> (\<forall>v. http_parse env w \<noteq> Inr (More, v))"
proof (induction env w rule: http_parse.induct)
  case (1 env w)
  show ?case
  proof (cases "http_step env w")
    case (Inl e)
    with http_step_safe [OF "1.prems"] show ?thesis by (subst (1 2) http_parse.simps) simp
  next
    case (Inr r)
    obtain x v where r: "r = (x, v)" by (cases r)
    with http_step_safe [OF "1.prems"] Inr have v: "http_inv env v"
      "m_mime_to_read (w_http v) = m_mime_to_read (w_http w)" by simp_all
    show ?thesis
    proof (cases "x = More")
      case True
      with "1.IH" [OF Inr r [symmetric] True "1.prems"(1) v(1)] v(2) show ?thesis
        by (subst (1 2) http_parse.simps) (auto simp: Inr r intro: safe_result_mono)
    qed (subst (1 2) http_parse.simps, simp add: Inr r v)
  qed
qed

lemma read_int_minus:
  assumes "n < 2147483648"
  shows "read_int 10 (0x2D # num_text 10 n) = Some (- int n)"
proof -
  let ?t = "num_text 10 n"
  have "c \<in> set ?t \<Longrightarrow> is_digit_of 10 c" for c
    using num_text_digits [of 10 c n] by (auto simp: digit_char_simps is_digit_of_def)
  then have "takeWhile (is_digit_of 10) ?t = ?t" by (subst takeWhile_eq_all_conv) blast
  with digits_value_num_text [of 10 n] have "digits_value 10 0 (takeWhile (is_digit_of 10) ?t) = int n"
    by (simp del: takeWhile_eq_all_conv)
  then show ?thesis using assms
    by (simp add: read_int_def is_space_def clamp_int_def del: takeWhile_eq_all_conv)
qed

section \<open>Properties\<close>



text \<open>
  the failure is real: a request with a negative length of a type that is read makes \<open>parse_body\<close>
  allocate a negative number of bytes, an exception that nothing in the program catches.
\<close>

theorem http_negative_length:
  assumes "m_state (w_http w) = HTTP_BODY" "m_len (m_content (w_http w)) = 0" "is_in_mime_to_read (w_http w)"
    and "get_header (w_http w) (str ''content-length'') = 0x2D # num_text 10 (Suc n)" "n < 2147483647"
  shows "http_parse env w = Inl BadAlloc"
proof -
  have "content_length env (w_http w) = - int (Suc n)"
    using read_int_minus [of "Suc n"] assms(4,5) by (simp add: content_length_def)
  with assms(1-3) have "http_step env w = Inl BadAlloc"
    by (simp add: http_step_def parse_body_def Let_def alloc_content_def alloc_def)
  then show ?thesis by (subst http_parse.simps) simp
qed

theorem http_negative_length_witness:
  "http_parse sample_env \<lparr>w_http = (add_mime_to_read (str ''a'') (new_http PROTO_HTTP_CLIENT 0))
     \<lparr>m_state := HTTP_BODY, m_header := [(str ''content-length'', str ''-5''), (str ''content-type'', str ''a'')]\<rparr>,
     w_peer = None, w_bytes = [], w_out = []\<rparr> = Inl BadAlloc"
  by (rule http_negative_length [where n = 4])
    (simp_all add: new_http_def add_mime_to_read_def is_in_mime_to_read_def get_header_def str_def
      to_lower_str_def lower_case_def find_char_def empty_bytes_def num_text.simps digit_char_def)

text \<open>
  C33: the end of a chunked response takes a method from the queue of the requests a second time: when
  the client has no other request on the way, the parser stops at the end of the trailers, and the
  response is never reported as read.
\<close>

theorem http_response_end_waits:
  assumes "wf_blocks (w_bytes w)" "contents (w_bytes w) = head_bytes ts @ r" "\<forall>f \<in> set ts. header_ok f"
    and "m_state (w_http w) = HTTP_CHUNK_TRAILER" "m_type (w_http w) = PROTO_HTTP_SERVER" "w_peer w = Some []"
  shows "\<exists>v. http_parse env w = Inr (Done, v) \<and> w_out v = w_out w \<and> contents (w_bytes v) = [CR, LF] @ r \<and>
    m_state (w_http v) = HTTP_CHUNK_TRAILER"
proof -
  from parse_head_end [OF assms(1-3), of env] obtain bs v where v: "contents bs = [CR, LF] @ r"
    "v = w\<lparr>w_bytes := bs, w_http := (w_http w)\<lparr>m_header := header_map ts (m_header (w_http w))\<rparr>\<rparr>"
    "parse_head env w = (if m_type (w_http w) = PROTO_HTTP_CLIENT then head_end_client env 2 v
      else if m_type (w_http w) = PROTO_HTTP_SERVER then head_end_server env 2 v else Inr (Throw_parse_error, v))" .
  then have "http_step env w = Inr (Done, v)"
    using assms(4-6) by (simp add: http_step_def head_end_server_def)
  then have "http_parse env w = Inr (Done, v)" by (subst http_parse.simps) simp
  with v(1,2) assms(4) show ?thesis by simp
qed

theorem http_response_end_waits_witness:
  "\<exists>v. http_parse sample_env \<lparr>w_http = (new_http PROTO_HTTP_SERVER 0)\<lparr>m_state := HTTP_CHUNK_TRAILER\<rparr>,
      w_peer = Some [], w_bytes = [assign_str (head_bytes [(str ''Sum'', str ''9'')] @ str ''HTTP'')], w_out = []\<rparr> =
     Inr (Done, v) \<and> w_out v = w_out \<lparr>w_http = (new_http PROTO_HTTP_SERVER 0)\<lparr>m_state := HTTP_CHUNK_TRAILER\<rparr>,
      w_peer = Some [], w_bytes = [assign_str (head_bytes [(str ''Sum'', str ''9'')] @ str ''HTTP'')], w_out = []\<rparr> \<and>
     contents (w_bytes v) = [CR, LF] @ str ''HTTP'' \<and> m_state (w_http v) = HTTP_CHUNK_TRAILER"
  by (rule http_response_end_waits) (auto simp: new_http_def header_ok_def str_def)

end
