(* ===== verification/Ssl.thy ===== *)
theory Ssl
  imports Bytes Event
begin

text \<open>
  \<open>cdpi_ssl.hpp\<close> and \<open>cdpi_ssl.cpp\<close>: the parser of one direction of an SSL or TLS connection. Each record
  is copied to an array of its own; a pointer is an index of that array, which has no byte behind the
  record.
\<close>

section \<open>State\<close>

record cdpi_ssl =
  ssl_type :: cdpi_proto_type
  ssl_ver :: "16 word"
  ssl_random :: "byte list"
  ssl_gmt_unix_time :: "32 word"
  ssl_session_id :: cdpi_bytes
  ssl_certificates :: "cdpi_bytes list"
  ssl_cipher_suites :: "16 word list"
  ssl_compression_methods :: "byte list"
  ssl_is_change_cipher_spec :: bool

text \<open>The random bytes and the time are not initialised.\<close>

definition new_ssl :: "cdpi_proto_type \<Rightarrow> byte list \<Rightarrow> 32 word \<Rightarrow> cdpi_ssl" where
  "new_ssl type undef_random undef_time = \<lparr>ssl_type = type, ssl_ver = 0, ssl_random = undef_random,
     ssl_gmt_unix_time = undef_time, ssl_session_id = empty_bytes, ssl_certificates = [],
     ssl_cipher_suites = [], ssl_compression_methods = [], ssl_is_change_cipher_spec = False\<rparr>"

text \<open>The parser with the calls of the listener, which reads the parser and does not change it.\<close>

record ssl_world =
  s_ssl :: cdpi_ssl
  s_out :: "(cdpi_event \<times> cdpi_ssl) list"

definition upd_ssl :: "(cdpi_ssl \<Rightarrow> cdpi_ssl) \<Rightarrow> ssl_world \<Rightarrow> ssl_world" where
  "upd_ssl f w = w\<lparr>s_ssl := f (s_ssl w)\<rparr>"

definition emit_ssl :: "cdpi_event \<Rightarrow> ssl_world \<Rightarrow> ssl_world" where
  "emit_ssl ev w = w\<lparr>s_out := s_out w @ [(ev, s_ssl w)]\<rparr>"

datatype ssl_exit = SSL_returned | SSL_parse_error

section \<open>The constants\<close>

definition SSL_CHANGE_CIPHER_SPEC :: byte where "SSL_CHANGE_CIPHER_SPEC = 20"
definition SSL_ALERT :: byte where "SSL_ALERT = 21"
definition SSL_HANDSHAKE :: byte where "SSL_HANDSHAKE = 22"
definition SSL_APPLICATION_DATA :: byte where "SSL_APPLICATION_DATA = 23"
definition SSL_HEARTBEAT :: byte where "SSL_HEARTBEAT = 24"
definition SSL_CLIENT_HELLO :: byte where "SSL_CLIENT_HELLO = 1"
definition SSL_SERVER_HELLO :: byte where "SSL_SERVER_HELLO = 2"
definition SSL_CERTIFICATE :: byte where "SSL_CERTIFICATE = 11"
definition SSL30_VER :: "16 word" where "SSL30_VER = 0x0300"
definition TLS10_VER :: "16 word" where "TLS10_VER = 0x0301"

lemmas ssl_consts = SSL_CHANGE_CIPHER_SPEC_def SSL_ALERT_def SSL_HANDSHAKE_def SSL_APPLICATION_DATA_def
  SSL_HEARTBEAT_def SSL_CLIENT_HELLO_def SSL_SERVER_HELLO_def SSL_CERTIFICATE_def SSL30_VER_def TLS10_VER_def

section \<open>The hello messages\<close>

text \<open>
  What both messages start with: the version, and for SSL 3.0 and TLS 1.0 the time, the random bytes
  and the session. \<open>None\<close> is an early return.
\<close>

definition read_version :: "byte list \<Rightarrow> int \<Rightarrow> ssl_world \<Rightarrow> ssl_world result" where
  "read_version mem data w =
     bindR (rdsi mem data 2) (\<lambda>v. Inr (upd_ssl (\<lambda>s. s\<lparr>ssl_ver := ntohs (u16_of v)\<rparr>) w))"

definition read_session ::
    "byte list \<Rightarrow> int \<Rightarrow> int \<Rightarrow> ssl_world \<Rightarrow> (int option \<times> ssl_world) result" where
  "read_session mem data end_of_data w =
     (if data + 4 > end_of_data then Inr (None, w)
      else bindR (rdsi mem data 4) (\<lambda>t.
        let w1 = upd_ssl (\<lambda>s. s\<lparr>ssl_gmt_unix_time := ntohl (u32_of t)\<rparr>) w in
        if data + 32 > end_of_data then Inr (None, w1)
        else bindR (rdsi mem (data + 4) 28) (\<lambda>r.
          let w2 = upd_ssl (\<lambda>s. s\<lparr>ssl_random := r\<rparr>) w1 in
          if data + 33 > end_of_data then Inr (None, w2)
          else bindR (rdsi mem (data + 32) 1) (\<lambda>l.
            let n = uint (hd l) in
            if n > 0 then
              (if data + 33 + n > end_of_data then Inr (None, w2)
               else bindR (set_buf (drop (nat (data + 33)) mem) n) (\<lambda>b.
                 Inr (Some (data + 33 + n), upd_ssl (\<lambda>s. s\<lparr>ssl_session_id := b\<rparr>) w2)))
            else Inr (Some (data + 33), w2)))))"

definition parse_server_hello :: "byte list \<Rightarrow> int \<Rightarrow> int \<Rightarrow> ssl_world \<Rightarrow> ssl_world result" where
  "parse_server_hello mem data len w =
     bindR (read_version mem data w) (\<lambda>w1.
       let end_of_data = data + len in
       if ssl_ver (s_ssl w1) = SSL30_VER \<or> ssl_ver (s_ssl w1) = TLS10_VER then
         bindR (read_session mem (data + 2) end_of_data w1) (\<lambda>(r, w2).
           case r of None \<Rightarrow> Inr w2
           | Some p \<Rightarrow>
               if p + 2 > end_of_data then Inr w2
               else bindR (rdsi mem p 2) (\<lambda>c.
                 let w3 = upd_ssl (\<lambda>s. s\<lparr>ssl_cipher_suites := ssl_cipher_suites s @ [ntohs (u16_of c)]\<rparr>) w2 in
                 if p + 3 > end_of_data then Inr w3
                 else bindR (rdsi mem (p + 2) 1) (\<lambda>m.
                   Inr (emit_ssl CDPI_EVENT_SSL_SERVER_HELLO
                     (upd_ssl (\<lambda>s. s\<lparr>ssl_compression_methods := ssl_compression_methods s @ m\<rparr>) w3)))))
       else Inr w1)"

text \<open>The loops over the cipher suites and over the compression methods, from index \<open>i\<close> on.\<close>

fun cipher_loop :: "nat \<Rightarrow> byte list \<Rightarrow> int \<Rightarrow> ssl_world \<Rightarrow> ssl_world result" where
  "cipher_loop 0 mem data w = Inr w"
| "cipher_loop (Suc n) mem data w =
     bindR (rdsi mem data 2) (\<lambda>c.
       cipher_loop n mem (data + 2)
         (upd_ssl (\<lambda>s. s\<lparr>ssl_cipher_suites := ssl_cipher_suites s @ [ntohs (u16_of c)]\<rparr>) w))"

fun compression_loop :: "nat \<Rightarrow> byte list \<Rightarrow> int \<Rightarrow> ssl_world \<Rightarrow> ssl_world result" where
  "compression_loop 0 mem data w = Inr w"
| "compression_loop (Suc n) mem data w =
     bindR (rdsi mem data 1) (\<lambda>m.
       compression_loop n mem (data + 1)
         (upd_ssl (\<lambda>s. s\<lparr>ssl_compression_methods := ssl_compression_methods s @ m\<rparr>) w))"

text \<open>
  The cipher suites and the compression methods of a client, whose length is read without a check.
\<close>

definition read_suites :: "byte list \<Rightarrow> int \<Rightarrow> int \<Rightarrow> ssl_world \<Rightarrow> ssl_world result" where
  "read_suites mem p end_of_data w =
     (if p + 2 > end_of_data then Inr w
      else bindR (rdsi mem p 2) (\<lambda>c.
        let n = uint (ntohs (u16_of c)); q = p + 2 in
        if q + n > end_of_data then Inr w
        else bindR (cipher_loop (nat (n div 2)) mem q w) (\<lambda>w1.
          bindR (rdsi mem (q + n) 1) (\<lambda>l.
            let k = uint (hd l) in
            if q + n + 1 + k > end_of_data then Inr w1
            else bindR (compression_loop (nat k) mem (q + n + 1) w1) (\<lambda>w2.
              Inr (emit_ssl CDPI_EVENT_SSL_CLIENT_HELLO w2))))))"

definition parse_client_hello :: "byte list \<Rightarrow> int \<Rightarrow> int \<Rightarrow> ssl_world \<Rightarrow> ssl_world result" where
  "parse_client_hello mem data len w =
     bindR (read_version mem data w) (\<lambda>w1.
       let end_of_data = data + len in
       if ssl_ver (s_ssl w1) = SSL30_VER \<or> ssl_ver (s_ssl w1) = TLS10_VER then
         bindR (read_session mem (data + 2) end_of_data w1) (\<lambda>(r, w2).
           case r of None \<Rightarrow> Inr w2 | Some p \<Rightarrow> read_suites mem p end_of_data w2)
       else Inr w1)"

section \<open>Certificates\<close>

text \<open>Three bytes copied to a \<open>uint32_t\<close> whose last byte \<open>junk\<close> is shifted out after the conversion.\<close>

definition read_u24 :: "byte \<Rightarrow> byte list \<Rightarrow> int \<Rightarrow> int result" where
  "read_u24 junk mem data =
     bindR (rdsi mem data 3) (\<lambda>bs. Inr (uint (drop_bit 8 (ntohl (u32_of (bs @ [junk]))))))"

lemma rdsi_eq_Inr: "rdsi mem i n = Inr xs \<longleftrightarrow> 0 \<le> i \<and> 0 \<le> n \<and> i + n \<le> int (length mem) \<and>
    xs = take (nat n) (drop (nat i) mem)"
  by (auto simp: rdsi_def rds_eq_Inr)

lemma read_u24_pos: "read_u24 junk mem data = Inr n \<Longrightarrow> 0 \<le> n"
  by (auto simp: read_u24_def bindR_eq_Inr)

function cert_loop :: "byte list \<Rightarrow> int \<Rightarrow> int \<Rightarrow> ssl_world \<Rightarrow> ssl_world result" where
  "cert_loop mem data len w =
     (if len < 3 then Inr (emit_ssl CDPI_EVENT_SSL_CERTIFICATE w)
      else bindR (read_u24 0 mem data) (\<lambda>cert_len.
        if cert_len > len - 3 then Inr w
        else bindR (set_buf (drop (nat (data + 3)) mem) cert_len) (\<lambda>cert.
          cert_loop mem (data + 3 + cert_len) (len - 3 - cert_len)
            (upd_ssl (\<lambda>s. s\<lparr>ssl_certificates := ssl_certificates s @ [cert]\<rparr>) w))))"
  by pat_completeness auto
termination
  by (relation "measure (\<lambda>(mem, data, len, w). nat len)") (auto dest: read_u24_pos)

declare cert_loop.simps [simp del]

definition parse_certificate :: "byte \<Rightarrow> byte list \<Rightarrow> int \<Rightarrow> int \<Rightarrow> ssl_world \<Rightarrow> ssl_world result" where
  "parse_certificate junk mem data len w =
     (if len < 3 then Inr w
      else bindR (read_u24 junk mem data) (\<lambda>certs_len.
        if certs_len \<noteq> len - 3 then Inr w else cert_loop mem (data + 3) (len - 3) w))"

section \<open>Records\<close>

definition parse_change_cipher_spec :: "byte list \<Rightarrow> int \<Rightarrow> ssl_world \<Rightarrow> ssl_world result" where
  "parse_change_cipher_spec mem data w =
     bindR (rdsi mem data 1) (\<lambda>b. Inr
       (if hd b = 1 then emit_ssl CDPI_EVENT_SSL_CHANGE_CIPHER_SPEC
          (upd_ssl (\<lambda>s. s\<lparr>ssl_is_change_cipher_spec := True\<rparr>) w)
        else w))"

text \<open>The messages of a handshake record, which ends at \<open>eoc\<close>; its first byte is read before any check.\<close>

function handshake_loop :: "byte \<Rightarrow> byte list \<Rightarrow> int \<Rightarrow> int \<Rightarrow> ssl_world \<Rightarrow> (ssl_exit \<times> ssl_world) result" where
  "handshake_loop junk mem data eoc w =
     bindR (rdsi mem data 1) (\<lambda>t.
       if data + 4 > eoc then Inr (SSL_parse_error, w)
       else bindR (rdsi mem data 4) (\<lambda>h.
         let type = hd t; msg_len = uint (ntohl (u32_of h) AND 0x00ffffff) in
         if data + msg_len + 4 > eoc then Inr (SSL_parse_error, w)
         else bindR (if type = SSL_CLIENT_HELLO then parse_client_hello mem (data + 4) msg_len w
                     else if type = SSL_SERVER_HELLO then parse_server_hello mem (data + 4) msg_len w
                     else if type = SSL_CERTIFICATE then parse_certificate junk mem (data + 4) msg_len w
                     else Inr w) (\<lambda>w1.
           if data + msg_len + 4 = eoc then Inr (SSL_returned, w1)
           else handshake_loop junk mem (data + msg_len + 4) eoc w1)))"
  by pat_completeness auto
termination
proof (relation "measure (\<lambda>(junk, mem, data, eoc, w). nat (eoc - data))", goal_cases)
  case (2 junk mem data eoc w t h type msg_len w1)
  have "0 \<le> msg_len" unfolding 2(5) by (rule uint_nonnegative)
  with 2(6) show ?case by simp
qed simp

declare handshake_loop.simps [simp del]

definition parse_handshake :: "byte \<Rightarrow> byte list \<Rightarrow> int \<Rightarrow> int \<Rightarrow> ssl_world \<Rightarrow> (ssl_exit \<times> ssl_world) result" where
  "parse_handshake junk mem data len w =
     (if ssl_is_change_cipher_spec (s_ssl w) then Inr (SSL_returned, w)
      else handshake_loop junk mem data (data + len) w)"

definition parse_record ::
    "byte \<Rightarrow> byte \<Rightarrow> byte list \<Rightarrow> int \<Rightarrow> ssl_world \<Rightarrow> (ssl_exit \<times> ssl_world) result" where
  "parse_record junk type mem len w =
     (if type = SSL_HANDSHAKE then parse_handshake junk mem 5 len w
      else if type = SSL_CHANGE_CIPHER_SPEC then
        bindR (parse_change_cipher_spec mem 5 w) (\<lambda>w1. Inr (SSL_returned, w1))
      else if type = SSL_ALERT \<or> type = SSL_APPLICATION_DATA \<or> type = SSL_HEARTBEAT then Inr (SSL_returned, w)
      else Inr (SSL_parse_error, w))"

text \<open>\<open>parse\<close>: one record after the other, each only when it is there as a whole.\<close>

function ssl_parse ::
    "byte \<Rightarrow> cdpi_bytes list \<Rightarrow> ssl_world \<Rightarrow> (ssl_exit \<times> cdpi_bytes list \<times> ssl_world) result" where
  "ssl_parse junk bs w =
     bindR (read_bytes bs 5 []) (\<lambda>head.
       if length head < 5 then Inr (SSL_returned, bs, w)
       else
         let len = uint (ntohs (u16_of (drop 3 head)));
             w1 = upd_ssl (\<lambda>s. s\<lparr>ssl_ver := ntohs (u16_of (take 2 (drop 1 head)))\<rparr>) w
         in bindR (read_bytes bs (len + 5) []) (\<lambda>mem.
           if int (length mem) < len + 5 then Inr (SSL_returned, bs, w1)
           else bindR (skip_bytes bs (int (length mem)) 0) (\<lambda>(bs1, k).
             bindR (parse_record junk (hd head) mem len w1) (\<lambda>(x, w2).
               if x = SSL_returned then ssl_parse junk bs1 w2 else Inr (x, bs1, w2)))))"
  by pat_completeness auto
termination
proof (relation "measure (\<lambda>(junk, bs, w). block_size bs)", goal_cases)
  case (2 junk bs w head len w1 mem r bs1 k r2 x w2)
  then have "bs \<noteq> []" by auto
  moreover have "0 < int (length mem)" using 2(6) uint_nonnegative [of "ntohs (u16_of (drop 3 head))"]
    unfolding 2(3) by linarith
  ultimately show ?case using 2 skip_bytes_size [of bs "int (length mem)" 0 bs1 k] by auto
qed simp

declare ssl_parse.simps [simp del]

end
