(* ===== verification/Ssl_Tables.thy ===== *)
theory Ssl_Tables
  imports Prelude
begin

text \<open>
  The two tables of names in \<open>cdpi_ssl.cpp\<close>: static maps that the first parser fills and that
  \<open>num_to_cipher\<close> and \<open>num_to_compression\<close> look up with \<open>operator[]\<close>, which inserts an empty
  name for a number that is not there.
\<close>

section \<open>The entries, in the order of the source\<close>

definition cipher_suites_1 :: "(16 word \<times> string) list" where
  "cipher_suites_1 = [
    (0x0000, ''TLS_NULL_WITH_NULL_NULL''),
    (0x0001, ''TLS_RSA_WITH_NULL_MD5''),
    (0x0002, ''TLS_RSA_WITH_NULL_SHA''),
    (0x0003, ''TLS_RSA_EXPORT_WITH_RC4_40_MD5''),
    (0x0004, ''TLS_RSA_WITH_RC4_128_MD5''),
    (0x0005, ''TLS_RSA_WITH_RC4_128_SHA''),
    (0x0006, ''TLS_RSA_EXPORT_WITH_RC2_CBC_40_MD5''),
    (0x0007, ''TLS_RSA_WITH_IDEA_CBC_SHA''),
    (0x0008, ''TLS_RSA_EXPORT_WITH_DES40_CBC_SHA''),
    (0x0009, ''TLS_RSA_WITH_DES_CBC_SHA''),
    (0x000a, ''TLS_RSA_WITH_3DES_EDE_CBC_SHA''),
    (0x000b, ''TLS_DH_DSS_EXPORT_WITH_DES40_CBC_SHA''),
    (0x000c, ''TLS_DH_DSS_WITH_DES_CBC_SHA''),
    (0x000d, ''TLS_DH_DSS_WITH_3DES_EDE_CBC_SHA''),
    (0x000e, ''TLS_DH_RSA_EXPORT_WITH_DES40_CBC_SHA''),
    (0x000f, ''TLS_DH_RSA_WITH_DES_CBC_SHA''),
    (0x0010, ''TLS_DH_RSA_WITH_3DES_EDE_CBC_SHA''),
    (0x0011, ''TLS_DHE_DSS_EXPORT_WITH_DES40_CBC_SHA''),
    (0x0012, ''TLS_DHE_DSS_WITH_DES_CBC_SHA''),
    (0x0013, ''TLS_DHE_DSS_WITH_3DES_EDE_CBC_SHA''),
    (0x0014, ''TLS_DHE_RSA_EXPORT_WITH_DES40_CBC_SHA''),
    (0x0015, ''TLS_DHE_RSA_WITH_DES_CBC_SHA''),
    (0x0016, ''TLS_DHE_RSA_WITH_3DES_EDE_CBC_SHA''),
    (0x0017, ''TLS_DH_anon_EXPORT_WITH_RC4_40_MD5''),
    (0x0018, ''TLS_DH_anon_WITH_RC4_128_MD5''),
    (0x0019, ''TLS_DH_anon_EXPORT_WITH_DES40_CBC_SHA''),
    (0x001a, ''TLS_DH_anon_WITH_DES_CBC_SHA''),
    (0x001b, ''TLS_DH_anon_WITH_3DES_EDE_CBC_SHA''),
    (0x001e, ''TLS_KRB5_WITH_DES_CBC_SHA''),
    (0x001f, ''TLS_KRB5_WITH_3DES_EDE_CBC_SHA''),
    (0x0020, ''TLS_KRB5_WITH_RC4_128_SHA''),
    (0x0021, ''TLS_KRB5_WITH_IDEA_CBC_SHA''),
    (0x0022, ''TLS_KRB5_WITH_DES_CBC_MD5''),
    (0x0023, ''TLS_KRB5_WITH_3DES_EDE_CBC_MD5''),
    (0x0024, ''TLS_KRB5_WITH_RC4_128_MD5''),
    (0x0025, ''TLS_KRB5_WITH_IDEA_CBC_MD5''),
    (0x0026, ''TLS_KRB5_EXPORT_WITH_DES_CBC_40_SHA''),
    (0x0027, ''TLS_KRB5_EXPORT_WITH_RC2_CBC_40_SHA''),
    (0x0028, ''TLS_KRB5_EXPORT_WITH_RC4_40_SHA''),
    (0x0029, ''TLS_KRB5_EXPORT_WITH_DES_CBC_40_MD5''),
    (0x002a, ''TLS_KRB5_EXPORT_WITH_RC2_CBC_40_MD5''),
    (0x002b, ''TLS_KRB5_EXPORT_WITH_RC4_40_MD5''),
    (0x002c, ''TLS_PSK_WITH_NULL_SHA''),
    (0x002d, ''TLS_DHE_PSK_WITH_NULL_SHA''),
    (0x002e, ''TLS_RSA_PSK_WITH_NULL_SHA''),
    (0x002f, ''TLS_RSA_WITH_AES_128_CBC_SHA''),
    (0x0030, ''TLS_DH_DSS_WITH_AES_128_CBC_SHA''),
    (0x0031, ''TLS_DH_RSA_WITH_AES_128_CBC_SHA''),
    (0x0032, ''TLS_DHE_DSS_WITH_AES_128_CBC_SHA''),
    (0x0033, ''TLS_DHE_RSA_WITH_AES_128_CBC_SHA''),
    (0x0034, ''TLS_DH_anon_WITH_AES_128_CBC_SHA''),
    (0x0035, ''TLS_RSA_WITH_AES_256_CBC_SHA''),
    (0x0036, ''TLS_DH_DSS_WITH_AES_256_CBC_SHA''),
    (0x0037, ''TLS_DH_RSA_WITH_AES_256_CBC_SHA''),
    (0x0038, ''TLS_DHE_DSS_WITH_AES_256_CBC_SHA''),
    (0x0039, ''TLS_DHE_RSA_WITH_AES_256_CBC_SHA''),
    (0x003a, ''TLS_DH_anon_WITH_AES_256_CBC_SHA''),
    (0x003b, ''TLS_RSA_WITH_NULL_SHA256''),
    (0x003c, ''TLS_RSA_WITH_AES_128_CBC_SHA256''),
    (0x003d, ''TLS_RSA_WITH_AES_256_CBC_SHA256''),
    (0x003e, ''TLS_DH_DSS_WITH_AES_128_CBC_SHA256''),
    (0x003f, ''TLS_DH_RSA_WITH_AES_128_CBC_SHA256''),
    (0x0040, ''TLS_DHE_DSS_WITH_AES_128_CBC_SHA256''),
    (0x0041, ''TLS_RSA_WITH_CAMELLIA_128_CBC_SHA''),
    (0x0042, ''TLS_DH_DSS_WITH_CAMELLIA_128_CBC_SHA''),
    (0x0043, ''TLS_DH_RSA_WITH_CAMELLIA_128_CBC_SHA''),
    (0x0044, ''TLS_DHE_DSS_WITH_CAMELLIA_128_CBC_SHA''),
    (0x0045, ''TLS_DHE_RSA_WITH_CAMELLIA_128_CBC_SHA''),
    (0x0046, ''TLS_DH_anon_WITH_CAMELLIA_128_CBC_SHA''),
    (0x0067, ''TLS_DHE_RSA_WITH_AES_128_CBC_SHA256''),
    (0x0068, ''TLS_DH_DSS_WITH_AES_256_CBC_SHA256''),
    (0x0069, ''TLS_DH_RSA_WITH_AES_256_CBC_SHA256''),
    (0x006a, ''TLS_DHE_DSS_WITH_AES_256_CBC_SHA256''),
    (0x006b, ''TLS_DHE_RSA_WITH_AES_256_CBC_SHA256''),
    (0x006c, ''TLS_DH_anon_WITH_AES_128_CBC_SHA256''),
    (0x006d, ''TLS_DH_anon_WITH_AES_256_CBC_SHA256''),
    (0x0084, ''TLS_RSA_WITH_CAMELLIA_256_CBC_SHA''),
    (0x0085, ''TLS_DH_DSS_WITH_CAMELLIA_256_CBC_SHA''),
    (0x0086, ''TLS_DH_RSA_WITH_CAMELLIA_256_CBC_SHA''),
    (0x0087, ''TLS_DHE_DSS_WITH_CAMELLIA_256_CBC_SHA''),
    (0x0088, ''TLS_DHE_RSA_WITH_CAMELLIA_256_CBC_SHA''),
    (0x0089, ''TLS_DH_anon_WITH_CAMELLIA_256_CBC_SHA''),
    (0x008a, ''TLS_PSK_WITH_RC4_128_SHA''),
    (0x008b, ''TLS_PSK_WITH_3DES_EDE_CBC_SHA''),
    (0x008c, ''TLS_PSK_WITH_AES_128_CBC_SHA''),
    (0x008d, ''TLS_PSK_WITH_AES_256_CBC_SHA''),
    (0x008e, ''TLS_DHE_PSK_WITH_RC4_128_SHA''),
    (0x008f, ''TLS_DHE_PSK_WITH_3DES_EDE_CBC_SHA''),
    (0x0090, ''TLS_DHE_PSK_WITH_AES_128_CBC_SHA''),
    (0x0091, ''TLS_DHE_PSK_WITH_AES_256_CBC_SHA''),
    (0x0092, ''TLS_RSA_PSK_WITH_RC4_128_SHA''),
    (0x0093, ''TLS_RSA_PSK_WITH_3DES_EDE_CBC_SHA''),
    (0x0094, ''TLS_RSA_PSK_WITH_AES_128_CBC_SHA''),
    (0x0095, ''TLS_RSA_PSK_WITH_AES_256_CBC_SHA''),
    (0x0096, ''TLS_RSA_WITH_SEED_CBC_SHA''),
    (0x0097, ''TLS_DH_DSS_WITH_SEED_CBC_SHA''),
    (0x0098, ''TLS_DH_RSA_WITH_SEED_CBC_SHA''),
    (0x0099, ''TLS_DHE_DSS_WITH_SEED_CBC_SHA''),
    (0x009a, ''TLS_DHE_RSA_WITH_SEED_CBC_SHA''),
    (0x009b, ''TLS_DH_anon_WITH_SEED_CBC_SHA''),
    (0x009c, ''TLS_RSA_WITH_AES_128_GCM_SHA256''),
    (0x009d, ''TLS_RSA_WITH_AES_256_GCM_SHA384''),
    (0x009e, ''TLS_DHE_RSA_WITH_AES_128_GCM_SHA256''),
    (0x009f, ''TLS_DHE_RSA_WITH_AES_256_GCM_SHA384''),
    (0x00a0, ''TLS_DH_RSA_WITH_AES_128_GCM_SHA256'')]"

definition cipher_suites_2 :: "(16 word \<times> string) list" where
  "cipher_suites_2 = [
    (0x00a1, ''TLS_DH_RSA_WITH_AES_256_GCM_SHA384''),
    (0x00a2, ''TLS_DHE_DSS_WITH_AES_128_GCM_SHA256''),
    (0x00a3, ''TLS_DHE_DSS_WITH_AES_256_GCM_SHA384''),
    (0x00a4, ''TLS_DH_DSS_WITH_AES_128_GCM_SHA256''),
    (0x00a5, ''TLS_DH_DSS_WITH_AES_256_GCM_SHA384''),
    (0x00a6, ''TLS_DH_anon_WITH_AES_128_GCM_SHA256''),
    (0x00a7, ''TLS_DH_anon_WITH_AES_256_GCM_SHA384''),
    (0x00a8, ''TLS_PSK_WITH_AES_128_GCM_SHA256''),
    (0x00a9, ''TLS_PSK_WITH_AES_256_GCM_SHA384''),
    (0x00aa, ''TLS_DHE_PSK_WITH_AES_128_GCM_SHA256''),
    (0x00ab, ''TLS_DHE_PSK_WITH_AES_256_GCM_SHA384''),
    (0x00ac, ''TLS_RSA_PSK_WITH_AES_128_GCM_SHA256''),
    (0x00ad, ''TLS_RSA_PSK_WITH_AES_256_GCM_SHA384''),
    (0x00ae, ''TLS_PSK_WITH_AES_128_CBC_SHA256''),
    (0x00af, ''TLS_PSK_WITH_AES_256_CBC_SHA384''),
    (0x00b0, ''TLS_PSK_WITH_NULL_SHA256''),
    (0x00b1, ''TLS_PSK_WITH_NULL_SHA384''),
    (0x00b2, ''TLS_DHE_PSK_WITH_AES_128_CBC_SHA256''),
    (0x00b3, ''TLS_DHE_PSK_WITH_AES_256_CBC_SHA384''),
    (0x00b4, ''TLS_DHE_PSK_WITH_NULL_SHA256''),
    (0x00b5, ''TLS_DHE_PSK_WITH_NULL_SHA384''),
    (0x00b6, ''TLS_RSA_PSK_WITH_AES_128_CBC_SHA256''),
    (0x00b7, ''TLS_RSA_PSK_WITH_AES_256_CBC_SHA384''),
    (0x00b8, ''TLS_RSA_PSK_WITH_NULL_SHA256''),
    (0x00b9, ''TLS_RSA_PSK_WITH_NULL_SHA384''),
    (0x00ba, ''TLS_RSA_WITH_CAMELLIA_128_CBC_SHA256''),
    (0x00bb, ''TLS_DH_DSS_WITH_CAMELLIA_128_CBC_SHA256''),
    (0x00bc, ''TLS_DH_RSA_WITH_CAMELLIA_128_CBC_SHA256''),
    (0x00bd, ''TLS_DHE_DSS_WITH_CAMELLIA_128_CBC_SHA256''),
    (0x00be, ''TLS_DHE_RSA_WITH_CAMELLIA_128_CBC_SHA256''),
    (0x00bf, ''TLS_DH_anon_WITH_CAMELLIA_128_CBC_SHA256''),
    (0x00c0, ''TLS_RSA_WITH_CAMELLIA_256_CBC_SHA256''),
    (0x00c1, ''TLS_DH_DSS_WITH_CAMELLIA_256_CBC_SHA256''),
    (0x00c2, ''TLS_DH_RSA_WITH_CAMELLIA_256_CBC_SHA256''),
    (0x00c3, ''TLS_DHE_DSS_WITH_CAMELLIA_256_CBC_SHA256''),
    (0x00c4, ''TLS_DHE_RSA_WITH_CAMELLIA_256_CBC_SHA256''),
    (0x00c5, ''TLS_DH_anon_WITH_CAMELLIA_256_CBC_SHA256''),
    (0x00ff, ''TLS_EMPTY_RENEGOTIATION_INFO_SCSV''),
    (0xc001, ''TLS_ECDH_ECDSA_WITH_NULL_SHA''),
    (0xc002, ''TLS_ECDH_ECDSA_WITH_RC4_128_SHA''),
    (0xc003, ''TLS_ECDH_ECDSA_WITH_3DES_EDE_CBC_SHA''),
    (0xc004, ''TLS_ECDH_ECDSA_WITH_AES_128_CBC_SHA''),
    (0xc005, ''TLS_ECDH_ECDSA_WITH_AES_256_CBC_SHA''),
    (0xc006, ''TLS_ECDHE_ECDSA_WITH_NULL_SHA''),
    (0xc007, ''TLS_ECDHE_ECDSA_WITH_RC4_128_SHA''),
    (0xc008, ''TLS_ECDHE_ECDSA_WITH_3DES_EDE_CBC_SHA''),
    (0xc009, ''TLS_ECDHE_ECDSA_WITH_AES_128_CBC_SHA''),
    (0xc00a, ''TLS_ECDHE_ECDSA_WITH_AES_256_CBC_SHA''),
    (0xc00b, ''TLS_ECDH_RSA_WITH_NULL_SHA''),
    (0xc00c, ''TLS_ECDH_RSA_WITH_RC4_128_SHA''),
    (0xc00d, ''TLS_ECDH_RSA_WITH_3DES_EDE_CBC_SHA''),
    (0xc00e, ''TLS_ECDH_RSA_WITH_AES_128_CBC_SHA''),
    (0xc00f, ''TLS_ECDH_RSA_WITH_AES_256_CBC_SHA''),
    (0xc010, ''TLS_ECDHE_RSA_WITH_NULL_SHA''),
    (0xc011, ''TLS_ECDHE_RSA_WITH_RC4_128_SHA''),
    (0xc012, ''TLS_ECDHE_RSA_WITH_3DES_EDE_CBC_SHA''),
    (0xc013, ''TLS_ECDHE_RSA_WITH_AES_128_CBC_SHA''),
    (0xc014, ''TLS_ECDHE_RSA_WITH_AES_256_CBC_SHA''),
    (0xc015, ''TLS_ECDH_anon_WITH_NULL_SHA''),
    (0xc016, ''TLS_ECDH_anon_WITH_RC4_128_SHA''),
    (0xc017, ''TLS_ECDH_anon_WITH_3DES_EDE_CBC_SHA''),
    (0xc018, ''TLS_ECDH_anon_WITH_AES_128_CBC_SHA''),
    (0xc019, ''TLS_ECDH_anon_WITH_AES_256_CBC_SHA''),
    (0xc01a, ''TLS_SRP_SHA_WITH_3DES_EDE_CBC_SHA''),
    (0xc01b, ''TLS_SRP_SHA_RSA_WITH_3DES_EDE_CBC_SHA''),
    (0xc01c, ''TLS_SRP_SHA_DSS_WITH_3DES_EDE_CBC_SHA''),
    (0xc01d, ''TLS_SRP_SHA_WITH_AES_128_CBC_SHA''),
    (0xc01e, ''TLS_SRP_SHA_RSA_WITH_AES_128_CBC_SHA''),
    (0xc01f, ''TLS_SRP_SHA_DSS_WITH_AES_128_CBC_SHA''),
    (0xc020, ''TLS_SRP_SHA_WITH_AES_256_CBC_SHA''),
    (0xc021, ''TLS_SRP_SHA_RSA_WITH_AES_256_CBC_SHA''),
    (0xc022, ''TLS_SRP_SHA_DSS_WITH_AES_256_CBC_SHA''),
    (0xc023, ''TLS_ECDHE_ECDSA_WITH_AES_128_CBC_SHA256''),
    (0xc024, ''TLS_ECDHE_ECDSA_WITH_AES_256_CBC_SHA384''),
    (0xc025, ''TLS_ECDH_ECDSA_WITH_AES_128_CBC_SHA256''),
    (0xc026, ''TLS_ECDH_ECDSA_WITH_AES_256_CBC_SHA384''),
    (0xc027, ''TLS_ECDHE_RSA_WITH_AES_128_CBC_SHA256''),
    (0xc028, ''TLS_ECDHE_RSA_WITH_AES_256_CBC_SHA384''),
    (0xc029, ''TLS_ECDH_RSA_WITH_AES_128_CBC_SHA256''),
    (0xc02a, ''TLS_ECDH_RSA_WITH_AES_256_CBC_SHA384''),
    (0xc02b, ''TLS_ECDHE_ECDSA_WITH_AES_128_GCM_SHA256''),
    (0xc02c, ''TLS_ECDHE_ECDSA_WITH_AES_256_GCM_SHA384''),
    (0xc02d, ''TLS_ECDH_ECDSA_WITH_AES_128_GCM_SHA256''),
    (0xc02e, ''TLS_ECDH_ECDSA_WITH_AES_256_GCM_SHA384''),
    (0xc02f, ''TLS_ECDHE_RSA_WITH_AES_128_GCM_SHA256''),
    (0xc030, ''TLS_ECDHE_RSA_WITH_AES_256_GCM_SHA384''),
    (0xc031, ''TLS_ECDH_RSA_WITH_AES_128_GCM_SHA256''),
    (0xc032, ''TLS_ECDH_RSA_WITH_AES_256_GCM_SHA384''),
    (0xc033, ''TLS_ECDHE_PSK_WITH_RC4_128_SHA''),
    (0xc034, ''TLS_ECDHE_PSK_WITH_3DES_EDE_CBC_SHA''),
    (0xc035, ''TLS_ECDHE_PSK_WITH_AES_128_CBC_SHA''),
    (0xc036, ''TLS_ECDHE_PSK_WITH_AES_256_CBC_SHA''),
    (0xc037, ''TLS_ECDHE_PSK_WITH_AES_128_CBC_SHA256''),
    (0xc038, ''TLS_ECDHE_PSK_WITH_AES_256_CBC_SHA384''),
    (0xc039, ''TLS_ECDHE_PSK_WITH_NULL_SHA''),
    (0xc03a, ''TLS_ECDHE_PSK_WITH_NULL_SHA256''),
    (0xc03b, ''TLS_ECDHE_PSK_WITH_NULL_SHA384''),
    (0xc03c, ''TLS_RSA_WITH_ARIA_128_CBC_SHA256''),
    (0xc03d, ''TLS_RSA_WITH_ARIA_256_CBC_SHA384''),
    (0xc03e, ''TLS_DH_DSS_WITH_ARIA_128_CBC_SHA256''),
    (0xc03f, ''TLS_DH_DSS_WITH_ARIA_256_CBC_SHA384''),
    (0xc040, ''TLS_DH_RSA_WITH_ARIA_128_CBC_SHA256''),
    (0xc041, ''TLS_DH_RSA_WITH_ARIA_256_CBC_SHA384''),
    (0xc042, ''TLS_DHE_DSS_WITH_ARIA_128_CBC_SHA256''),
    (0xc043, ''TLS_DHE_DSS_WITH_ARIA_256_CBC_SHA384''),
    (0xc044, ''TLS_DHE_RSA_WITH_ARIA_128_CBC_SHA256'')]"

definition cipher_suites_3 :: "(16 word \<times> string) list" where
  "cipher_suites_3 = [
    (0xc045, ''TLS_DHE_RSA_WITH_ARIA_256_CBC_SHA384''),
    (0xc046, ''TLS_DH_anon_WITH_ARIA_128_CBC_SHA256''),
    (0xc047, ''TLS_DH_anon_WITH_ARIA_256_CBC_SHA384''),
    (0xc048, ''TLS_ECDHE_ECDSA_WITH_ARIA_128_CBC_SHA256''),
    (0xc049, ''TLS_ECDHE_ECDSA_WITH_ARIA_256_CBC_SHA384''),
    (0xc04a, ''TLS_ECDH_ECDSA_WITH_ARIA_128_CBC_SHA256''),
    (0xc04b, ''TLS_ECDH_ECDSA_WITH_ARIA_256_CBC_SHA384''),
    (0xc04c, ''TLS_ECDHE_RSA_WITH_ARIA_128_CBC_SHA256''),
    (0xc04d, ''TLS_ECDHE_RSA_WITH_ARIA_256_CBC_SHA384''),
    (0xc04e, ''TLS_ECDH_RSA_WITH_ARIA_128_CBC_SHA256''),
    (0xc04f, ''TLS_ECDH_RSA_WITH_ARIA_256_CBC_SHA384''),
    (0xc050, ''TLS_RSA_WITH_ARIA_128_GCM_SHA256''),
    (0xc051, ''TLS_RSA_WITH_ARIA_256_GCM_SHA384''),
    (0xc052, ''TLS_DHE_RSA_WITH_ARIA_128_GCM_SHA256''),
    (0xc053, ''TLS_DHE_RSA_WITH_ARIA_256_GCM_SHA384''),
    (0xc054, ''TLS_DH_RSA_WITH_ARIA_128_GCM_SHA256''),
    (0xc055, ''TLS_DH_RSA_WITH_ARIA_256_GCM_SHA384''),
    (0xc056, ''TLS_DHE_DSS_WITH_ARIA_128_GCM_SHA256''),
    (0xc057, ''TLS_DHE_DSS_WITH_ARIA_256_GCM_SHA384''),
    (0xc058, ''TLS_DH_DSS_WITH_ARIA_128_GCM_SHA256''),
    (0xc059, ''TLS_DH_DSS_WITH_ARIA_256_GCM_SHA384''),
    (0xc05a, ''TLS_DH_anon_WITH_ARIA_128_GCM_SHA256''),
    (0xc05b, ''TLS_DH_anon_WITH_ARIA_256_GCM_SHA384''),
    (0xc05c, ''TLS_ECDHE_ECDSA_WITH_ARIA_128_GCM_SHA256''),
    (0xc05d, ''TLS_ECDHE_ECDSA_WITH_ARIA_256_GCM_SHA384''),
    (0xc05e, ''TLS_ECDH_ECDSA_WITH_ARIA_128_GCM_SHA256''),
    (0xc05f, ''TLS_ECDH_ECDSA_WITH_ARIA_256_GCM_SHA384''),
    (0xc060, ''TLS_ECDHE_RSA_WITH_ARIA_128_GCM_SHA256''),
    (0xc061, ''TLS_ECDHE_RSA_WITH_ARIA_256_GCM_SHA384''),
    (0xc062, ''TLS_ECDH_RSA_WITH_ARIA_128_GCM_SHA256''),
    (0xc063, ''TLS_ECDH_RSA_WITH_ARIA_256_GCM_SHA384''),
    (0xc064, ''TLS_PSK_WITH_ARIA_128_CBC_SHA256''),
    (0xc065, ''TLS_PSK_WITH_ARIA_256_CBC_SHA384''),
    (0xc066, ''TLS_DHE_PSK_WITH_ARIA_128_CBC_SHA256''),
    (0xc067, ''TLS_DHE_PSK_WITH_ARIA_256_CBC_SHA384''),
    (0xc068, ''TLS_RSA_PSK_WITH_ARIA_128_CBC_SHA256''),
    (0xc069, ''TLS_RSA_PSK_WITH_ARIA_256_CBC_SHA384''),
    (0xc06a, ''TLS_PSK_WITH_ARIA_128_GCM_SHA256''),
    (0xc06b, ''TLS_PSK_WITH_ARIA_256_GCM_SHA384''),
    (0xc06c, ''TLS_DHE_PSK_WITH_ARIA_128_GCM_SHA256''),
    (0xc06d, ''TLS_DHE_PSK_WITH_ARIA_256_GCM_SHA384''),
    (0xc06e, ''TLS_RSA_PSK_WITH_ARIA_128_GCM_SHA256''),
    (0xc06f, ''TLS_RSA_PSK_WITH_ARIA_256_GCM_SHA384''),
    (0xc070, ''TLS_ECDHE_PSK_WITH_ARIA_128_CBC_SHA256''),
    (0xc071, ''TLS_ECDHE_PSK_WITH_ARIA_256_CBC_SHA384''),
    (0xc072, ''TLS_ECDHE_ECDSA_WITH_CAMELLIA_128_CBC_SHA256''),
    (0xc073, ''TLS_ECDHE_ECDSA_WITH_CAMELLIA_256_CBC_SHA384''),
    (0xc074, ''TLS_ECDH_ECDSA_WITH_CAMELLIA_128_CBC_SHA256''),
    (0xc075, ''TLS_ECDH_ECDSA_WITH_CAMELLIA_256_CBC_SHA384''),
    (0xc076, ''TLS_ECDHE_RSA_WITH_CAMELLIA_128_CBC_SHA256''),
    (0xc077, ''TLS_ECDHE_RSA_WITH_CAMELLIA_256_CBC_SHA384''),
    (0xc078, ''TLS_ECDH_RSA_WITH_CAMELLIA_128_CBC_SHA256''),
    (0xc079, ''TLS_ECDH_RSA_WITH_CAMELLIA_256_CBC_SHA384''),
    (0xc07a, ''TLS_RSA_WITH_CAMELLIA_128_GCM_SHA256''),
    (0xc07b, ''TLS_RSA_WITH_CAMELLIA_256_GCM_SHA384''),
    (0xc07c, ''TLS_DHE_RSA_WITH_CAMELLIA_128_GCM_SHA256''),
    (0xc07d, ''TLS_DHE_RSA_WITH_CAMELLIA_256_GCM_SHA384''),
    (0xc07e, ''TLS_DH_RSA_WITH_CAMELLIA_128_GCM_SHA256''),
    (0xc07f, ''TLS_DH_RSA_WITH_CAMELLIA_256_GCM_SHA384''),
    (0xc080, ''TLS_DHE_DSS_WITH_CAMELLIA_128_GCM_SHA256''),
    (0xc081, ''TLS_DHE_DSS_WITH_CAMELLIA_256_GCM_SHA384''),
    (0xc082, ''TLS_DH_DSS_WITH_CAMELLIA_128_GCM_SHA256''),
    (0xc083, ''TLS_DH_DSS_WITH_CAMELLIA_256_GCM_SHA384''),
    (0xc084, ''TLS_DH_anon_WITH_CAMELLIA_128_GCM_SHA256''),
    (0xc085, ''TLS_DH_anon_WITH_CAMELLIA_256_GCM_SHA384''),
    (0xc086, ''TLS_ECDHE_ECDSA_WITH_CAMELLIA_128_GCM_SHA256''),
    (0xc087, ''TLS_ECDHE_ECDSA_WITH_CAMELLIA_256_GCM_SHA384''),
    (0xc088, ''TLS_ECDH_ECDSA_WITH_CAMELLIA_128_GCM_SHA256''),
    (0xc089, ''TLS_ECDH_ECDSA_WITH_CAMELLIA_256_GCM_SHA384''),
    (0xc08a, ''TLS_ECDHE_RSA_WITH_CAMELLIA_128_GCM_SHA256''),
    (0xc08b, ''TLS_ECDHE_RSA_WITH_CAMELLIA_256_GCM_SHA384''),
    (0xc08c, ''TLS_ECDH_RSA_WITH_CAMELLIA_128_GCM_SHA256''),
    (0xc08d, ''TLS_ECDH_RSA_WITH_CAMELLIA_256_GCM_SHA384''),
    (0xc08e, ''TLS_PSK_WITH_CAMELLIA_128_GCM_SHA256''),
    (0xc08f, ''TLS_PSK_WITH_CAMELLIA_256_GCM_SHA384''),
    (0xc090, ''TLS_DHE_PSK_WITH_CAMELLIA_128_GCM_SHA256''),
    (0xc091, ''TLS_DHE_PSK_WITH_CAMELLIA_256_GCM_SHA384''),
    (0xc092, ''TLS_RSA_PSK_WITH_CAMELLIA_128_GCM_SHA256''),
    (0xc093, ''TLS_RSA_PSK_WITH_CAMELLIA_256_GCM_SHA384''),
    (0xc094, ''TLS_PSK_WITH_CAMELLIA_128_CBC_SHA256''),
    (0xc095, ''TLS_PSK_WITH_CAMELLIA_256_CBC_SHA384''),
    (0xc096, ''TLS_DHE_PSK_WITH_CAMELLIA_128_CBC_SHA256''),
    (0xc097, ''TLS_DHE_PSK_WITH_CAMELLIA_256_CBC_SHA384''),
    (0xc098, ''TLS_RSA_PSK_WITH_CAMELLIA_128_CBC_SHA256''),
    (0xc099, ''TLS_RSA_PSK_WITH_CAMELLIA_256_CBC_SHA384''),
    (0xc09a, ''TLS_ECDHE_PSK_WITH_CAMELLIA_128_CBC_SHA256''),
    (0xc09b, ''TLS_ECDHE_PSK_WITH_CAMELLIA_256_CBC_SHA384''),
    (0xc09c, ''TLS_RSA_WITH_AES_128_CCM''),
    (0xc09d, ''TLS_RSA_WITH_AES_256_CCM''),
    (0xc09e, ''TLS_DHE_RSA_WITH_AES_128_CCM''),
    (0xc09f, ''TLS_DHE_RSA_WITH_AES_256_CCM''),
    (0xc0a0, ''TLS_RSA_WITH_AES_128_CCM_8''),
    (0xc0a1, ''TLS_RSA_WITH_AES_256_CCM_8''),
    (0xc0a2, ''TLS_DHE_RSA_WITH_AES_128_CCM_8''),
    (0xc0a3, ''TLS_DHE_RSA_WITH_AES_256_CCM_8''),
    (0xc0a4, ''TLS_PSK_WITH_AES_128_CCM''),
    (0xc0a5, ''TLS_PSK_WITH_AES_256_CCM''),
    (0xc0a6, ''TLS_DHE_PSK_WITH_AES_128_CCM''),
    (0xc0a7, ''TLS_DHE_PSK_WITH_AES_256_CCM''),
    (0xc0a8, ''TLS_PSK_WITH_AES_128_CCM_8''),
    (0xc0a9, ''TLS_PSK_WITH_AES_256_CCM_8''),
    (0xc0aa, ''TLS_PSK_DHE_WITH_AES_128_CCM_8''),
    (0xc0ab, ''TLS_PSK_DHE_WITH_AES_256_CCM_8''),
    (0xfefe, ''SSL_RSA_FIPS_WITH_DES_CBC_SHA''),
    (0xfeff, ''SSL_RSA_FIPS_WITH_3DES_EDE_CBC_SHA'')]"

definition compression_names :: "(byte \<times> string) list" where
  "compression_names = [(0, ''NULL''), (1, ''DEFLATE''), (64, ''LZS'')]"

section \<open>The maps\<close>

definition assign_all :: "('k::linorder \<times> 'v) list \<Rightarrow> ('k, 'v) omap \<Rightarrow> ('k, 'v) omap" where
  "assign_all xs m = fold (\<lambda>(k, v). omap_insert k v) xs m"

definition init_cipher_suites :: "(16 word, string) omap \<Rightarrow> (16 word, string) omap" where
  "init_cipher_suites m =
     (if length m > 0 then m
      else assign_all cipher_suites_3 (assign_all cipher_suites_2 (assign_all cipher_suites_1 m)))"

definition init_compression_methods :: "(byte, string) omap \<Rightarrow> (byte, string) omap" where
  "init_compression_methods m = (if length m > 0 then m else assign_all compression_names m)"

text \<open>\<open>operator[]\<close> of a map of strings: the value, and the map with the key in it.\<close>

definition index_name :: "'k::linorder \<Rightarrow> ('k, string) omap \<Rightarrow> string \<times> ('k, string) omap" where
  "index_name k m = (case map_of m k of None \<Rightarrow> ([], omap_insert k [] m) | Some v \<Rightarrow> (v, m))"

definition num_to_cipher :: "16 word \<Rightarrow> (16 word, string) omap \<Rightarrow> string \<times> (16 word, string) omap" where
  "num_to_cipher num m = index_name num m"

definition num_to_compression :: "byte \<Rightarrow> (byte, string) omap \<Rightarrow> string \<times> (byte, string) omap" where
  "num_to_compression num m = index_name num m"

section \<open>Lookups do not change the names\<close>

lemma map_of_assign_all: "map_of (assign_all xs m) = map_of m ++ map_of (rev xs)"
  by (induction xs arbitrary: m) (auto simp: assign_all_def map_add_def fun_eq_iff split: option.splits)

text \<open>The name of a number: empty when it has none.\<close>

definition name_of :: "('k, string) omap \<Rightarrow> 'k \<Rightarrow> string" where
  "name_of m k = (case map_of m k of None \<Rightarrow> [] | Some v \<Rightarrow> v)"

lemma index_name_value: "fst (index_name k m) = name_of m k"
  by (simp add: index_name_def name_of_def split: option.split)

lemma index_name_keeps: "name_of (snd (index_name k m)) = name_of m"
  by (auto simp: index_name_def name_of_def split: option.splits)

lemma index_name_queries: "name_of (fold (\<lambda>k m. snd (index_name k m)) ks m) = name_of m"
  by (induction ks arbitrary: m) (simp_all add: index_name_keeps)

lemma index_name_grows: "m \<noteq> [] \<Longrightarrow> fold (\<lambda>k m. snd (index_name k m)) ks m \<noteq> []"
proof (induction ks arbitrary: m)
  case (Cons k ks)
  have "omap_insert k v m \<noteq> []" for v by (cases m) (auto split: if_splits)
  with Cons show ?case by (simp add: index_name_def split: option.split)
qed simp

section \<open>Properties\<close>

definition cipher_table :: "(16 word \<times> string) list" where
  "cipher_table = cipher_suites_1 @ cipher_suites_2 @ cipher_suites_3"

lemma cipher_table_keys: "successively (<) (map fst cipher_table)"
  by code_simp

lemma distinct_cipher_table: "distinct (map fst cipher_table)"
  using cipher_table_keys by (simp add: successively_conv_sorted_wrt strict_sorted_iff)

lemma name_of_rev: "distinct (map fst xs) \<Longrightarrow> name_of (rev xs) = name_of xs"
  by (simp add: name_of_def fun_eq_iff map_of_inject_set [of "rev xs" xs, THEN iffD2] rev_map [symmetric])

lemma name_of_init: "name_of (init_cipher_suites []) = name_of cipher_table"
  using name_of_rev [OF distinct_cipher_table]
  by (simp add: name_of_def fun_eq_iff init_cipher_suites_def map_of_assign_all cipher_table_def)

lemma init_cipher_suites_ne [simp]: "init_cipher_suites m \<noteq> []"
proof (cases m)
  case Nil
  have "name_of (init_cipher_suites []) 0 \<noteq> []"
    by (simp add: name_of_init name_of_def cipher_table_def cipher_suites_1_def)
  then show ?thesis using Nil by (auto simp: name_of_def)
qed (simp add: init_cipher_suites_def)

lemma init_cipher_suites_idle: "m \<noteq> [] \<Longrightarrow> init_cipher_suites m = m"
  by (simp add: init_cipher_suites_def)

text \<open>
  After any queries, with parsers created in between, \<open>num_to_cipher\<close> gives a cipher suite the name
  that the source assigns to its number, and the empty name to every other number.
\<close>

theorem cipher_names:
  "fst (num_to_cipher n (init_cipher_suites
     (fold (\<lambda>k m. snd (num_to_cipher k (init_cipher_suites m))) ks []))) = name_of cipher_table n"
proof -
  have "name_of (init_cipher_suites (fold (\<lambda>k m. snd (num_to_cipher k (init_cipher_suites m))) ks m)) =
    name_of (init_cipher_suites m)" for m
  proof (induction ks arbitrary: m)
    case (Cons k ks)
    have "snd (num_to_cipher k (init_cipher_suites m)) \<noteq> []"
      using index_name_grows [of "init_cipher_suites m" "[k]"] by (simp add: num_to_cipher_def)
    with Cons show ?case by (simp add: init_cipher_suites_idle num_to_cipher_def index_name_keeps)
  qed simp
  then show ?thesis by (simp add: num_to_cipher_def index_name_value name_of_init)
qed

end
