(* ===== verification/Ssl_Run.thy ===== *)
theory Ssl_Run
  imports Ssl Ssl_Tables
begin

text \<open>
  What \<open>cdpi_ssl.cpp\<close> makes of a stream of records: \<open>parse\<close> is a function of the byte string alone that
  may be called in pieces, and well-formed messages are read to their fields.
\<close>

section \<open>The parser on a byte string\<close>

definition record_len :: "byte list \<Rightarrow> nat" where
  "record_len xs = be_nat (take 2 (drop 3 xs))"

definition record_ver :: "byte list \<Rightarrow> ssl_world \<Rightarrow> ssl_world" where
  "record_ver xs = upd_ssl (\<lambda>s. s\<lparr>ssl_ver := ntohs (u16_of (take 2 (drop 1 xs)))\<rparr>)"

function ssl_stream :: "byte \<Rightarrow> byte list \<Rightarrow> ssl_world \<Rightarrow> (ssl_exit \<times> byte list \<times> ssl_world) result" where
  "ssl_stream junk xs w =
     (if length xs < 5 then Inr (SSL_returned, xs, w)
      else if length xs < record_len xs + 5 then Inr (SSL_returned, xs, record_ver xs w)
      else bindR (parse_record junk (hd xs) (take (record_len xs + 5) xs) (int (record_len xs)) (record_ver xs w))
        (\<lambda>(x, v). if x = SSL_returned then ssl_stream junk (drop (record_len xs + 5) xs) v
                  else Inr (x, drop (record_len xs + 5) xs, v)))"
  by pat_completeness auto
termination
  by (relation "measure (\<lambda>(junk, xs, w). length xs)") auto

declare ssl_stream.simps [simp del]

text \<open>The view of a result.\<close>

definition ssl_view :: "(ssl_exit \<times> cdpi_bytes list \<times> ssl_world) result \<Rightarrow> (ssl_exit \<times> byte list \<times> ssl_world) result" where
  "ssl_view r = bindR r (\<lambda>(x, bs, v). Inr (x, contents bs, v))"

lemma ssl_view_simps [simp]: "ssl_view (Inl e) = Inl e" "ssl_view (Inr (x, bs, v)) = Inr (x, contents bs, v)"
  by (simp_all add: ssl_view_def)

lemma take_record: "take 5 xs \<noteq> [] \<Longrightarrow> hd (take 5 xs) = hd xs"
  by (cases xs) simp_all

lemma ssl_parse_stream:
  "wf_blocks bs \<Longrightarrow>
     ssl_view (ssl_parse junk bs w) = ssl_stream junk (contents bs) w \<and>
     (\<forall>x bs' v. ssl_parse junk bs w = Inr (x, bs', v) \<longrightarrow> wf_blocks bs')"
proof (induction junk bs w rule: ssl_parse.induct)
  case (1 junk bs w)
  let ?xs = "contents bs"
  have head: "read_bytes bs 5 [] = Inr (take 5 ?xs)" using blocks.peek [OF "1.prems"] by simp
  show ?case
  proof (cases "length ?xs < 5")
    case True
    with head "1.prems" show ?thesis
      by (subst (1 2) ssl_parse.simps, subst ssl_stream.simps) simp
  next
    case False
    let ?n = "record_len ?xs" and ?w1 = "record_ver ?xs w"
    have "length (drop 3 (take 5 ?xs)) = 2" using False by simp
    then have len: "uint (ntohs (u16_of (drop 3 (take 5 ?xs)))) = int ?n"
      unfolding uint_nat by (subst unat_ntohs_u16) (simp_all add: record_len_def drop_take)
    have ver: "upd_ssl (\<lambda>s. s\<lparr>ssl_ver := ntohs (u16_of (take 2 (drop 1 (take 5 ?xs))))\<rparr>) w = ?w1"
      by (simp add: record_ver_def drop_take)
    have body: "read_bytes bs (int ?n + 5) [] = Inr (take (?n + 5) ?xs)"
      using blocks.peek [OF "1.prems", of "int ?n + 5"] by (simp add: nat_add_distrib)
    note step = ssl_parse.simps [of junk bs w, unfolded head bindR_Inr Let_def len ver body]
    show ?thesis
    proof (cases "length ?xs < ?n + 5")
      case True
      with False step "1.prems" show ?thesis by (subst ssl_stream.simps) simp
    next
      case full: False
      let ?mem = "take (?n + 5) ?xs"
      have mem: "length ?mem = ?n + 5" using full by simp
      have "nat (int (length ?mem)) = ?n + 5" by (simp only: mem nat_int)
      with blocks.skip [OF "1.prems", of "int (length ?mem)"] obtain bs1 k where
        s: "skip_bytes bs (int (length ?mem)) 0 = Inr (bs1, k)" "wf_blocks bs1" "contents bs1 = drop (?n + 5) ?xs"
        by auto
      have hd: "hd (take 5 ?xs) = hd ?xs" using False by (cases ?xs) simp_all
      show ?thesis
      proof (cases "parse_record junk (hd ?xs) ?mem (int ?n) ?w1")
        case (Inl e)
        with False full step s(1) mem hd show ?thesis by (subst ssl_stream.simps) simp
      next
        case (Inr r)
        obtain x v where r: "r = (x, v)" by (cases r)
        show ?thesis
        proof (cases "x = SSL_returned")
          case True
          have "ssl_view (ssl_parse junk bs1 v) = ssl_stream junk (contents bs1) v \<and>
              (\<forall>x bs' v'. ssl_parse junk bs1 v = Inr (x, bs', v') \<longrightarrow> wf_blocks bs')"
            by (rule "1.IH" [OF head _ len [symmetric] ver [symmetric] body _ s(1) refl _ refl True s(2)])
              (use False full hd Inr r in simp_all)
          with False full step s mem hd Inr r True show ?thesis by (subst ssl_stream.simps) simp
        next
          case ex: False
          with False full step s mem hd Inr r show ?thesis by (subst ssl_stream.simps) simp
        qed
      qed
    qed
  qed
qed


lemma ssl_stream_append:
  "ssl_stream junk xs w = Inr (SSL_returned, r, v) \<Longrightarrow>
     ssl_stream junk (xs @ ys) w = ssl_stream junk (r @ ys) v"
proof (induction junk xs w arbitrary: r v rule: ssl_stream.induct)
  case (1 junk xs w)
  show ?case
  proof (cases "length xs < 5")
    case True
    with "1.prems" show ?thesis by (subst (asm) ssl_stream.simps) simp
  next
    case False
    have len: "record_len (xs @ ys) = record_len xs" and ver: "record_ver (xs @ ys) = record_ver xs"
      and hd: "hd (xs @ ys) = hd xs"
      using False by (simp_all add: record_len_def record_ver_def) (cases xs; simp)
    show ?thesis
    proof (cases "length xs < record_len xs + 5")
      case True
      with "1.prems" False have rv: "r = xs" "v = record_ver xs w"
        by (subst (asm) ssl_stream.simps, simp)+
      have "record_ver xs (record_ver xs w) = record_ver xs w" by (simp add: record_ver_def upd_ssl_def)
      then show ?thesis
        unfolding rv using False by (subst (1 2) ssl_stream.simps) (simp add: len ver)
    next
      case full: False
      from "1.prems" False full obtain w2 where
        p: "parse_record junk (hd xs) (take (record_len xs + 5) xs) (int (record_len xs)) (record_ver xs w) = Inr (SSL_returned, w2)"
        "ssl_stream junk (drop (record_len xs + 5) xs) w2 = Inr (SSL_returned, r, v)"
        by (subst (asm) ssl_stream.simps) (auto simp: bindR_eq_Inr split: if_splits)
      from "1.IH" [OF False full p(1) refl refl p(2)] have
        "ssl_stream junk (drop (record_len xs + 5) xs @ ys) w2 = ssl_stream junk (r @ ys) v" .
      with False full p(1) show ?thesis
        by (subst ssl_stream.simps) (simp add: len ver hd)
    qed
  qed
qed

section \<open>How far the parsers read\<close>

lemma rdsi_ok: "0 \<le> i \<Longrightarrow> 0 \<le> n \<Longrightarrow> i + n \<le> int (length mem) \<Longrightarrow>
    rdsi mem i n = Inr (take (nat n) (drop (nat i) mem))"
  by (simp add: rdsi_eq_Inr)

lemma returns_bind: "m = Inr x \<Longrightarrow> returns (f x) \<Longrightarrow> returns (bindR m f)"
  by simp

lemma set_buf_returns:
  "0 \<le> i \<Longrightarrow> 0 \<le> n \<Longrightarrow> i + n \<le> int (length mem) \<Longrightarrow> \<exists>b. set_buf (drop (nat i) mem) n = Inr b"
  by (auto simp: set_buf_def rdsi_ok)

lemma read_session_returns:
  assumes "0 \<le> data" "end_of_data \<le> int (length mem)"
  shows "\<exists>r v. read_session mem data end_of_data w = Inr (r, v) \<and>
    (case r of None \<Rightarrow> True | Some p \<Rightarrow> data < p \<and> p \<le> end_of_data)"
proof -
  let ?n = "uint (hd (take 1 (drop (nat (data + 32)) mem)))"
  have "data + 33 + ?n \<le> end_of_data \<Longrightarrow> \<exists>b. set_buf (drop (nat (data + 33)) mem) ?n = Inr b"
    using assms by (intro set_buf_returns) auto
  with assms show ?thesis
    by (auto simp: read_session_def rdsi_ok Let_def)
qed

lemma cipher_loop_returns:
  "0 \<le> data \<Longrightarrow> data + 2 * int n \<le> int (length mem) \<Longrightarrow> returns (cipher_loop n mem data w)"
  by (induction n mem data w rule: cipher_loop.induct) (auto simp: rdsi_ok)

lemma compression_loop_returns:
  "0 \<le> data \<Longrightarrow> data + int n \<le> int (length mem) \<Longrightarrow> returns (compression_loop n mem data w)"
  by (induction n mem data w rule: compression_loop.induct) (auto simp: rdsi_ok)

lemma parse_server_hello_returns:
  assumes "0 \<le> data" "0 \<le> len" "data + len + 2 \<le> int (length mem)"
  shows "returns (parse_server_hello mem data len w)"
proof -
  let ?w = "upd_ssl (\<lambda>s. s\<lparr>ssl_ver := ntohs (u16_of (take 2 (drop (nat data) mem)))\<rparr>) w"
  obtain r v where "read_session mem (data + 2) (data + len) ?w = Inr (r, v)"
    "case r of None \<Rightarrow> True | Some p \<Rightarrow> data + 2 < p \<and> p \<le> data + len"
    using read_session_returns [of "data + 2" "data + len" mem ?w] assms by auto
  with assms show ?thesis
    by (auto simp: parse_server_hello_def read_version_def rdsi_ok Let_def split: option.splits)
qed

lemma read_suites_returns:
  assumes "0 \<le> p" "end_of_data + 2 \<le> int (length mem)"
  shows "returns (read_suites mem p end_of_data w)"
proof -
  define n where "n = uint (ntohs (u16_of (take 2 (drop (nat p) mem))))"
  define k where "k = uint (hd (take 1 (drop (nat (p + 2 + n)) mem)))"
  have nk: "0 \<le> n" "0 \<le> k" by (simp_all add: n_def k_def)
  have p: "p + 2 \<le> end_of_data \<Longrightarrow> rdsi mem p 2 = Inr (take 2 (drop (nat p) mem))"
    using assms by (simp add: rdsi_ok)
  have q: "p + 2 + n \<le> end_of_data \<Longrightarrow> rdsi mem (p + 2 + n) 1 = Inr (take 1 (drop (nat (p + 2 + n)) mem))"
    using assms nk by (simp add: rdsi_ok del: take_Suc_conv_app_nth)
  have c: "p + 2 + n \<le> end_of_data \<Longrightarrow> returns (cipher_loop (nat (n div 2)) mem (p + 2) w)"
    using assms nk by (intro cipher_loop_returns) auto
  have m: "p + 2 + n + 1 + k \<le> end_of_data \<Longrightarrow> returns (compression_loop (nat k) mem (p + 2 + n + 1) v)" for v
    using assms nk by (intro compression_loop_returns) auto
  show ?thesis
  proof (cases "p + 2 + n \<le> end_of_data")
    case True
    with c obtain v where v: "cipher_loop (nat (n div 2)) mem (p + 2) w = Inr v" by (auto simp: returns_def)
    have "returns (if p + 2 + n + 1 + k > end_of_data then Inr v
      else bindR (compression_loop (nat k) mem (p + 2 + n + 1) v) (\<lambda>w2. Inr (emit_ssl CDPI_EVENT_SSL_CLIENT_HELLO w2)))"
      using m [of v] by (auto simp: returns_bindR returns_def)
    with True nk show ?thesis
      by (simp only: read_suites_def Let_def p q v n_def [symmetric] k_def [symmetric] bindR_Inr) simp
  next
    case False
    then show ?thesis
      using p by (cases "p + 2 \<le> end_of_data") (simp_all add: read_suites_def Let_def n_def [symmetric])
  qed
qed

lemma parse_client_hello_returns:
  assumes "0 \<le> data" "0 \<le> len" "data + len + 2 \<le> int (length mem)"
  shows "returns (parse_client_hello mem data len w)"
proof -
  let ?w = "upd_ssl (\<lambda>s. s\<lparr>ssl_ver := ntohs (u16_of (take 2 (drop (nat data) mem)))\<rparr>) w"
  obtain r v where "read_session mem (data + 2) (data + len) ?w = Inr (r, v)"
    "case r of None \<Rightarrow> True | Some p \<Rightarrow> data + 2 < p \<and> p \<le> data + len"
    using read_session_returns [of "data + 2" "data + len" mem ?w] assms by auto
  with assms read_suites_returns [of _ "data + len" mem v] show ?thesis
    by (auto simp: parse_client_hello_def read_version_def rdsi_ok Let_def split: option.splits)
qed

lemma cert_loop_returns:
  "0 \<le> data \<Longrightarrow> data + len \<le> int (length mem) \<Longrightarrow> returns (cert_loop mem data len w)"
proof (induction mem data len w rule: cert_loop.induct)
  case (1 mem data len w)
  show ?case
  proof (cases "len < 3")
    case True
    then show ?thesis by (subst cert_loop.simps) simp
  next
    case False
    obtain n where n: "read_u24 0 mem data = Inr n" "0 \<le> n"
      using "1.prems" False by (auto simp: read_u24_def rdsi_ok)
    show ?thesis
    proof (cases "n > len - 3")
      case True
      with False n show ?thesis by (subst cert_loop.simps) simp
    next
      case le: False
      obtain b where b: "set_buf (drop (nat (data + 3)) mem) n = Inr b"
        using set_buf_returns [of "data + 3" n mem] "1.prems" False le n(2) by auto
      from "1.IH" [OF False n(1) le b] "1.prems" False le n b show ?thesis
        by (subst cert_loop.simps) simp
    qed
  qed
qed

lemma parse_certificate_returns:
  assumes "0 \<le> data" "data + len \<le> int (length mem)"
  shows "returns (parse_certificate junk mem data len w)"
  using assms cert_loop_returns [of "data + 3" "len - 3" mem w]
  by (auto simp: parse_certificate_def read_u24_def rdsi_ok)

lemma handshake_loop_returns:
  "0 \<le> data \<Longrightarrow> data \<le> eoc \<Longrightarrow> eoc + 2 \<le> int (length mem) \<Longrightarrow> returns (handshake_loop junk mem data eoc w)"
proof (induction junk mem data eoc w rule: handshake_loop.induct)
  case (1 junk mem data eoc w)
  have t: "rdsi mem data 1 = Inr (take (nat 1) (drop (nat data) mem))" using "1.prems" by (simp only: rdsi_ok)
  show ?case
  proof (cases "data + 4 > eoc")
    case True
    then show ?thesis by (subst handshake_loop.simps) (simp add: t)
  next
    case False
    define h where "h = take (nat 4) (drop (nat data) mem)"
    define n where "n = uint (ntohl (u32_of h) AND 0x00ffffff)"
    have h: "rdsi mem data 4 = Inr h" using "1.prems" False by (simp add: rdsi_ok h_def)
    have n: "0 \<le> n" by (simp add: n_def)
    let ?ty = "hd (take (nat 1) (drop (nat data) mem))"
    show ?thesis
    proof (cases "data + n + 4 > eoc")
      case True
      with False show ?thesis by (subst handshake_loop.simps) (simp add: t h n_def [symmetric])
    next
      case le: False
      define r where "r = (if ?ty = SSL_CLIENT_HELLO then parse_client_hello mem (data + 4) n w
         else if ?ty = SSL_SERVER_HELLO then parse_server_hello mem (data + 4) n w
         else if ?ty = SSL_CERTIFICATE then parse_certificate junk mem (data + 4) n w else Inr w)"
      have "returns r"
        unfolding r_def using "1.prems" le n
        by (auto intro!: parse_client_hello_returns parse_server_hello_returns parse_certificate_returns)
      then obtain v where v: "r = Inr v" by (auto simp: returns_def)
      have eq: "handshake_loop junk mem data eoc w = (if data + n + 4 = eoc then Inr (SSL_returned, v)
        else handshake_loop junk mem (data + n + 4) eoc v)"
        using False le by (subst handshake_loop.simps)
          (simp only: t h bindR_Inr Let_def n_def [symmetric] r_def [symmetric] v if_False)
      show ?thesis
      proof (cases "data + n + 4 = eoc")
        case ne: False
        from "1.IH" [OF t False h refl n_def _ v [unfolded r_def] ne] le "1.prems" n eq ne show ?thesis by simp
      qed (simp add: eq)
    qed
  qed
qed

lemma parse_record_returns:
  assumes "0 \<le> len" "len + 7 \<le> int (length mem)"
  shows "returns (parse_record junk type mem len w)"
  using assms handshake_loop_returns [of 5 "5 + len" mem junk w]
  by (auto simp: parse_record_def parse_handshake_def parse_change_cipher_spec_def rdsi_ok)

section \<open>Well-formed messages\<close>

definition record_bytes :: "byte \<Rightarrow> 16 word \<Rightarrow> byte list \<Rightarrow> byte list" where
  "record_bytes type ver payload = type # be_bytes 2 (unat ver) @ be_bytes 2 (length payload) @ payload"

definition message_bytes :: "byte \<Rightarrow> byte list \<Rightarrow> byte list" where
  "message_bytes type body = type # be_bytes 3 (length body) @ body"

definition hello_bytes :: "16 word \<Rightarrow> 32 word \<Rightarrow> byte list \<Rightarrow> byte list \<Rightarrow> 16 word list \<Rightarrow> byte list \<Rightarrow>
    byte list \<Rightarrow> byte list" where
  "hello_bytes ver time rnd sid suites comps ext =
     be_bytes 2 (unat ver) @ be_bytes 4 (unat time) @ rnd @ [word_of_nat (length sid)] @ sid @
     be_bytes 2 (2 * length suites) @ concat (map (\<lambda>c. be_bytes 2 (unat c)) suites) @
     [word_of_nat (length comps)] @ comps @ ext"

lemma rdsi_at: "mem = pre @ xs @ post \<Longrightarrow> i = int (length pre) \<Longrightarrow> n = int (length xs) \<Longrightarrow> rdsi mem i n = Inr xs"
  by (simp add: rdsi_def rds_def)

lemma set_buf_at: "mem = pre @ xs @ post \<Longrightarrow> i = length pre \<Longrightarrow> n = int (length xs) \<Longrightarrow>
    set_buf (drop i mem) n = Inr (assign_str xs)"
  by (simp add: set_buf_def assign_str_def rdsi_def rds_def)

lemma ntohs_be_bytes [simp]: "ntohs (u16_of (be_bytes 2 (unat v))) = v"
proof -
  have "unat v < 65536" using unsigned_less [of v] by simp
  then show ?thesis by (simp add: word_unat_eq_iff)
qed

lemma ntohl_be_bytes [simp]: "ntohl (u32_of (be_bytes 4 (unat v))) = v"
proof -
  have "unat v < 4294967296" using unsigned_less [of v] by simp
  then show ?thesis by (simp add: word_unat_eq_iff)
qed

lemma uint_ntohs_be_bytes: "n < 65536 \<Longrightarrow> uint (ntohs (u16_of (be_bytes 2 n))) = int n"
  unfolding uint_nat by (subst unat_ntohs_u16) simp_all

lemma uint_byte_of_nat: "n < 256 \<Longrightarrow> uint (word_of_nat n :: byte) = int n"
  by (simp add: uint_nat)

lemma cipher_loop_at:
  "mem = pre @ concat (map (\<lambda>c. be_bytes 2 (unat c)) cs) @ post \<Longrightarrow> data = int (length pre) \<Longrightarrow>
     cipher_loop (length cs) mem data w =
       Inr (upd_ssl (\<lambda>s. s\<lparr>ssl_cipher_suites := ssl_cipher_suites s @ cs\<rparr>) w)"
proof (induction cs arbitrary: pre data w)
  case Nil
  then show ?case by (simp add: upd_ssl_def)
next
  case (Cons c cs)
  have "rdsi mem data 2 = Inr (be_bytes 2 (unat c))"
    using Cons.prems by (intro rdsi_at [of _ pre]) simp_all
  with Cons.IH [of "pre @ be_bytes 2 (unat c)" "data + 2"] Cons.prems show ?case
    by (simp add: upd_ssl_def)
qed

lemma compression_loop_at:
  "mem = pre @ ms @ post \<Longrightarrow> data = int (length pre) \<Longrightarrow>
     compression_loop (length ms) mem data w =
       Inr (upd_ssl (\<lambda>s. s\<lparr>ssl_compression_methods := ssl_compression_methods s @ ms\<rparr>) w)"
proof (induction ms arbitrary: pre data w)
  case Nil
  then show ?case by (simp add: upd_ssl_def)
next
  case (Cons c cs)
  have "rdsi mem data 1 = Inr [c]"
    using Cons.prems by (intro rdsi_at [of _ pre _ "cs @ post"]) simp_all
  with Cons.IH [of "pre @ [c]" "data + 1"] Cons.prems show ?case
    by (simp add: upd_ssl_def)
qed

text \<open>The parser behind the session fields; an empty session leaves the old one.\<close>

definition with_session :: "32 word \<Rightarrow> byte list \<Rightarrow> byte list \<Rightarrow> cdpi_ssl \<Rightarrow> cdpi_ssl" where
  "with_session time rnd sid s = s\<lparr>ssl_gmt_unix_time := time, ssl_random := rnd,
     ssl_session_id := (if sid = [] then ssl_session_id s else assign_str sid)\<rparr>"

lemma read_session_at:
  assumes "mem = pre @ be_bytes 4 (unat time) @ rnd @ [word_of_nat (length sid)] @ sid @ post"
    and "data = int (length pre)" "length rnd = 28" "length sid < 256" "data + 33 + int (length sid) \<le> eod"
  shows "read_session mem data eod w = Inr (Some (data + 33 + int (length sid)), upd_ssl (with_session time rnd sid) w)"
proof -
  let ?t = "be_bytes 4 (unat time)" and ?l = "[word_of_nat (length sid) :: byte]"
  have "rdsi mem data 4 = Inr ?t"
    using assms by (intro rdsi_at [of _ pre]) simp_all
  moreover have "rdsi mem (data + 4) 28 = Inr rnd"
    using assms by (intro rdsi_at [of _ "pre @ ?t" _ "?l @ sid @ post"]) simp_all
  moreover have "rdsi mem (data + 32) 1 = Inr ?l"
    using assms by (intro rdsi_at [of _ "pre @ ?t @ rnd" _ "sid @ post"]) simp_all
  moreover have "set_buf (drop (nat (data + 33)) mem) (int (length sid)) = Inr (assign_str sid)"
    using assms by (intro set_buf_at [of _ "pre @ ?t @ rnd @ ?l" _ post]) simp_all
  ultimately show ?thesis
    using assms(4,5) by (simp add: read_session_def Let_def uint_byte_of_nat upd_ssl_def with_session_def)
qed

definition with_hello :: "16 word \<Rightarrow> 32 word \<Rightarrow> byte list \<Rightarrow> byte list \<Rightarrow> 16 word list \<Rightarrow> byte list \<Rightarrow> cdpi_ssl \<Rightarrow> cdpi_ssl" where
  "with_hello ver time rnd sid suites comps s = (with_session time rnd sid (s\<lparr>ssl_ver := ver\<rparr>))\<lparr>
     ssl_cipher_suites := ssl_cipher_suites s @ suites, ssl_compression_methods := ssl_compression_methods s @ comps\<rparr>"

definition hello_ok :: "16 word \<Rightarrow> byte list \<Rightarrow> byte list \<Rightarrow> 16 word list \<Rightarrow> byte list \<Rightarrow> bool" where
  "hello_ok ver rnd sid suites comps \<longleftrightarrow> (ver = SSL30_VER \<or> ver = TLS10_VER) \<and> length rnd = 28 \<and>
     length sid < 256 \<and> length suites < 32768 \<and> length comps < 256"

lemma length_suites: "length (concat (map (\<lambda>c. be_bytes 2 (unat c)) cs)) = 2 * length cs"
  by (induction cs) simp_all

lemma read_suites_at:
  assumes "mem = pre @ be_bytes 2 (2 * length suites) @ concat (map (\<lambda>c. be_bytes 2 (unat c)) suites) @
      [word_of_nat (length comps)] @ comps @ post"
    and "p = int (length pre)" "length suites < 32768" "length comps < 256"
    and "p + 3 + 2 * int (length suites) + int (length comps) \<le> eod"
  shows "read_suites mem p eod w = Inr (emit_ssl CDPI_EVENT_SSL_CLIENT_HELLO (upd_ssl (\<lambda>s. s\<lparr>
     ssl_cipher_suites := ssl_cipher_suites s @ suites, ssl_compression_methods := ssl_compression_methods s @ comps\<rparr>) w))"
proof -
  let ?n = "2 * length suites" and ?s = "concat (map (\<lambda>c. be_bytes 2 (unat c)) suites)"
  let ?l = "[word_of_nat (length comps) :: byte]"
  have "rdsi mem p 2 = Inr (be_bytes 2 ?n)"
    using assms by (intro rdsi_at [of _ pre]) simp_all
  moreover have "cipher_loop (nat (int ?n div 2)) mem (p + 2) w =
      Inr (upd_ssl (\<lambda>s. s\<lparr>ssl_cipher_suites := ssl_cipher_suites s @ suites\<rparr>) w)"
    using cipher_loop_at [of mem "pre @ be_bytes 2 ?n" suites "?l @ comps @ post" "p + 2"] assms(1,2) by simp
  moreover have "rdsi mem (p + 2 + int ?n) 1 = Inr ?l"
    using assms(1,2) by (intro rdsi_at [of _ "pre @ be_bytes 2 ?n @ ?s" _ "comps @ post"])
      (simp_all add: length_suites del: length_concat)
  moreover have "compression_loop (length comps) mem (p + 2 + int ?n + 1) v =
      Inr (upd_ssl (\<lambda>s. s\<lparr>ssl_compression_methods := ssl_compression_methods s @ comps\<rparr>) v)" for v
    using assms(1,2) by (intro compression_loop_at [of _ "pre @ be_bytes 2 ?n @ ?s @ ?l" _ post])
      (simp_all add: length_suites del: length_concat)
  moreover have "uint (ntohs (u16_of (be_bytes 2 ?n))) = int ?n"
    using assms(3) by (intro uint_ntohs_be_bytes) simp
  ultimately show ?thesis
    using assms(4,5) by (simp add: read_suites_def Let_def uint_byte_of_nat upd_ssl_def ac_simps)
qed

lemma le_nat_append: "le_nat (xs @ ys) = le_nat xs + 256 ^ length xs * le_nat ys"
  by (induction xs) (simp_all add: algebra_simps)

lemma be_nat_Cons: "be_nat (x # xs) = unat x * 256 ^ length xs + be_nat xs"
  by (simp add: be_nat_def le_nat_append)

lemma be_nat_snoc: "be_nat (xs @ [x]) = 256 * be_nat xs + unat x"
  by (simp add: be_nat_def)

lemma message_length:
  assumes "n < 16777216"
  shows "uint (ntohl (u32_of (type # be_bytes 3 n)) AND 0x00ffffff) = int n"
proof -
  have "unat (ntohl (u32_of (type # be_bytes 3 n))) = unat type * 16777216 + n"
    using assms by (subst unat_ntohl_u32) (simp_all add: be_nat_Cons)
  moreover have m: "w AND 0x00ffffff = take_bit 24 w" for w :: "32 word"
    by (simp add: take_bit_eq_mask mask_eq_exp_minus_1)
  ultimately show ?thesis
    unfolding uint_nat m unsigned_take_bit_eq using assms by (simp add: take_bit_eq_mod)
qed

lemma read_u24_at:
  assumes "mem = pre @ be_bytes 3 n @ post" "i = int (length pre)" "n < 16777216"
  shows "read_u24 junk mem i = Inr (int n)"
proof -
  have "unat (ntohl (u32_of (be_bytes 3 n @ [junk]))) = 256 * n + unat junk"
    using assms(3) by (subst unat_ntohl_u32) (simp_all add: be_nat_snoc)
  then have "unat (drop_bit 8 (ntohl (u32_of (be_bytes 3 n @ [junk])))) = n"
    by (simp only: unat_drop_bit_eq) (simp add: drop_bit_eq_div)
  moreover have "rdsi mem i 3 = Inr (be_bytes 3 n)"
    using assms(1,2) by (intro rdsi_at [of _ pre]) simp_all
  ultimately show ?thesis by (simp add: read_u24_def uint_nat)
qed

lemma parse_client_hello_at:
  assumes "mem = pre @ hello_bytes ver time rnd sid suites comps ext @ post" "data = int (length pre)"
    and "hello_ok ver rnd sid suites comps" "len = int (length (hello_bytes ver time rnd sid suites comps ext))"
  shows "parse_client_hello mem data len w =
    Inr (emit_ssl CDPI_EVENT_SSL_CLIENT_HELLO (upd_ssl (with_hello ver time rnd sid suites comps) w))"
proof -
  let ?v = "be_bytes 2 (unat ver)" and ?t = "be_bytes 4 (unat time)"
  let ?sid = "rnd @ [word_of_nat (length sid)] @ sid"
  let ?rest = "be_bytes 2 (2 * length suites) @ concat (map (\<lambda>c. be_bytes 2 (unat c)) suites) @
      [word_of_nat (length comps)] @ comps @ ext @ post"
  let ?w1 = "upd_ssl (\<lambda>s. s\<lparr>ssl_ver := ver\<rparr>) w"
  have mem: "mem = pre @ ?v @ ?t @ ?sid @ ?rest" using assms(1) by (simp add: hello_bytes_def)
  have len: "len = 40 + int (length sid) + 2 * int (length suites) - 2 + int (length comps) + int (length ext)"
    using assms(3,4) by (simp add: hello_bytes_def hello_ok_def length_suites del: length_concat)
  have "rdsi mem data 2 = Inr ?v" using mem assms(2) by (intro rdsi_at [of _ pre]) simp_all
  then have v: "read_version mem data w = Inr ?w1" by (simp add: read_version_def)
  have s: "read_session mem (data + 2) (data + len) ?w1 =
      Inr (Some (data + 2 + 33 + int (length sid)), upd_ssl (with_session time rnd sid) ?w1)"
    using assms(2,3) len mem
    by (intro read_session_at [of mem "pre @ ?v" time rnd sid ?rest]) (simp_all add: hello_ok_def)
  have "read_suites mem (data + 2 + 33 + int (length sid)) (data + len) (upd_ssl (with_session time rnd sid) ?w1) =
      Inr (emit_ssl CDPI_EVENT_SSL_CLIENT_HELLO (upd_ssl (\<lambda>s. s\<lparr>
     ssl_cipher_suites := ssl_cipher_suites s @ suites, ssl_compression_methods := ssl_compression_methods s @ comps\<rparr>)
       (upd_ssl (with_session time rnd sid) ?w1)))"
    using assms(2,3) len mem
    by (intro read_suites_at [of mem "pre @ ?v @ ?t @ ?sid" suites comps "ext @ post"]) (simp_all add: hello_ok_def)
  with v s assms(3) show ?thesis
    by (simp add: parse_client_hello_def Let_def hello_ok_def upd_ssl_def with_hello_def with_session_def)
qed

lemma cert_loop_at:
  "mem = pre @ concat (map (\<lambda>c. be_bytes 3 (length c) @ c) cs) @ post \<Longrightarrow> data = int (length pre) \<Longrightarrow>
     len = int (length (concat (map (\<lambda>c. be_bytes 3 (length c) @ c) cs))) \<Longrightarrow> \<forall>c \<in> set cs. length c < 16777216 \<Longrightarrow>
     cert_loop mem data len w = Inr (emit_ssl CDPI_EVENT_SSL_CERTIFICATE
       (upd_ssl (\<lambda>s. s\<lparr>ssl_certificates := ssl_certificates s @ map assign_str cs\<rparr>) w))"
proof (induction cs arbitrary: pre data len w)
  case Nil
  then show ?case by (subst cert_loop.simps) (simp add: upd_ssl_def)
next
  case (Cons c cs)
  let ?r = "concat (map (\<lambda>c. be_bytes 3 (length c) @ c) cs)"
  have n: "read_u24 0 mem data = Inr (int (length c))"
    using Cons.prems by (intro read_u24_at [of _ pre _ "c @ ?r @ post"]) simp_all
  have b: "set_buf (drop (nat (data + 3)) mem) (int (length c)) = Inr (assign_str c)"
    using Cons.prems by (intro set_buf_at [of _ "pre @ be_bytes 3 (length c)" _ "?r @ post"]) (simp_all add: nat_add_distrib)
  have "cert_loop mem (data + 3 + int (length c)) (int (length ?r))
      (upd_ssl (\<lambda>s. s\<lparr>ssl_certificates := ssl_certificates s @ [assign_str c]\<rparr>) w) =
    Inr (emit_ssl CDPI_EVENT_SSL_CERTIFICATE (upd_ssl (\<lambda>s. s\<lparr>ssl_certificates := ssl_certificates s @ map assign_str cs\<rparr>)
      (upd_ssl (\<lambda>s. s\<lparr>ssl_certificates := ssl_certificates s @ [assign_str c]\<rparr>) w)))"
    using Cons.prems by (intro Cons.IH [of "pre @ be_bytes 3 (length c) @ c"]) simp_all
  moreover have "len = 3 + int (length c) + int (length ?r)" using Cons.prems(3) by simp
  ultimately show ?case using n b by (subst cert_loop.simps) (simp add: upd_ssl_def)
qed

definition certificate_bytes :: "byte list list \<Rightarrow> byte list" where
  "certificate_bytes cs = (let xs = concat (map (\<lambda>c. be_bytes 3 (length c) @ c) cs) in be_bytes 3 (length xs) @ xs)"

lemma parse_certificate_at:
  assumes "mem = pre @ certificate_bytes cs @ post" "data = int (length pre)"
    and "len = int (length (certificate_bytes cs))" "length (certificate_bytes cs) < 16777216"
  shows "parse_certificate junk mem data len w = Inr (emit_ssl CDPI_EVENT_SSL_CERTIFICATE
       (upd_ssl (\<lambda>s. s\<lparr>ssl_certificates := ssl_certificates s @ map assign_str cs\<rparr>) w))"
proof -
  define xs where "xs = concat (map (\<lambda>c. be_bytes 3 (length c) @ c) cs)"
  have b: "certificate_bytes cs = be_bytes 3 (length xs) @ xs" by (simp add: certificate_bytes_def xs_def Let_def)
  have small: "c \<in> set cs \<Longrightarrow> length c < 16777216" for c
  proof -
    assume "c \<in> set cs"
    then obtain as bs where "cs = as @ c # bs" by (meson split_list)
    then have "length c \<le> length xs" by (simp add: xs_def)
    with assms(4) show "length c < 16777216" by (simp add: b)
  qed
  have "read_u24 junk mem data = Inr (int (length xs))"
    using assms by (intro read_u24_at [of _ pre _ "xs @ post"]) (simp_all add: b)
  moreover have "cert_loop mem (data + 3) (len - 3) w = Inr (emit_ssl CDPI_EVENT_SSL_CERTIFICATE
       (upd_ssl (\<lambda>s. s\<lparr>ssl_certificates := ssl_certificates s @ map assign_str cs\<rparr>) w))"
    using assms small by (intro cert_loop_at [of _ "pre @ be_bytes 3 (length xs)" _ post])
      (simp_all add: b flip: xs_def)
  ultimately show ?thesis using assms(3) by (simp add: parse_certificate_def b)
qed

text \<open>A record that holds one message.\<close>

lemma handshake_one:
  assumes "mem = pre @ message_bytes type body" "length body < 16777216"
    and "eoc = int (length mem)" "data = int (length pre)"
    and "(if type = SSL_CLIENT_HELLO then parse_client_hello mem (data + 4) (int (length body)) w
       else if type = SSL_SERVER_HELLO then parse_server_hello mem (data + 4) (int (length body)) w
       else if type = SSL_CERTIFICATE then parse_certificate junk mem (data + 4) (int (length body)) w
       else Inr w) = Inr v"
  shows "handshake_loop junk mem data eoc w = Inr (SSL_returned, v)"
proof -
  let ?n = "be_bytes 3 (length body)"
  have "rdsi mem data 1 = Inr [type]"
    using assms(1,4) by (intro rdsi_at [of _ pre _ "?n @ body"]) (simp_all add: message_bytes_def)
  moreover have "rdsi mem data 4 = Inr (type # ?n)"
    using assms(1,4) by (intro rdsi_at [of _ pre _ body]) (simp_all add: message_bytes_def)
  moreover have "data + int (length body) + 4 = eoc"
    using assms(1,3,4) by (simp add: message_bytes_def)
  ultimately show ?thesis
    using assms(2,5) by (subst handshake_loop.simps) (auto simp: Let_def message_length)
qed

lemma ssl_parse_record:
  assumes "wf_blocks bs" "contents bs = record_bytes type ver payload @ r" "length payload < 65536"
  shows "\<exists>bs'. wf_blocks bs' \<and> contents bs' = r \<and> ssl_parse junk bs w =
    bindR (parse_record junk type (record_bytes type ver payload) (int (length payload))
      (upd_ssl (\<lambda>s. s\<lparr>ssl_ver := ver\<rparr>) w))
      (\<lambda>(x, v). if x = SSL_returned then ssl_parse junk bs' v else Inr (x, bs', v))"
proof -
  let ?rec = "record_bytes type ver payload"
  have l: "length ?rec = length payload + 5" by (simp add: record_bytes_def)
  have head: "read_bytes bs 5 [] = Inr (take 5 ?rec)"
    using blocks.peek [OF assms(1), of 5] assms(2) l by simp
  have len: "uint (ntohs (u16_of (drop 3 (take 5 ?rec)))) = int (length payload)"
    using assms(3) by (simp add: record_bytes_def uint_ntohs_be_bytes)
  have ver: "ntohs (u16_of (take 2 (drop 1 (take 5 ?rec)))) = ver"
    by (simp add: record_bytes_def)
  have hd: "hd (take 5 ?rec) = type" by (simp add: record_bytes_def)
  have body: "read_bytes bs (int (length payload) + 5) [] = Inr ?rec"
    using blocks.peek [OF assms(1), of "int (length payload) + 5"] assms(2) l by (simp add: nat_add_distrib)
  from blocks.skip [OF assms(1), of "int (length ?rec)"] assms(2) l obtain bs' k where
    s: "skip_bytes bs (int (length ?rec)) 0 = Inr (bs', k)" "wf_blocks bs'" "contents bs' = r"
    by (auto simp: nat_add_distrib)
  have "ssl_parse junk bs w = bindR (parse_record junk type ?rec (int (length payload)) (upd_ssl (\<lambda>s. s\<lparr>ssl_ver := ver\<rparr>) w))
      (\<lambda>(x, v). if x = SSL_returned then ssl_parse junk bs' v else Inr (x, bs', v))"
    by (subst ssl_parse.simps, unfold head bindR_Inr Let_def len ver body hd s(1)) (simp add: l)
  with s(2,3) show ?thesis by blast
qed

lemma read_record:
  assumes "wf_blocks bs" "contents bs = record_bytes type ver payload @ r" "length payload < 65536"
    and "parse_record junk type (record_bytes type ver payload) (int (length payload))
      (upd_ssl (\<lambda>s. s\<lparr>ssl_ver := ver\<rparr>) w) = Inr (SSL_returned, v)"
  shows "\<exists>bs'. wf_blocks bs' \<and> contents bs' = r \<and> ssl_parse junk bs w = ssl_parse junk bs' v"
  using ssl_parse_record [OF assms(1-3), of junk w] assms(4) by simp

section \<open>Properties\<close>

text \<open>
  C14: a record with a client hello is read to the fields of the message, whatever extensions follow,
  the listener is told once, and parsing goes on behind the record.
\<close>

theorem ssl_client_hello:
  assumes "wf_blocks bs" "hello_ok ver rnd sid suites comps"
    and "contents bs = record_bytes SSL_HANDSHAKE rver
      (message_bytes SSL_CLIENT_HELLO (hello_bytes ver time rnd sid suites comps ext)) @ r"
    and "length (hello_bytes ver time rnd sid suites comps ext) < 65532" "\<not> ssl_is_change_cipher_spec (s_ssl w)"
  shows "\<exists>bs'. wf_blocks bs' \<and> contents bs' = r \<and> ssl_parse junk bs w = ssl_parse junk bs'
    (emit_ssl CDPI_EVENT_SSL_CLIENT_HELLO (upd_ssl (with_hello ver time rnd sid suites comps) w))"
proof (rule read_record [OF assms(1,3)])
  let ?h = "hello_bytes ver time rnd sid suites comps ext"
  let ?m = "message_bytes SSL_CLIENT_HELLO ?h" and ?w = "upd_ssl (\<lambda>s. s\<lparr>ssl_ver := rver\<rparr>) w"
  let ?mem = "record_bytes SSL_HANDSHAKE rver ?m" and ?pre = "SSL_HANDSHAKE # be_bytes 2 (unat rver) @ be_bytes 2 (length ?m)"
  have m: "length ?m = length ?h + 4" by (simp add: message_bytes_def)
  with assms(4) show "length ?m < 65536" by simp
  have "parse_client_hello ?mem 9 (int (length ?h)) ?w =
    Inr (emit_ssl CDPI_EVENT_SSL_CLIENT_HELLO (upd_ssl (with_hello ver time rnd sid suites comps) ?w))"
    by (rule parse_client_hello_at [OF _ _ assms(2) refl, of _ "?pre @ SSL_CLIENT_HELLO # be_bytes 3 (length ?h)" time ext "[]"])
      (simp_all add: record_bytes_def message_bytes_def)
  then have "handshake_loop junk ?mem 5 (5 + int (length ?m)) ?w =
    Inr (SSL_returned, emit_ssl CDPI_EVENT_SSL_CLIENT_HELLO (upd_ssl (with_hello ver time rnd sid suites comps) ?w))"
    using assms(4) by (intro handshake_one [of _ ?pre SSL_CLIENT_HELLO ?h]) (simp_all add: record_bytes_def)
  moreover have "with_hello ver time rnd sid suites comps (s\<lparr>ssl_ver := rver\<rparr>) = with_hello ver time rnd sid suites comps s" for s
    by (simp add: with_hello_def with_session_def)
  ultimately show "parse_record junk SSL_HANDSHAKE ?mem (int (length ?m)) ?w =
    Inr (SSL_returned, emit_ssl CDPI_EVENT_SSL_CLIENT_HELLO (upd_ssl (with_hello ver time rnd sid suites comps) w))"
    using assms(5) by (simp add: parse_record_def parse_handshake_def upd_ssl_def)
qed

definition sample_ssl :: ssl_world where
  "sample_ssl = \<lparr>s_ssl = new_ssl PROTO_SSL_CLIENT [] 0, s_out = []\<rparr>"

definition sample_hello :: "byte list" where
  "sample_hello = hello_bytes 0x0301 0x5f000000 (replicate 28 7) [1, 2] [0xc02f, 0x002f] [0] [0, 0]"

theorem ssl_client_hello_witness:
  "\<exists>bs'. wf_blocks bs' \<and> contents bs' = [21] \<and>
    ssl_parse 0 [assign_str (record_bytes SSL_HANDSHAKE 0x0300 (message_bytes SSL_CLIENT_HELLO sample_hello) @ [21])] sample_ssl =
    ssl_parse 0 bs' (emit_ssl CDPI_EVENT_SSL_CLIENT_HELLO
      (upd_ssl (with_hello 0x0301 0x5f000000 (replicate 28 7) [1, 2] [0xc02f, 0x002f] [0]) sample_ssl))"
  unfolding sample_hello_def
  by (rule ssl_client_hello)
    (simp, simp add: hello_ok_def ssl_consts, simp, simp add: hello_bytes_def, simp add: sample_ssl_def new_ssl_def)

text \<open>
  C27: a record with a list of certificates adds one block for each of them, in their order, and the
  listener is told once.
\<close>

theorem ssl_certificates_read:
  assumes "wf_blocks bs" "length (certificate_bytes cs) < 65532" "\<not> ssl_is_change_cipher_spec (s_ssl w)"
    and "contents bs = record_bytes SSL_HANDSHAKE rver (message_bytes SSL_CERTIFICATE (certificate_bytes cs)) @ r"
  shows "\<exists>bs'. wf_blocks bs' \<and> contents bs' = r \<and> ssl_parse junk bs w = ssl_parse junk bs'
    (emit_ssl CDPI_EVENT_SSL_CERTIFICATE (upd_ssl (\<lambda>s. s\<lparr>ssl_ver := rver,
       ssl_certificates := ssl_certificates s @ map assign_str cs\<rparr>) w))"
proof (rule read_record [OF assms(1,4)])
  let ?h = "certificate_bytes cs"
  let ?m = "message_bytes SSL_CERTIFICATE ?h" and ?w = "upd_ssl (\<lambda>s. s\<lparr>ssl_ver := rver\<rparr>) w"
  let ?mem = "record_bytes SSL_HANDSHAKE rver ?m" and ?pre = "SSL_HANDSHAKE # be_bytes 2 (unat rver) @ be_bytes 2 (length ?m)"
  let ?v = "emit_ssl CDPI_EVENT_SSL_CERTIFICATE (upd_ssl (\<lambda>s. s\<lparr>ssl_certificates := ssl_certificates s @ map assign_str cs\<rparr>) ?w)"
  have m: "length ?m = length ?h + 4" by (simp add: message_bytes_def)
  with assms(2) show "length ?m < 65536" by simp
  have "parse_certificate junk ?mem 9 (int (length ?h)) ?w = Inr ?v"
    using assms(2) by (intro parse_certificate_at [of _ "?pre @ SSL_CERTIFICATE # be_bytes 3 (length ?h)" cs "[]"])
      (simp_all add: record_bytes_def message_bytes_def)
  then have "handshake_loop junk ?mem 5 (5 + int (length ?m)) ?w = Inr (SSL_returned, ?v)"
    using assms(2) by (intro handshake_one [of _ ?pre SSL_CERTIFICATE ?h]) (simp_all add: record_bytes_def ssl_consts)
  then show "parse_record junk SSL_HANDSHAKE ?mem (int (length ?m)) ?w = Inr (SSL_returned,
      emit_ssl CDPI_EVENT_SSL_CERTIFICATE (upd_ssl (\<lambda>s. s\<lparr>ssl_ver := rver,
       ssl_certificates := ssl_certificates s @ map assign_str cs\<rparr>) w))"
    using assms(3) by (simp add: parse_record_def parse_handshake_def upd_ssl_def)
qed

theorem ssl_certificates_read_witness:
  "\<exists>bs'. wf_blocks bs' \<and> contents bs' = [] \<and>
    ssl_parse 0 [assign_str (record_bytes SSL_HANDSHAKE 0x0301 (message_bytes SSL_CERTIFICATE
      (certificate_bytes [[0x30, 1, 2], [], [0x30]])) @ [])] sample_ssl =
    ssl_parse 0 bs' (emit_ssl CDPI_EVENT_SSL_CERTIFICATE (upd_ssl (\<lambda>s. s\<lparr>ssl_ver := 0x0301,
       ssl_certificates := ssl_certificates s @ map assign_str [[0x30, 1, 2], [], [0x30]]\<rparr>) sample_ssl))"
  by (rule ssl_certificates_read)
    (simp, simp add: certificate_bytes_def Let_def, simp add: sample_ssl_def new_ssl_def, simp)

text \<open>
  C13: the parser may be called whenever a segment arrives: after a call that returned, the call with
  more blocks gives what one call on all of the bytes gives, with the same events in the same order.
\<close>

theorem ssl_parse_incremental:
  assumes "wf_blocks bs" "wf_blocks cs" "ssl_parse junk bs w = Inr (SSL_returned, bs1, v)"
  shows "ssl_view (ssl_parse junk (bs1 @ cs) v) = ssl_view (ssl_parse junk (bs @ cs) w)"
proof -
  from ssl_parse_stream [OF assms(1), of junk w] assms(3)
  have s: "ssl_stream junk (contents bs) w = Inr (SSL_returned, contents bs1, v)" and wf: "wf_blocks bs1"
    by auto
  have "wf_blocks (bs @ cs)" "wf_blocks (bs1 @ cs)" using wf assms(1,2) by (auto simp: wf_blocks_def)
  then show ?thesis
    using ssl_stream_append [OF s, of "contents cs"] by (simp add: ssl_parse_stream contents_def)
qed

text \<open>An alert and the first bytes of a second record; the other bytes follow.\<close>

theorem ssl_parse_incremental_witness:
  "ssl_view (ssl_parse 0 ([\<lparr>m_ptr = Some [21, 3, 1, 0, 1, 9, 20], m_pos = 6, m_len = 1\<rparr>] @ [assign_str [3, 1, 0, 1, 1]])
     (upd_ssl (\<lambda>s. s\<lparr>ssl_ver := 0x0301\<rparr>) sample_ssl)) =
   ssl_view (ssl_parse 0 ([assign_str [21, 3, 1, 0, 1, 9, 20]] @ [assign_str [3, 1, 0, 1, 1]]) sample_ssl)"
proof (rule ssl_parse_incremental)
  show "ssl_parse 0 [assign_str [21, 3, 1, 0, 1, 9, 20]] sample_ssl =
    Inr (SSL_returned, [\<lparr>m_ptr = Some [21, 3, 1, 0, 1, 9, 20], m_pos = 6, m_len = 1\<rparr>],
      upd_ssl (\<lambda>s. s\<lparr>ssl_ver := 0x0301\<rparr>) sample_ssl)"
    by (subst ssl_parse.simps, subst ssl_parse.simps)
      (simp add: assign_str_def ptr_mem_def rdsi_def rds_def ntohs_def u16_of_def be_nat_def le_bytes_numeral
        parse_record_def ssl_consts)
qed simp_all

text \<open>
  C26: the parser of one record returns when two bytes can be read behind it: no length in a record,
  whatever it holds, leads further out.
\<close>

theorem ssl_record_bounds:
  assumes "0 \<le> len" "len + 7 \<le> int (length mem)"
  shows "returns (parse_record junk type mem len w)"
  using assms by (rule parse_record_returns)

theorem ssl_record_bounds_witness: "returns (parse_record 0 22 [22, 3, 1, 0, 1, 0xff, 0, 0] 1 sample_ssl)"
  by (rule ssl_record_bounds) simp_all

text \<open>
  Two bytes are not there: a record of length 0, of the type of a handshake or of a change of the
  cipher, is read behind the end of its array.
\<close>

theorem ssl_empty_record:
  assumes "wf_blocks bs" "contents bs = record_bytes type ver [] @ r"
    and "type = SSL_CHANGE_CIPHER_SPEC \<or> type = SSL_HANDSHAKE \<and> \<not> ssl_is_change_cipher_spec (s_ssl w)"
  shows "ssl_parse junk bs w = Inl OutOfBounds"
proof -
  have "length (record_bytes type ver []) = 5" by (simp add: record_bytes_def)
  then have b: "rdsi (record_bytes type ver []) 5 1 = Inl OutOfBounds"
    by (simp add: rdsi_def rds_def)
  have "parse_record junk type (record_bytes type ver []) 0 v = Inl OutOfBounds"
    if "ssl_is_change_cipher_spec (s_ssl v) = ssl_is_change_cipher_spec (s_ssl w)" for v
    using assms(3) that b
    by (auto simp: parse_record_def parse_change_cipher_spec_def parse_handshake_def ssl_consts
        handshake_loop.simps [of junk "record_bytes 22 ver []"])
  then show ?thesis
    using ssl_parse_record [OF assms(1,2), of junk w] by (auto simp: upd_ssl_def)
qed

theorem ssl_empty_record_witness:
  "ssl_parse 0 [assign_str (record_bytes SSL_HANDSHAKE 0x0301 [] @ [21])] sample_ssl = Inl OutOfBounds"
  by (rule ssl_empty_record) (simp_all, simp add: sample_ssl_def new_ssl_def)

end
