(* ===== verification/Stream.thy ===== *)
theory Stream
  imports Http_Safe Ssl_Run
begin

text \<open>
  \<open>cdpi_stream.hpp\<close> and \<open>cdpi_stream.cpp\<close>: the directions of the TCP connections, each with the blocks
  that were not parsed yet and the parser of the protocol that was detected. Parsers are shared, a
  parser of an HTTP server has a pointer to that of its client, so they are objects of a store and a
  pointer is an index of it.
\<close>

section \<open>State\<close>

text \<open>An HTTP parser with its \<open>m_peer\<close>, or an SSL parser.\<close>

datatype cdpi_proto =
    Http_obj (http_of: cdpi_http) (peer_of: "nat option")
  | Ssl_obj (ssl_of: cdpi_ssl)

record cdpi_stream_info =
  si_bytes :: "cdpi_bytes list"
  si_proxy :: "nat list"
  si_type :: cdpi_proto_type
  si_proto :: "nat option"
  si_total_size :: "64 word"
  si_init_time :: int
  si_is_gaveup :: bool

definition new_info :: "int \<Rightarrow> cdpi_stream_info" where
  "new_info now = \<lparr>si_bytes = [], si_proxy = [], si_type = PROTO_NONE, si_proto = None,
     si_total_size = 0, si_init_time = now, si_is_gaveup = False\<rparr>"

text \<open>\<open>st_heap\<close> is the store and \<open>st_out\<close> the calls of the listener.\<close>

record cdpi_stream =
  st_info :: "(cdpi_id_dir, cdpi_stream_info) omap"
  st_heap :: "cdpi_proto list"
  st_out :: "(cdpi_event \<times> cdpi_id_dir) list"

text \<open>
  What the code takes from outside: the four regular expressions, the effect of the listener on the
  parser it is called for, the memory that is not initialised, and the clock.
\<close>

record stream_env =
  e_http :: http_env
  e_regex_http_req :: "byte list \<Rightarrow> bool"
  e_regex_http_res :: "byte list \<Rightarrow> bool"
  e_regex_ssl_client_hello :: "byte list \<Rightarrow> bool"
  e_regex_ssl_server_hello :: "byte list \<Rightarrow> bool"
  e_undef_int :: int
  e_undef_random :: "byte list"
  e_undef_time :: "32 word"
  e_undef_byte :: byte
  e_now :: int

section \<open>Detection\<close>

text \<open>The first block is compared with a regular expression.\<close>

definition match_front :: "(byte list \<Rightarrow> bool) \<Rightarrow> cdpi_bytes list \<Rightarrow> bool result" where
  "match_front regex bs =
     (case bs of
        [] \<Rightarrow> Inr False
      | b # _ \<Rightarrow> bindR (rdsi (ptr_mem b) (m_pos b) (m_len b)) (\<lambda>data. Inr (regex data)))"

definition is_http_client :: "stream_env \<Rightarrow> cdpi_bytes list \<Rightarrow> bool result" where
  "is_http_client env bs = match_front (e_regex_http_req env) bs"

definition is_http_server :: "stream_env \<Rightarrow> cdpi_bytes list \<Rightarrow> bool result" where
  "is_http_server env bs = match_front (e_regex_http_res env) bs"

definition is_ssl_client :: "stream_env \<Rightarrow> cdpi_bytes list \<Rightarrow> bool result" where
  "is_ssl_client env bs = match_front (e_regex_ssl_client_hello env) bs"

definition is_ssl_server :: "stream_env \<Rightarrow> cdpi_bytes list \<Rightarrow> bool result" where
  "is_ssl_server env bs = match_front (e_regex_ssl_server_hello env) bs"

section \<open>The store\<close>

definition get_proto :: "cdpi_stream \<Rightarrow> cdpi_id_dir \<Rightarrow> nat option" where
  "get_proto st id_dir = (case map_of (st_info st) id_dir of None \<Rightarrow> None | Some i \<Rightarrow> si_proto i)"

definition put_info :: "cdpi_id_dir \<Rightarrow> cdpi_stream_info \<Rightarrow> cdpi_stream \<Rightarrow> cdpi_stream" where
  "put_info id_dir i st = st\<lparr>st_info := omap_insert id_dir i (st_info st)\<rparr>"

definition put_obj :: "nat \<Rightarrow> cdpi_proto \<Rightarrow> cdpi_stream \<Rightarrow> cdpi_stream" where
  "put_obj a p st = st\<lparr>st_heap := (st_heap st)[a := p]\<rparr>"

text \<open>
  A pointer that is used as one to an HTTP parser: \<open>dynamic_pointer_cast\<close> gives null for every other
  parser, and for null.
\<close>

definition proto_to_http :: "cdpi_stream \<Rightarrow> nat option \<Rightarrow> nat option" where
  "proto_to_http st p =
     (case p of
        None \<Rightarrow> None
      | Some a \<Rightarrow> if a < length (st_heap st) then
          (case st_heap st ! a of Http_obj _ _ \<Rightarrow> Some a | Ssl_obj _ \<Rightarrow> None) else None)"

definition proto_to_ssl :: "cdpi_stream \<Rightarrow> nat option \<Rightarrow> nat option" where
  "proto_to_ssl st p =
     (case p of
        None \<Rightarrow> None
      | Some a \<Rightarrow> if a < length (st_heap st) then
          (case st_heap st ! a of Http_obj _ _ \<Rightarrow> None | Ssl_obj _ \<Rightarrow> Some a) else None)"

text \<open>A call of the listener for a direction, which may choose what its HTTP parser reads.\<close>

definition notify :: "stream_env \<Rightarrow> cdpi_event \<Rightarrow> cdpi_id_dir \<Rightarrow> cdpi_stream \<Rightarrow> cdpi_stream" where
  "notify env ev id_dir st =
     (let st1 = st\<lparr>st_out := st_out st @ [(ev, id_dir)]\<rparr> in
      case proto_to_http st (get_proto st id_dir) of
        None \<Rightarrow> st1
      | Some a \<Rightarrow>
          let h = http_of (st_heap st ! a) in
          put_obj a (Http_obj (h\<lparr>m_mime_to_read := e_listen (e_http env) ev h\<rparr>) (peer_of (st_heap st ! a))) st1)"

text \<open>\<open>set_peer\<close> through a pointer, which must not be null.\<close>

definition set_peer :: "nat option \<Rightarrow> nat option \<Rightarrow> cdpi_stream \<Rightarrow> cdpi_stream result" where
  "set_peer p peer st =
     (case p of
        None \<Rightarrow> Inl NullPointer
      | Some a \<Rightarrow> Inr (put_obj a (Http_obj (http_of (st_heap st ! a)) peer) st))"

section \<open>Protocol detection\<close>

text \<open>A new parser for the direction \<open>k\<close>.\<close>

definition attach :: "cdpi_id_dir \<Rightarrow> cdpi_stream_info \<Rightarrow> cdpi_proto_type \<Rightarrow> cdpi_proto \<Rightarrow> cdpi_stream \<Rightarrow> cdpi_stream" where
  "attach k i type p st =
     put_info k (i\<lparr>si_type := type, si_proto := Some (length (st_heap st))\<rparr>)
       (st\<lparr>st_heap := st_heap st @ [p]\<rparr>)"

text \<open>
  The client of a new HTTP server \<open>k\<close>. The loop over the proxies of the other direction advances the
  iterator of the map of the streams: behind it, that iterator has moved by as many entries as this
  direction has proxies, and everything that follows is done for the stream it points to. The result
  is that stream.
\<close>

definition advance :: "cdpi_id_dir \<Rightarrow> nat \<Rightarrow> cdpi_stream \<Rightarrow> cdpi_id_dir result" where
  "advance k n st =
     (let ks = dropWhile (\<lambda>k'. k' \<noteq> k) (map fst (st_info st)) in
      if n < length ks then Inr (ks ! n) else Inl OutOfBounds)"

definition connect_peer :: "cdpi_id_dir \<Rightarrow> cdpi_stream \<Rightarrow> (cdpi_id_dir \<times> cdpi_stream) result" where
  "connect_peer k st =
     (case (map_of (st_info st) k, map_of (st_info st) (IdDir (m_id k) (peer_dir (m_dir k)))) of
        (Some i, Some j) \<Rightarrow>
          if length (si_proxy j) > 0 then
            bindR (advance k (length (si_proxy i)) st) (\<lambda>k1.
              let p_http = proto_to_http st (get_proto st k1);
                  p_peer = proto_to_http st (Some (last (si_proxy j)))
              in if p_peer \<noteq> None then bindR (set_peer p_http p_peer st) (\<lambda>st1. Inr (k1, st1))
                 else Inr (k1, st))
          else if si_type j = PROTO_HTTP_CLIENT \<or> si_type j = PROTO_HTTP_PROXY then
            bindR (set_peer (proto_to_http st (si_proto i)) (proto_to_http st (si_proto j)) st) (\<lambda>st1. Inr (k, st1))
          else Inr (k, st)
      | _ \<Rightarrow> Inr (k, st))"

text \<open>The detection; \<open>None\<close> where \<open>in_data\<close> returns.\<close>

definition detect :: "stream_env \<Rightarrow> cdpi_id_dir \<Rightarrow> cdpi_stream_info \<Rightarrow> cdpi_stream \<Rightarrow>
    (cdpi_id_dir option \<times> cdpi_stream) result" where
  "detect env k i st =
     bindR (is_http_client env (si_bytes i)) (\<lambda>b1.
       if b1 then
         Inr (Some k, notify env CDPI_EVENT_PROTOCOL_DETECTED k
           (attach k i PROTO_HTTP_CLIENT (Http_obj (new_http PROTO_HTTP_CLIENT (e_undef_int env)) None) st))
       else bindR (is_http_server env (si_bytes i)) (\<lambda>b2.
         if b2 then
           bindR (connect_peer k
             (attach k i PROTO_HTTP_SERVER (Http_obj (new_http PROTO_HTTP_SERVER (e_undef_int env)) None) st)) (\<lambda>(k1, st1).
               Inr (Some k1, notify env CDPI_EVENT_PROTOCOL_DETECTED k st1))
         else bindR (is_ssl_client env (si_bytes i)) (\<lambda>b3.
           if b3 then
             Inr (Some k, notify env CDPI_EVENT_PROTOCOL_DETECTED k
               (attach k i PROTO_SSL_CLIENT (Ssl_obj (new_ssl PROTO_SSL_CLIENT (e_undef_random env) (e_undef_time env))) st))
           else bindR (is_ssl_server env (si_bytes i)) (\<lambda>b4.
             if b4 then
               Inr (Some k, notify env CDPI_EVENT_PROTOCOL_DETECTED k
                 (attach k i PROTO_SSL_SERVER (Ssl_obj (new_ssl PROTO_SSL_SERVER (e_undef_random env) (e_undef_time env))) st))
             else if length (si_bytes i) > 8 then
               Inr (None, put_info k (i\<lparr>si_is_gaveup := True, si_bytes := []\<rparr>) st)
             else Inr (None, st)))))"

section \<open>Parsing\<close>

text \<open>
  The parser works on the object of the direction, on the queue of methods of its peer, and on the
  blocks of the direction.
\<close>

definition peer_methods :: "cdpi_stream \<Rightarrow> nat option \<Rightarrow> byte list list option" where
  "peer_methods st p = (case p of None \<Rightarrow> None | Some a \<Rightarrow> Some (m_method (http_of (st_heap st ! a))))"

definition set_peer_methods :: "nat option \<Rightarrow> byte list list option \<Rightarrow> cdpi_stream \<Rightarrow> cdpi_stream" where
  "set_peer_methods p q st =
     (case (p, q) of
        (Some a, Some ms) \<Rightarrow> put_obj a (Http_obj ((http_of (st_heap st ! a))\<lparr>m_method := ms\<rparr>) (peer_of (st_heap st ! a))) st
      | _ \<Rightarrow> st)"

text \<open>The two exceptions that \<open>in_data\<close> catches.\<close>

definition catch_parse_error :: "cdpi_stream_info \<Rightarrow> cdpi_stream_info" where
  "catch_parse_error i = i\<lparr>si_is_gaveup := True, si_bytes := []\<rparr>"

definition catch_proxy :: "cdpi_stream_info \<Rightarrow> cdpi_stream_info" where
  "catch_proxy i = i\<lparr>si_type := PROTO_HTTP_PROXY,
     si_proxy := si_proxy i @ (case si_proto i of None \<Rightarrow> [] | Some a \<Rightarrow> [a])\<rparr>"

definition parse_http :: "stream_env \<Rightarrow> cdpi_id_dir \<Rightarrow> cdpi_stream_info \<Rightarrow> cdpi_stream \<Rightarrow> cdpi_stream result" where
  "parse_http env k i st =
     (case proto_to_http st (si_proto i) of
        None \<Rightarrow> Inl NullPointer
      | Some a \<Rightarrow>
          let peer = peer_of (st_heap st ! a) in
          bindR (http_parse (e_http env) \<lparr>w_http = http_of (st_heap st ! a), w_peer = peer_methods st peer,
            w_bytes = si_bytes i, w_out = []\<rparr>) (\<lambda>(x, w).
              let i1 = i\<lparr>si_bytes := w_bytes w\<rparr>;
                  i2 = (if x = Throw_parse_error then catch_parse_error i1
                        else if x = Throw_proxy then catch_proxy i1 else i1);
                  st1 = put_obj a (Http_obj (w_http w) peer) (set_peer_methods peer (w_peer w) st)
              in Inr (put_info k i2 (st1\<lparr>st_out := st_out st1 @ map (\<lambda>e. (fst e, k)) (w_out w)\<rparr>))))"

definition parse_ssl :: "stream_env \<Rightarrow> cdpi_id_dir \<Rightarrow> cdpi_stream_info \<Rightarrow> cdpi_stream \<Rightarrow> cdpi_stream result" where
  "parse_ssl env k i st =
     (case proto_to_ssl st (si_proto i) of
        None \<Rightarrow> Inl NullPointer
      | Some a \<Rightarrow>
          bindR (ssl_parse (e_undef_byte env) (si_bytes i) \<lparr>s_ssl = ssl_of (st_heap st ! a), s_out = []\<rparr>) (\<lambda>(x, bs, w).
            let i1 = i\<lparr>si_bytes := bs\<rparr>;
                i2 = (if x = SSL_parse_error then catch_parse_error i1 else i1);
                st1 = put_obj a (Ssl_obj (s_ssl w)) st
            in Inr (put_info k i2 (st1\<lparr>st_out := st_out st1 @ map (\<lambda>e. (fst e, k)) (s_out w)\<rparr>))))"

definition parse_stream :: "stream_env \<Rightarrow> cdpi_id_dir \<Rightarrow> cdpi_stream \<Rightarrow> cdpi_stream result" where
  "parse_stream env k st =
     (case map_of (st_info st) k of
        None \<Rightarrow> Inl OutOfBounds
      | Some i \<Rightarrow>
          if si_type i = PROTO_HTTP_CLIENT \<or> si_type i = PROTO_HTTP_SERVER then parse_http env k i st
          else if si_type i = PROTO_SSL_CLIENT \<or> si_type i = PROTO_SSL_SERVER then parse_ssl env k i st
          else Inr st)"

section \<open>The operations\<close>

definition in_data :: "stream_env \<Rightarrow> cdpi_id_dir \<Rightarrow> cdpi_bytes \<Rightarrow> cdpi_stream \<Rightarrow> cdpi_stream result" where
  "in_data env k b st =
     (case map_of (st_info st) k of
        None \<Rightarrow> Inr st
      | Some i0 \<Rightarrow>
          if si_is_gaveup i0 then Inr st
          else
            let i = (if m_ptr b \<noteq> None
                     then i0\<lparr>si_bytes := si_bytes i0 @ [b], si_total_size := si_total_size i0 + word_of_int (m_len b)\<rparr>
                     else i0);
                st1 = put_info k i st
            in bindR (if si_type i = PROTO_NONE \<or> si_type i = PROTO_HTTP_PROXY
                      then detect env k i st1 else Inr (Some k, st1)) (\<lambda>(r, st2).
              case r of None \<Rightarrow> Inr st2 | Some k1 \<Rightarrow> parse_stream env k1 st2))"

definition create_stream :: "stream_env \<Rightarrow> cdpi_id_dir \<Rightarrow> cdpi_stream \<Rightarrow> cdpi_stream" where
  "create_stream env k st =
     (case map_of (st_info st) k of None \<Rightarrow> put_info k (new_info (e_now env)) st | Some _ \<Rightarrow> st)"

definition destroy_stream :: "cdpi_id_dir \<Rightarrow> cdpi_stream \<Rightarrow> cdpi_stream" where
  "destroy_stream k st = st\<lparr>st_info := omap_erase k (st_info st)\<rparr>"

definition in_stream_event ::
    "stream_env \<Rightarrow> cdpi_stream_event \<times> cdpi_id_dir \<times> cdpi_bytes \<Rightarrow> cdpi_stream \<Rightarrow> cdpi_stream result" where
  "in_stream_event env c st =
     (case c of (st_event, k, b) \<Rightarrow>
        (case st_event of
           STREAM_CREATED \<Rightarrow> Inr (notify env CDPI_EVENT_STREAM_OPEN k (create_stream env k st))
         | STREAM_DATA_IN \<Rightarrow>
             bindR (in_data env k b st) (\<lambda>st1.
               in_data env (IdDir (m_id k) (peer_dir (m_dir k))) empty_bytes st1)
         | STREAM_DESTROYED \<Rightarrow> Inr (destroy_stream k (notify env CDPI_EVENT_STREAM_CLOSE k st))
         | STREAM_ERROR \<Rightarrow> Inr (destroy_stream k (notify env CDPI_EVENT_STREAM_CLOSE k st))))"

definition get_sent_bytes :: "cdpi_stream \<Rightarrow> cdpi_id_dir \<Rightarrow> 64 word" where
  "get_sent_bytes st k = (case map_of (st_info st) k of None \<Rightarrow> 0 | Some i \<Rightarrow> si_total_size i)"

text \<open>The calls that TCP makes, one after the other.\<close>

fun run_stream ::
    "stream_env \<Rightarrow> (cdpi_stream_event \<times> cdpi_id_dir \<times> cdpi_bytes) list \<Rightarrow> cdpi_stream \<Rightarrow> cdpi_stream result" where
  "run_stream env [] st = Inr st"
| "run_stream env (c # cs) st = bindR (in_stream_event env c st) (run_stream env cs)"

end
