(* ===== verification/Stream_Typed.thy ===== *)
theory Stream_Typed
  imports Stream
begin

text \<open>
  The pointers of \<open>cdpi_stream.cpp\<close>: the type that a direction records is the type of the parser that it
  points to, in every state that the calls of TCP can reach, so that the casts before \<open>parse\<close> succeed.
\<close>

section \<open>The type of a parser does not change\<close>

lemma m_type_simps [simp]:
  "m_type (w_http (emit env ev w)) = m_type (w_http w)"
  "m_type (w_http (set_state s w)) = m_type (w_http w)"
  "m_type (w_http (store_field f w)) = m_type (w_http w)"
  "m_type (w_http (store_chunk_len env buf w)) = m_type (w_http w)"
  by (simp_all add: emit_def set_state_def store_chunk_len_def split: option.splits)
    (cases "(f, w)" rule: store_field.cases; simp add: set_header_def http_head_const_def)

lemma m_type_skip_w [dest]: "skip_w n w = Inr v \<Longrightarrow> w_http v = w_http w"
  by (auto simp: skip_w_def bindR_eq_Inr)

text \<open>What the loops keep: a property that storing content, blocks and the count respects.\<close>

lemma body_loop_keeps:
  assumes "body_loop n w = Inr v" "P w"
    and store: "\<And>w c bs. P w \<Longrightarrow> P ((upd_http (\<lambda>h. h\<lparr>m_content := c\<rparr>) w)\<lparr>w_bytes := bs\<rparr>)"
    and count: "\<And>w k. P w \<Longrightarrow> P (upd_http (\<lambda>h. h\<lparr>m_body_read := m_body_read h + k\<rparr>) w)"
  shows "P v"
  using assms(1,2)
proof (induction n w rule: body_loop.induct)
  case (1 n w)
  show ?case
  proof (cases "m_body_read (w_http w) \<ge> n")
    case True
    with "1.prems" show ?thesis by (subst (asm) body_loop.simps) simp
  next
    case False
    let ?len = "min (n - m_body_read (w_http w)) 1024"
    from "1.prems"(1) False obtain content bs k where c:
      "(if m_len (m_content (w_http w)) > 0
        then read_into (w_bytes w) ?len (m_body_read (w_http w)) (m_content (w_http w))
        else Inr (m_content (w_http w))) = Inr content"
      "skip_bytes (w_bytes w) ?len 0 = Inr (bs, k)"
      "(let w1 = (upd_http (\<lambda>h. h\<lparr>m_content := content\<rparr>) w)\<lparr>w_bytes := bs\<rparr> in
        if k = 0 then Inr w1
        else body_loop n (upd_http (\<lambda>h. h\<lparr>m_body_read := m_body_read h + k\<rparr>) w1)) = Inr v"
      by (subst (asm) body_loop.simps) (auto simp: bindR_eq_Inr Let_def)
    have "P ((upd_http (\<lambda>h. h\<lparr>m_content := content\<rparr>) w)\<lparr>w_bytes := bs\<rparr>)"
      using "1.prems"(2) by (rule store)
    with c(3) "1.IH" [OF refl refl False c(1,2) refl refl] count show ?thesis
      by (auto simp: Let_def split: if_splits)
  qed
qed

lemma chunk_loop_keeps:
  assumes "chunk_loop w = Inr v" "P w"
    and store: "\<And>w c bs. P w \<Longrightarrow> P ((upd_http (\<lambda>h. h\<lparr>m_chunks := c\<rparr>) w)\<lparr>w_bytes := bs\<rparr>)"
    and count: "\<And>w k. P w \<Longrightarrow> P (upd_http (\<lambda>h. h\<lparr>m_body_read := m_body_read h + k\<rparr>) w)"
  shows "P v"
  using assms(1,2)
proof (induction w rule: chunk_loop.induct)
  case (1 w)
  let ?h = "w_http w" and ?len = "min (m_chunk_len (w_http w) - m_body_read (w_http w)) 1024"
  show ?case
  proof (cases "m_body_read ?h \<ge> m_chunk_len ?h")
    case True
    with "1.prems" show ?thesis by (subst (asm) chunk_loop.simps) simp
  next
    case False
    from "1.prems"(1) False obtain chunks bs k where c:
      "(if is_in_mime_to_read ?h
        then if m_chunks ?h = [] then Inl EmptyQueue
             else bindR (read_into (w_bytes w) ?len (m_body_read ?h) (last (m_chunks ?h)))
                    (\<lambda>b. Inr (butlast (m_chunks ?h) @ [b]))
        else Inr (m_chunks ?h)) = Inr chunks"
      "skip_bytes (w_bytes w) ?len 0 = Inr (bs, k)"
      "(let w1 = (upd_http (\<lambda>h. h\<lparr>m_chunks := chunks\<rparr>) w)\<lparr>w_bytes := bs\<rparr> in
        if k = 0 then Inr w1
        else chunk_loop (upd_http (\<lambda>h. h\<lparr>m_body_read := m_body_read h + k\<rparr>) w1)) = Inr v"
      by (subst (asm) chunk_loop.simps) (auto simp: bindR_eq_Inr Let_def)
    have "P ((upd_http (\<lambda>h. h\<lparr>m_chunks := chunks\<rparr>) w)\<lparr>w_bytes := bs\<rparr>)"
      using "1.prems"(2) by (rule store)
    with c(3) "1.IH" [OF refl refl False c(1,2) refl refl] count show ?thesis
      by (auto simp: Let_def split: if_splits)
  qed
qed

lemma m_type_body_loop [dest]: "body_loop n w = Inr v \<Longrightarrow> m_type (w_http v) = m_type (w_http w)"
  by (erule body_loop_keeps) simp_all

lemma m_type_chunk_loop [dest]: "chunk_loop w = Inr v \<Longrightarrow> m_type (w_http v) = m_type (w_http w)"
  by (erule chunk_loop_keeps) simp_all

lemma m_type_parse_head: "parse_head env w = Inr (x, v) \<Longrightarrow> m_type (w_http v) = m_type (w_http w)"
proof (induction env w arbitrary: v rule: parse_head.induct)
  case (1 env w)
  let ?buf = "read_bytes_ec (w_bytes w) 8192 LF []"
  have ends: "head_end_client env n w' = Inr (x, v) \<Longrightarrow> m_type (w_http v) = m_type (w_http w')"
    "head_end_server env n w' = Inr (x, v) \<Longrightarrow> m_type (w_http v) = m_type (w_http w')" for n w' v
    by (auto simp: head_end_client_def head_end_server_def bindR_eq_Inr Let_def
        split: if_splits option.splits list.splits)
  show ?case
  proof (cases "?buf = [] \<or> last ?buf \<noteq> LF \<or> is_empty_line ?buf")
    case True
    with "1.prems" ends show ?thesis
      by (subst (asm) parse_head.simps) (auto simp: Let_def split: if_splits)
  next
    case False
    with "1.prems" obtain w1 where w1: "skip_w (int (length ?buf)) (store_field (header_field ?buf) w) = Inr w1"
      "parse_head env w1 = Inr (x, v)"
      by (subst (asm) parse_head.simps) (auto simp: Let_def bindR_eq_Inr)
    have "\<not> (?buf = [] \<or> last ?buf \<noteq> LF)" "\<not> is_empty_line ?buf" using False by auto
    from "1.IH" [OF refl refl this w1] m_type_skip_w [OF w1(1)] show ?thesis by simp
  qed
qed

lemma m_type_http_step: "http_step env w = Inr (x, v) \<Longrightarrow> m_type (w_http v) = m_type (w_http w)"
  by (cases "m_state (w_http w)")
    (auto simp: http_step_def parse_method_def parse_response_def clear_message_def parse_body_def alloc_content_def
      parse_chunk_len_def open_chunk_def parse_chunk_body_def parse_chunk_el_def join_chunks_def bindR_eq_Inr Let_def
      dest!: m_type_parse_head split: if_splits)

lemma m_type_http_parse: "http_parse env w = Inr (x, v) \<Longrightarrow> m_type (w_http v) = m_type (w_http w)"
proof (induction env w rule: http_parse.induct)
  case (1 env w)
  from "1.prems" obtain y u where s: "http_step env w = Inr (y, u)"
    "if y = More then http_parse env u = Inr (x, v) else u = v"
    by (subst (asm) http_parse.simps) (auto simp: bindR_eq_Inr split: if_splits)
  with "1.IH" [OF s(1)] m_type_http_step [OF s(1)] show ?case by (auto split: if_splits)
qed

section \<open>The invariant\<close>

text \<open>What a pointer points to: the kind of an HTTP parser, and nothing more for an SSL parser.\<close>

fun kind_of :: "cdpi_proto \<Rightarrow> cdpi_proto_type option" where
  "kind_of (Http_obj h q) = Some (m_type h)"
| "kind_of (Ssl_obj s) = None"

definition http_at :: "cdpi_proto list \<Rightarrow> nat \<Rightarrow> bool" where
  "http_at H a \<longleftrightarrow> a < length H \<and> kind_of (H ! a) \<noteq> None"

definition ssl_at :: "cdpi_proto list \<Rightarrow> nat \<Rightarrow> bool" where
  "ssl_at H a \<longleftrightarrow> a < length H \<and> kind_of (H ! a) = None"

fun proto_typed :: "cdpi_proto list \<Rightarrow> cdpi_proto_type \<Rightarrow> nat option \<Rightarrow> bool" where
  "proto_typed H PROTO_NONE p \<longleftrightarrow> p = None"
| "proto_typed H t None \<longleftrightarrow> False"
| "proto_typed H PROTO_HTTP_CLIENT (Some a) \<longleftrightarrow> http_at H a \<and> kind_of (H ! a) = Some PROTO_HTTP_CLIENT"
| "proto_typed H PROTO_HTTP_SERVER (Some a) \<longleftrightarrow> http_at H a \<and> kind_of (H ! a) = Some PROTO_HTTP_SERVER"
| "proto_typed H PROTO_HTTP_PROXY (Some a) \<longleftrightarrow> http_at H a"
| "proto_typed H PROTO_SSL_CLIENT (Some a) \<longleftrightarrow> ssl_at H a"
| "proto_typed H PROTO_SSL_SERVER (Some a) \<longleftrightarrow> ssl_at H a"
| "proto_typed H t p \<longleftrightarrow> False"

definition info_typed :: "cdpi_proto list \<Rightarrow> cdpi_stream_info \<Rightarrow> bool" where
  "info_typed H i \<longleftrightarrow> proto_typed H (si_type i) (si_proto i) \<and> (\<forall>a \<in> set (si_proxy i). http_at H a)"

text \<open>A peer is an HTTP parser.\<close>

definition obj_typed :: "cdpi_proto list \<Rightarrow> cdpi_proto \<Rightarrow> bool" where
  "obj_typed H p \<longleftrightarrow> (\<forall>h a. p = Http_obj h (Some a) \<longrightarrow> http_at H a)"

definition stream_typed :: "cdpi_stream \<Rightarrow> bool" where
  "stream_typed st \<longleftrightarrow> omap_ok (st_info st) \<and> (\<forall>(k, i) \<in> set (st_info st). info_typed (st_heap st) i) \<and>
     (\<forall>p \<in> set (st_heap st). obj_typed (st_heap st) p)"

text \<open>A store that grew and kept the kinds of its objects.\<close>

definition kinds_kept :: "cdpi_proto list \<Rightarrow> cdpi_proto list \<Rightarrow> bool" where
  "kinds_kept H H' \<longleftrightarrow> length H \<le> length H' \<and> (\<forall>a < length H. kind_of (H' ! a) = kind_of (H ! a))"

lemma http_at_kept: "kinds_kept H H' \<Longrightarrow> http_at H a \<Longrightarrow> http_at H' a"
  by (auto simp: kinds_kept_def http_at_def)

lemma proto_typed_kept: "kinds_kept H H' \<Longrightarrow> proto_typed H t p \<Longrightarrow> proto_typed H' t p"
  by (cases "(H, t, p)" rule: proto_typed.cases) (auto simp: kinds_kept_def http_at_def ssl_at_def)

lemma info_typed_kept: "kinds_kept H H' \<Longrightarrow> info_typed H i \<Longrightarrow> info_typed H' i"
  by (auto simp: info_typed_def proto_typed_kept http_at_kept)

lemma obj_typed_kept: "kinds_kept H H' \<Longrightarrow> obj_typed H p \<Longrightarrow> obj_typed H' p"
  by (auto simp: obj_typed_def http_at_kept)

lemma kinds_kept_update: "a < length H \<Longrightarrow> kind_of p = kind_of (H ! a) \<Longrightarrow> kinds_kept H (H[a := p])"
  by (auto simp: kinds_kept_def nth_list_update)

lemma kinds_kept_append: "kinds_kept H (H @ xs)"
  by (auto simp: kinds_kept_def nth_append)

lemma stream_typed_put_obj:
  assumes "stream_typed st" "a < length (st_heap st)" "kind_of p = kind_of (st_heap st ! a)" "obj_typed (st_heap st) p"
  shows "stream_typed (put_obj a p st)"
proof -
  have k: "kinds_kept (st_heap st) ((st_heap st)[a := p])" using assms(2,3) by (rule kinds_kept_update)
  have "q \<in> set ((st_heap st)[a := p]) \<Longrightarrow> q = p \<or> q \<in> set (st_heap st)" for q
    using set_update_subset_insert [of "st_heap st" a p] by auto
  with assms(1,4) obj_typed_kept [OF k] info_typed_kept [OF k] show ?thesis
    by (fastforce simp: stream_typed_def put_obj_def)
qed

lemma stream_typed_put_info:
  "stream_typed st \<Longrightarrow> info_typed (st_heap st) i \<Longrightarrow> stream_typed (put_info k i st)"
  by (auto simp: stream_typed_def put_info_def dest!: omap_insert_mem)

lemma stream_typed_info:
  "stream_typed st \<Longrightarrow> map_of (st_info st) k = Some i \<Longrightarrow> info_typed (st_heap st) i"
  by (auto simp: stream_typed_def dest!: map_of_SomeD)

lemma stream_typed_out [simp]: "stream_typed (st\<lparr>st_out := out\<rparr>) \<longleftrightarrow> stream_typed st"
  by (simp add: stream_typed_def)

lemma stream_typed_obj:
  "stream_typed st \<Longrightarrow> a < length (st_heap st) \<Longrightarrow> obj_typed (st_heap st) (st_heap st ! a)"
  by (simp add: stream_typed_def)

lemma st_heap_simps [simp]:
  "st_heap (put_info k i st) = st_heap st" "st_heap (put_obj a p st) = (st_heap st)[a := p]"
  "st_info (put_obj a p st) = st_info st" "st_info (put_info k i st) = omap_insert k i (st_info st)"
  by (simp_all add: put_info_def put_obj_def)

text \<open>A cast that succeeds.\<close>

lemma proto_to_http_Some:
  "proto_to_http st p = Some a \<longleftrightarrow> p = Some a \<and> http_at (st_heap st) a"
  by (auto simp: proto_to_http_def http_at_def split: option.splits cdpi_proto.splits)

lemma proto_to_ssl_Some:
  "proto_to_ssl st p = Some a \<longleftrightarrow> p = Some a \<and> ssl_at (st_heap st) a"
  by (auto simp: proto_to_ssl_def ssl_at_def split: option.splits cdpi_proto.splits)

lemma http_obj: "http_at H a \<Longrightarrow> H ! a = Http_obj (http_of (H ! a)) (peer_of (H ! a))"
  by (cases "H ! a") (auto simp: http_at_def)

lemma http_kind: "http_at H a \<Longrightarrow> kind_of (H ! a) = Some (m_type (http_of (H ! a)))"
  by (cases "H ! a") (auto simp: http_at_def)

text \<open>An HTTP parser that is changed, but for its type, and keeps its peer.\<close>

lemma stream_typed_put_http:
  assumes "stream_typed st" "http_at (st_heap st) a" "m_type h = m_type (http_of (st_heap st ! a))"
    and "q = peer_of (st_heap st ! a) \<or> q = None \<or> (\<exists>b. q = Some b \<and> http_at (st_heap st) b)"
  shows "stream_typed (put_obj a (Http_obj h q) st)"
proof (rule stream_typed_put_obj [OF assms(1)])
  show "a < length (st_heap st)" using assms(2) by (simp add: http_at_def)
  then have "obj_typed (st_heap st) (Http_obj (http_of (st_heap st ! a)) (peer_of (st_heap st ! a)))"
    using stream_typed_obj [OF assms(1)] http_obj [OF assms(2)] by metis
  with assms(4) show "obj_typed (st_heap st) (Http_obj h q)" by (auto simp: obj_typed_def)
  show "kind_of (Http_obj h q) = kind_of (st_heap st ! a)"
    using assms(3) http_kind [OF assms(2)] by simp
qed

section \<open>Every operation keeps it\<close>

lemma notify_typed: "stream_typed st \<Longrightarrow> stream_typed (notify env ev k st)"
  by (auto simp: notify_def Let_def proto_to_http_Some split: option.splits intro!: stream_typed_put_http)

lemma set_peer_typed:
  "set_peer (proto_to_http st p) (proto_to_http st q) st = Inr st' \<Longrightarrow> stream_typed st \<Longrightarrow> stream_typed st'"
  by (cases "proto_to_http st q")
    (auto simp: set_peer_def proto_to_http_Some split: option.splits intro!: stream_typed_put_http)

lemma attach_typed:
  assumes "stream_typed st" "\<forall>a \<in> set (si_proxy i). http_at (st_heap st) a"
    and "proto_typed (st_heap st @ [p]) t (Some (length (st_heap st)))" "obj_typed (st_heap st) p"
  shows "stream_typed (attach k i t p st)"
proof -
  note k = kinds_kept_append [of "st_heap st" "[p]"]
  have "stream_typed (st\<lparr>st_heap := st_heap st @ [p]\<rparr>)"
    using assms(1,4) info_typed_kept [OF k] obj_typed_kept [OF k] by (fastforce simp: stream_typed_def)
  then show ?thesis
    unfolding attach_def using assms(2,3) http_at_kept [OF k]
    by (intro stream_typed_put_info) (auto simp: info_typed_def)
qed

lemma connect_peer_typed: "connect_peer k st = Inr (k', st') \<Longrightarrow> stream_typed st \<Longrightarrow> stream_typed st'"
  by (auto simp: connect_peer_def bindR_eq_Inr Let_def intro: set_peer_typed split: option.splits if_splits)

lemma detect_typed:
  assumes "detect env k i st = Inr (r, st')" "stream_typed st" "info_typed (st_heap st) i"
  shows "stream_typed st'"
proof -
  let ?n = "length (st_heap st)"
  have px: "\<forall>a \<in> set (si_proxy i). http_at (st_heap st) a" using assms(3) by (simp add: info_typed_def)
  have http: "stream_typed (attach k i t (Http_obj (new_http t u) None) st)"
    if "t = PROTO_HTTP_CLIENT \<or> t = PROTO_HTTP_SERVER" for t u
    using that by (intro attach_typed [OF assms(2) px]) (auto simp: http_at_def new_http_def obj_typed_def)
  have ssl: "stream_typed (attach k i t (Ssl_obj s) st)"
    if "t = PROTO_SSL_CLIENT \<or> t = PROTO_SSL_SERVER" for t s
    using that by (intro attach_typed [OF assms(2) px]) (auto simp: ssl_at_def obj_typed_def)
  have gave: "stream_typed (put_info k (i\<lparr>si_is_gaveup := True, si_bytes := []\<rparr>) st)"
    using assms(2,3) by (intro stream_typed_put_info) (simp_all add: info_typed_def)
  show ?thesis
    using assms(1) http ssl gave assms(2)
    by (auto simp: detect_def bindR_eq_Inr split: if_splits intro!: notify_typed dest!: connect_peer_typed)
qed

lemma set_peer_methods_typed:
  assumes "stream_typed st" "p = None \<or> (\<exists>a. p = Some a \<and> http_at (st_heap st) a)"
  shows "stream_typed (set_peer_methods p q st)" and "kinds_kept (st_heap st) (st_heap (set_peer_methods p q st))"
    and "b < length (st_heap st) \<Longrightarrow> peer_of (st_heap (set_peer_methods p q st) ! b) = peer_of (st_heap st ! b)"
proof -
  show "stream_typed (set_peer_methods p q st)"
    using assms by (auto simp: set_peer_methods_def split: option.splits intro!: stream_typed_put_http)
  show "kinds_kept (st_heap st) (st_heap (set_peer_methods p q st))"
  proof (cases "p = None \<or> q = None")
    case True
    then show ?thesis by (auto simp: set_peer_methods_def kinds_kept_def split: option.split)
  next
    case False
    with assms(2) obtain a ms where "p = Some a" "q = Some ms" "http_at (st_heap st) a" by auto
    then show ?thesis
      using http_kind [of "st_heap st" a]
      by (auto simp: set_peer_methods_def http_at_def intro!: kinds_kept_update)
  qed
  show "b < length (st_heap st) \<Longrightarrow> peer_of (st_heap (set_peer_methods p q st) ! b) = peer_of (st_heap st ! b)"
    by (cases "p = Some b"; cases p; cases q) (simp_all add: set_peer_methods_def)
qed

lemma parse_http_typed:
  assumes "parse_http env k i st = Inr st'" "stream_typed st" "info_typed (st_heap st) i"
    and "si_type i = PROTO_HTTP_CLIENT \<or> si_type i = PROTO_HTTP_SERVER"
  shows "stream_typed st'"
proof -
  from assms(1) obtain a x w where a: "si_proto i = Some a" "http_at (st_heap st) a"
    and p: "http_parse (e_http env) \<lparr>w_http = http_of (st_heap st ! a), w_peer = peer_methods st (peer_of (st_heap st ! a)),
      w_bytes = si_bytes i, w_out = []\<rparr> = Inr (x, w)"
    and st': "st' = (let q = peer_of (st_heap st ! a); i1 = i\<lparr>si_bytes := w_bytes w\<rparr>;
       i2 = (if x = Throw_parse_error then catch_parse_error i1 else if x = Throw_proxy then catch_proxy i1 else i1);
       st1 = put_obj a (Http_obj (w_http w) q) (set_peer_methods q (w_peer w) st)
     in put_info k i2 (st1\<lparr>st_out := st_out st1 @ map (\<lambda>e. (fst e, k)) (w_out w)\<rparr>))"
    by (auto simp: parse_http_def bindR_eq_Inr Let_def proto_to_http_Some split: option.splits)
  let ?q = "peer_of (st_heap st ! a)"
  let ?st1 = "set_peer_methods ?q (w_peer w) st"
  have al: "a < length (st_heap st)" using a(2) by (simp add: http_at_def)
  have q: "?q = None \<or> (\<exists>b. ?q = Some b \<and> http_at (st_heap st) b)"
    using stream_typed_obj [OF assms(2) al] http_obj [OF a(2)]
    by (cases ?q) (auto simp: obj_typed_def)
  note t = set_peer_methods_typed [OF assms(2) q, where q = "w_peer w"]
  have at1: "http_at (st_heap ?st1) a" using t(2) a(2) by (rule http_at_kept)
  have "kind_of (st_heap ?st1 ! a) = kind_of (st_heap st ! a)" using t(2) al by (simp add: kinds_kept_def)
  then have ty: "m_type (w_http w) = m_type (http_of (st_heap ?st1 ! a))"
    using m_type_http_parse [OF p] http_kind [OF at1] http_kind [OF a(2)] by simp
  let ?st2 = "put_obj a (Http_obj (w_http w) ?q) ?st1"
  have st2: "stream_typed ?st2"
    by (rule stream_typed_put_http [OF t(1) at1 ty]) (simp add: t(3) [OF al])
  have "kinds_kept (st_heap ?st1) (st_heap ?st2)"
    using at1 ty http_kind [OF at1] by (auto simp: http_at_def intro!: kinds_kept_update)
  with t(2) assms(3) have i: "info_typed (st_heap ?st2) i" using info_typed_kept by blast
  have "proto_typed (st_heap ?st2) (si_type i) (Some a)" using i a(1) by (simp add: info_typed_def)
  then have pa: "http_at (st_heap ?st2) a" using assms(4) by auto
  from i pa have "info_typed (st_heap ?st2) (catch_parse_error (i\<lparr>si_bytes := b\<rparr>))"
    "info_typed (st_heap ?st2) (catch_proxy (i\<lparr>si_bytes := b\<rparr>))" "info_typed (st_heap ?st2) (i\<lparr>si_bytes := b\<rparr>)" for b
    using a(1) by (auto simp: info_typed_def catch_parse_error_def catch_proxy_def)
  then show ?thesis
    unfolding st' Let_def using st2 by (intro stream_typed_put_info) auto
qed

lemma parse_ssl_typed:
  assumes "parse_ssl env k i st = Inr st'" "stream_typed st" "info_typed (st_heap st) i"
  shows "stream_typed st'"
proof -
  from assms(1) obtain a x bs w where a: "ssl_at (st_heap st) a"
    and "ssl_parse (e_undef_byte env) (si_bytes i) \<lparr>s_ssl = ssl_of (st_heap st ! a), s_out = []\<rparr> = Inr (x, bs, w)"
    and st': "st' = (let i1 = i\<lparr>si_bytes := bs\<rparr>; i2 = (if x = SSL_parse_error then catch_parse_error i1 else i1);
       st1 = put_obj a (Ssl_obj (s_ssl w)) st
     in put_info k i2 (st1\<lparr>st_out := st_out st1 @ map (\<lambda>e. (fst e, k)) (s_out w)\<rparr>))"
    by (auto simp: parse_ssl_def bindR_eq_Inr Let_def proto_to_ssl_Some split: option.splits)
  let ?st1 = "put_obj a (Ssl_obj (s_ssl w)) st"
  have a': "a < length (st_heap st)" "kind_of (Ssl_obj (s_ssl w)) = kind_of (st_heap st ! a)"
    using a by (simp_all add: ssl_at_def)
  have st1: "stream_typed ?st1"
    by (rule stream_typed_put_obj [OF assms(2) a']) (simp add: obj_typed_def)
  have i: "info_typed (st_heap ?st1) i"
    using info_typed_kept [OF kinds_kept_update [OF a']] assms(3) by simp
  have "info_typed (st_heap ?st1) (i\<lparr>si_bytes := b\<rparr>)" "info_typed (st_heap ?st1) (catch_parse_error (i\<lparr>si_bytes := b\<rparr>))" for b
    using i by (simp_all add: info_typed_def catch_parse_error_def)
  then show ?thesis
    unfolding st' Let_def using st1 by (intro stream_typed_put_info) auto
qed

lemma parse_stream_typed: "parse_stream env k st = Inr st' \<Longrightarrow> stream_typed st \<Longrightarrow> stream_typed st'"
  by (auto simp: parse_stream_def dest: stream_typed_info parse_http_typed parse_ssl_typed
      split: option.splits if_splits)

lemma in_data_typed:
  assumes "in_data env k b st = Inr st'" "stream_typed st"
  shows "stream_typed st'"
proof (cases "map_of (st_info st) k")
  case None
  with assms show ?thesis by (simp add: in_data_def)
next
  case (Some i0)
  show ?thesis
  proof (cases "si_is_gaveup i0")
    case True
    with Some assms show ?thesis by (simp add: in_data_def)
  next
    case False
    define i where "i = (if m_ptr b \<noteq> None
      then i0\<lparr>si_bytes := si_bytes i0 @ [b], si_total_size := si_total_size i0 + word_of_int (m_len b)\<rparr> else i0)"
    have i: "info_typed (st_heap st) i"
      using stream_typed_info [OF assms(2) Some] by (auto simp: i_def info_typed_def)
    have st1: "stream_typed (put_info k i st)" using assms(2) i by (rule stream_typed_put_info)
    define m where "m = (if si_type i = PROTO_NONE \<or> si_type i = PROTO_HTTP_PROXY
      then detect env k i (put_info k i st) else Inr (Some k, put_info k i st))"
    have "in_data env k b st = bindR m (\<lambda>(r, st2). case r of None \<Rightarrow> Inr st2 | Some k1 \<Rightarrow> parse_stream env k1 st2)"
      using Some False by (simp add: in_data_def Let_def m_def i_def)
    with assms(1) obtain r st2 where d: "m = Inr (r, st2)"
      and p: "(case r of None \<Rightarrow> Inr st2 | Some k1 \<Rightarrow> parse_stream env k1 st2) = Inr st'"
      by (auto simp: bindR_eq_Inr)
    have "stream_typed st2"
      using d st1 i detect_typed [of env k i "put_info k i st" r st2] by (auto simp: m_def split: if_splits)
    with p show ?thesis by (auto split: option.splits intro: parse_stream_typed)
  qed
qed

lemma in_stream_event_typed:
  assumes "in_stream_event env c st = Inr st'" "stream_typed st"
  shows "stream_typed st'"
proof -
  obtain ev k b where c: "c = (ev, k, b)" by (cases c)
  have "stream_typed (create_stream env k st)"
    using assms(2) by (auto simp: create_stream_def info_typed_def new_info_def intro!: stream_typed_put_info split: option.splits)
  moreover have "stream_typed (destroy_stream k st1)" if "stream_typed st1" for st1
    using that by (auto simp: destroy_stream_def stream_typed_def dest!: omap_erase_mem)
  ultimately show ?thesis
    using assms by (cases ev) (auto simp: in_stream_event_def c bindR_eq_Inr intro: notify_typed in_data_typed)
qed

lemma run_stream_typed: "run_stream env cs st = Inr st' \<Longrightarrow> stream_typed st \<Longrightarrow> stream_typed st'"
  by (induction cs arbitrary: st) (auto simp: bindR_eq_Inr dest: in_stream_event_typed)

section \<open>Properties\<close>

definition new_stream :: cdpi_stream where
  "new_stream = \<lparr>st_info = [], st_heap = [], st_out = []\<rparr>"

lemma new_stream_typed: "stream_typed new_stream"
  by (simp add: stream_typed_def new_stream_def)

text \<open>
  C8: after any calls that return, a direction of the type of an HTTP client or server points to an
  HTTP parser of that very type, one of the type of an SSL client or server to an SSL parser, and one
  without a type to none; what a proxied direction keeps are HTTP parsers. So the casts before \<open>parse\<close>
  succeed in every reachable state.
\<close>

theorem stream_parser_types:
  assumes "run_stream env cs new_stream = Inr st" "map_of (st_info st) k = Some i"
  shows "proto_typed (st_heap st) (si_type i) (si_proto i) \<and> (\<forall>a \<in> set (si_proxy i). http_at (st_heap st) a)"
  using stream_typed_info [OF run_stream_typed [OF assms(1) new_stream_typed] assms(2)]
  by (simp add: info_typed_def)

section \<open>A concrete run\<close>

text \<open>Two directions are created and one receives a block that looks like a request, which it waits to complete.\<close>

definition sample_stream_env :: stream_env where
  "sample_stream_env = \<lparr>e_http = \<lparr>e_listen = (\<lambda>ev h. m_mime_to_read h), e_fresh = (\<lambda>n. 0), e_undef = 0, e_junk = []\<rparr>,
     e_regex_http_req = (\<lambda>bs. bs = str ''GET /''), e_regex_http_res = (\<lambda>bs. bs = str ''HTTP/''),
     e_regex_ssl_client_hello = (\<lambda>bs. False), e_regex_ssl_server_hello = (\<lambda>bs. False),
     e_undef_int = 0, e_undef_random = [], e_undef_time = 0, e_undef_byte = 0, e_now = 5\<rparr>"

definition sample_key :: "cdpi_direction \<Rightarrow> cdpi_id_dir" where
  "sample_key d = IdDir (Id (Peer [] 0 0) (Peer [] 0 0) 0 6) d"

definition sample_calls :: "(cdpi_stream_event \<times> cdpi_id_dir \<times> cdpi_bytes) list" where
  "sample_calls = [(STREAM_CREATED, sample_key FROM_ADDR1, empty_bytes),
     (STREAM_CREATED, sample_key FROM_ADDR2, empty_bytes),
     (STREAM_DATA_IN, sample_key FROM_ADDR1, assign_str (str ''GET /''))]"

lemma sample_key_simps [simp]:
  "sample_key d = sample_key d' \<longleftrightarrow> d = d'" "sample_key d < sample_key d' \<longleftrightarrow> dir_num d < dir_num d'"
  "m_dir (sample_key d) = d" "IdDir (m_id (sample_key d)) d' = sample_key d'"
  by (simp_all add: sample_key_def less_cdpi_id_dir_def)

lemma sample_parse:
  "m_state h = HTTP_METHOD \<Longrightarrow>
     http_parse env \<lparr>w_http = h, w_peer = p, w_bytes = [assign_str (str ''GET /'')], w_out = []\<rparr> =
     Inr (Done, \<lparr>w_http = h, w_peer = p, w_bytes = [assign_str (str ''GET /'')], w_out = []\<rparr>)"
  by (subst http_parse.simps)
    (simp add: http_step_def parse_method_def assign_str_def block_bytes_def ptr_mem_def str_def)

lemma sample_match: "match_front f [assign_str b] = Inr (f b)"
  by (simp add: match_front_def assign_str_def ptr_mem_def rdsi_def rds_def)

text \<open>The state behind the calls, with the parser of the client.\<close>

definition sample_info :: cdpi_stream_info where
  "sample_info = (new_info 5)\<lparr>si_bytes := [assign_str (str ''GET /'')], si_type := PROTO_HTTP_CLIENT,
     si_proto := Some 0, si_total_size := 5\<rparr>"

definition sample_state :: cdpi_stream where
  "sample_state = \<lparr>st_info = [(sample_key FROM_ADDR1, sample_info), (sample_key FROM_ADDR2, new_info 5)],
     st_heap = [Http_obj (new_http PROTO_HTTP_CLIENT 0) None],
     st_out = [(CDPI_EVENT_STREAM_OPEN, sample_key FROM_ADDR1), (CDPI_EVENT_STREAM_OPEN, sample_key FROM_ADDR2),
       (CDPI_EVENT_PROTOCOL_DETECTED, sample_key FROM_ADDR1)]\<rparr>"

lemma sample_created:
  "run_stream sample_stream_env (take 2 sample_calls) new_stream =
     Inr (sample_state\<lparr>st_info := [(sample_key FROM_ADDR1, new_info 5), (sample_key FROM_ADDR2, new_info 5)],
       st_heap := [], st_out := take 2 (st_out sample_state)\<rparr>)"
  by (simp add: sample_calls_def new_stream_def sample_state_def in_stream_event_def create_stream_def notify_def
      proto_to_http_def get_proto_def put_info_def sample_stream_env_def Let_def new_info_def)

lemma sample_request:
  "in_data sample_stream_env (sample_key FROM_ADDR1) (assign_str (str ''GET /''))
     (sample_state\<lparr>st_info := [(sample_key FROM_ADDR1, new_info 5), (sample_key FROM_ADDR2, new_info 5)],
       st_heap := [], st_out := take 2 (st_out sample_state)\<rparr>) = Inr sample_state"
proof -
  have m: "m_ptr (assign_str s) = Some s" "m_len (assign_str s) = int (length s)" for s
    by (simp_all add: assign_str_def)
  have e: "e_regex_http_req sample_stream_env (str ''GET /'')" "e_undef_int sample_stream_env = 0"
    "e_listen (e_http sample_stream_env) ev (new_http t n) = m_mime_to_read (new_http t n)" for ev t n
    by (simp_all add: sample_stream_env_def)
  have h: "m_state (new_http PROTO_HTTP_CLIENT 0) = HTTP_METHOD"
    "(new_http PROTO_HTTP_CLIENT 0)\<lparr>m_mime_to_read := m_mime_to_read (new_http PROTO_HTTP_CLIENT 0)\<rparr> =
     new_http PROTO_HTTP_CLIENT 0"
    by (simp_all add: new_http_def)
  show ?thesis
    by (simp add: in_data_def m new_info_def detect_def is_http_client_def sample_match e put_info_def attach_def
        notify_def proto_to_http_def get_proto_def Let_def put_obj_def h parse_stream_def parse_http_def
        sample_parse peer_methods_def set_peer_methods_def sample_state_def sample_info_def)
qed

lemma sample_silent:
  "in_data sample_stream_env (sample_key FROM_ADDR2) empty_bytes sample_state = Inr sample_state"
  by (simp add: in_data_def sample_state_def empty_bytes_def new_info_def detect_def is_http_client_def
      is_http_server_def is_ssl_client_def is_ssl_server_def match_front_def sample_stream_env_def put_info_def)

lemma sample_run: "run_stream sample_stream_env sample_calls new_stream = Inr sample_state"
  using sample_created sample_request sample_silent
  by (simp add: sample_calls_def in_stream_event_def peer_dir_def)

theorem stream_parser_types_witness:
  "proto_typed (st_heap sample_state) (si_type sample_info) (si_proto sample_info) \<and>
     si_type sample_info = PROTO_HTTP_CLIENT \<and> si_proto sample_info = Some 0"
  using stream_parser_types [OF sample_run, of "sample_key FROM_ADDR1" sample_info]
  by (simp add: sample_state_def sample_info_def)

section \<open>What a direction without a protocol keeps\<close>

definition waits_ok :: "cdpi_stream_info \<Rightarrow> bool" where
  "waits_ok i \<longleftrightarrow> (si_type i = PROTO_NONE \<longrightarrow> length (si_bytes i) \<le> 8)"

definition stream_waits :: "cdpi_stream \<Rightarrow> bool" where
  "stream_waits st \<longleftrightarrow> (\<forall>k i. map_of (st_info st) k = Some i \<longrightarrow> waits_ok i)"

lemma stream_waits_put_info: "stream_waits st \<Longrightarrow> waits_ok i \<Longrightarrow> stream_waits (put_info k i st)"
  by (auto simp: stream_waits_def)

lemma st_info_simps [simp]:
  "st_info (notify env ev k st) = st_info st" "st_info (set_peer_methods p q st) = st_info st"
  by (auto simp: notify_def Let_def set_peer_methods_def split: option.split)

lemma st_info_set_peer: "set_peer p q st = Inr st' \<Longrightarrow> st_info st' = st_info st"
  by (auto simp: set_peer_def split: option.splits)

lemma st_info_connect_peer: "connect_peer k st = Inr (k', st') \<Longrightarrow> st_info st' = st_info st"
  by (auto simp: connect_peer_def bindR_eq_Inr Let_def dest: st_info_set_peer split: option.splits if_splits)

lemma detect_waits:
  assumes "detect env k i st = Inr (r, st')" "map_of (st_info st) k = Some i"
    and "\<And>k' j. k' \<noteq> k \<Longrightarrow> map_of (st_info st) k' = Some j \<Longrightarrow> waits_ok j"
  shows "stream_waits st'"
proof -
  have new: "stream_waits st1" if "st_info st1 = omap_insert k i1 (st_info st)" "waits_ok i1" for st1 i1
    using that assms(3) by (auto simp: stream_waits_def)
  have att: "st_info (attach k i t p st) = omap_insert k (i\<lparr>si_type := t, si_proto := Some (length (st_heap st))\<rparr>) (st_info st)" for t p
    by (simp add: attach_def)
  have old: "stream_waits st" if "waits_ok i" using that assms(2,3) unfolding stream_waits_def by (metis option.inject)
  show ?thesis
    using assms(1) old
    by (auto simp: detect_def bindR_eq_Inr att waits_ok_def dest!: st_info_connect_peer split: if_splits intro: new)
qed

lemma parse_stream_waits:
  "parse_stream env k st = Inr st' \<Longrightarrow> stream_waits st \<Longrightarrow> stream_waits st'"
  by (auto simp: parse_stream_def parse_http_def parse_ssl_def bindR_eq_Inr Let_def waits_ok_def
      catch_parse_error_def catch_proxy_def stream_waits_def split: option.splits if_splits)

lemma in_data_waits:
  assumes "in_data env k b st = Inr st'" "stream_waits st"
  shows "stream_waits st'"
proof (cases "map_of (st_info st) k")
  case None
  with assms show ?thesis by (simp add: in_data_def)
next
  case (Some i0)
  show ?thesis
  proof (cases "si_is_gaveup i0")
    case True
    with Some assms show ?thesis by (simp add: in_data_def)
  next
    case False
    define i where "i = (if m_ptr b \<noteq> None
      then i0\<lparr>si_bytes := si_bytes i0 @ [b], si_total_size := si_total_size i0 + word_of_int (m_len b)\<rparr> else i0)"
    define m where "m = (if si_type i = PROTO_NONE \<or> si_type i = PROTO_HTTP_PROXY
      then detect env k i (put_info k i st) else Inr (Some k, put_info k i st))"
    have "in_data env k b st = bindR m (\<lambda>(r, st2). case r of None \<Rightarrow> Inr st2 | Some k1 \<Rightarrow> parse_stream env k1 st2)"
      using Some False by (simp add: in_data_def Let_def m_def i_def)
    with assms(1) obtain r st2 where d: "m = Inr (r, st2)"
      and p: "(case r of None \<Rightarrow> Inr st2 | Some k1 \<Rightarrow> parse_stream env k1 st2) = Inr st'"
      by (auto simp: bindR_eq_Inr)
    have "stream_waits st2"
      using d assms(2) detect_waits [of env k i "put_info k i st" r st2]
      by (auto simp: m_def stream_waits_def waits_ok_def split: if_splits)
    with p show ?thesis by (auto split: option.splits intro: parse_stream_waits)
  qed
qed

lemma in_stream_event_waits:
  assumes "in_stream_event env c st = Inr st'" "stream_waits st"
  shows "stream_waits st'"
proof -
  obtain ev k b where c: "c = (ev, k, b)" by (cases c)
  have "stream_waits (create_stream env k st)"
    using assms(2) by (auto simp: create_stream_def new_info_def waits_ok_def stream_waits_def split: option.splits)
  then show ?thesis
    using assms(2) assms(1)
    by (cases ev) (auto simp: in_stream_event_def c bindR_eq_Inr destroy_stream_def stream_waits_def
        dest!: in_data_waits [unfolded stream_waits_def] split: if_splits)
qed

lemma run_stream_waits: "run_stream env cs st = Inr st' \<Longrightarrow> stream_waits st \<Longrightarrow> stream_waits st'"
  by (induction cs arbitrary: st) (auto simp: bindR_eq_Inr dest: in_stream_event_waits)

text \<open>
  C23: whatever the calls are, a direction whose protocol is not known keeps at most eight blocks: the
  ninth makes the program give the direction up and release them.
\<close>

theorem unknown_stream_bounded:
  assumes "run_stream env cs new_stream = Inr st" "map_of (st_info st) k = Some i" "si_type i = PROTO_NONE"
  shows "length (si_bytes i) \<le> 8"
proof -
  have "stream_waits new_stream" by (simp add: stream_waits_def new_stream_def)
  with run_stream_waits [OF assms(1)] assms(2,3) show ?thesis by (simp add: stream_waits_def waits_ok_def)
qed

theorem unknown_stream_bounded_witness:
  "si_type (new_info 5) = PROTO_NONE \<and> length (si_bytes (new_info 5)) \<le> 8"
  using unknown_stream_bounded [OF sample_run, of "sample_key FROM_ADDR2" "new_info 5"]
  by (simp add: sample_state_def sample_info_def new_info_def)

section \<open>A response is parsed with the methods of its requests\<close>

lemma peer_of_update:
  "peer_of p = peer_of (H ! b) \<Longrightarrow> peer_of (H[b := p] ! a) = peer_of (H ! a)"
  by (cases "b < length H") (auto simp: nth_list_update not_less list_update_beyond)

lemma peer_of_notify [simp]: "peer_of (st_heap (notify env ev k st) ! a) = peer_of (st_heap st ! a)"
  by (auto simp: notify_def Let_def peer_of_update split: option.splits)

lemma peer_of_set_peer_methods [simp]:
  "peer_of (st_heap (set_peer_methods p q st) ! a) = peer_of (st_heap st ! a)"
  by (auto simp: set_peer_methods_def peer_of_update split: option.splits)

lemma parse_http_peer:
  assumes "parse_http env k i st = Inr st'"
  shows "peer_of (st_heap st' ! a) = peer_of (st_heap st ! a)"
    and "\<exists>i'. map_of (st_info st') k = Some i' \<and> si_proto i' = si_proto i"
  using assms
  by (auto simp: parse_http_def bindR_eq_Inr Let_def catch_parse_error_def catch_proxy_def peer_of_update
      split: option.splits)

lemma in_data_detect:
  assumes "map_of (st_info st) k = Some i" "si_type i = PROTO_NONE" "\<not> si_is_gaveup i" "m_ptr b \<noteq> None"
    and "i' = i\<lparr>si_bytes := si_bytes i @ [b], si_total_size := si_total_size i + word_of_int (m_len b)\<rparr>"
  shows "in_data env k b st = bindR (detect env k i' (put_info k i' st))
    (\<lambda>(r, st2). case r of None \<Rightarrow> Inr st2 | Some k1 \<Rightarrow> parse_stream env k1 st2)"
  using assms by (simp add: in_data_def Let_def)

text \<open>
  C19: a response on a connection without proxies whose other direction sends requests: the new
  parser of the responses is connected with the parser of the requests of the same connection, whose
  methods tell it which responses have a body.
\<close>

theorem http_response_peer:
  assumes "run_stream env cs new_stream = Inr st"
    and "map_of (st_info st) k = Some i" "si_type i = PROTO_NONE" "\<not> si_is_gaveup i"
    and "map_of (st_info st) (IdDir (m_id k) (peer_dir (m_dir k))) = Some j"
    and "si_type j = PROTO_HTTP_CLIENT" "si_proxy j = []"
    and "m_ptr b \<noteq> None" "is_http_client env (si_bytes i @ [b]) = Inr False" "is_http_server env (si_bytes i @ [b]) = Inr True"
    and "in_data env k b st = Inr st'"
  shows "\<exists>i' a c. map_of (st_info st') k = Some i' \<and> si_proto i' = Some a \<and> length (st_heap st) \<le> a \<and>
    si_proto j = Some c \<and> peer_of (st_heap st' ! a) = Some c"
proof -
  let ?i = "i\<lparr>si_bytes := si_bytes i @ [b], si_total_size := si_total_size i + word_of_int (m_len b)\<rparr>"
  let ?k' = "IdDir (m_id k) (peer_dir (m_dir k))" and ?a = "length (st_heap st)"
  let ?st1 = "attach k ?i PROTO_HTTP_SERVER (Http_obj (new_http PROTO_HTTP_SERVER (e_undef_int env)) None) (put_info k ?i st)"
  have k': "?k' \<noteq> k" by (cases k; cases "m_dir k") (auto simp: peer_dir_def)
  from run_stream_typed [OF assms(1) new_stream_typed] assms(5,6) have "proto_typed (st_heap st) PROTO_HTTP_CLIENT (si_proto j)"
    by (auto dest: stream_typed_info simp: info_typed_def)
  then obtain c where c: "si_proto j = Some c" "http_at (st_heap st) c" by (cases "si_proto j") auto
  from c(2) have c1: "http_at (st_heap ?st1) c" by (simp add: attach_def http_at_def nth_append)
  have a1: "http_at (st_heap ?st1) ?a" by (simp add: attach_def http_at_def)
  let ?st2 = "put_obj ?a (Http_obj (http_of (st_heap ?st1 ! ?a)) (Some c)) ?st1"
  have "proto_to_http ?st1 (Some ?a) = Some ?a" "proto_to_http ?st1 (si_proto j) = Some c"
    using a1 c1 c(1) by (simp_all add: proto_to_http_Some)
  then have "connect_peer k ?st1 = Inr (k, ?st2)"
    using assms(5-7) k' by (simp add: connect_peer_def set_peer_def) (simp add: attach_def set_peer_def)
  then have "detect env k ?i (put_info k ?i st) = Inr (Some k, notify env CDPI_EVENT_PROTOCOL_DETECTED k ?st2)"
    using assms(9,10) by (simp add: detect_def)
  with in_data_detect [OF assms(2-4,8) refl] assms(11)
  have p: "parse_stream env k (notify env CDPI_EVENT_PROTOCOL_DETECTED k ?st2) = Inr st'" by simp
  have "map_of (st_info (notify env CDPI_EVENT_PROTOCOL_DETECTED k ?st2)) k =
      Some (?i\<lparr>si_type := PROTO_HTTP_SERVER, si_proto := Some ?a\<rparr>)"
    by (simp add: attach_def)
  with p have "parse_http env k (?i\<lparr>si_type := PROTO_HTTP_SERVER, si_proto := Some ?a\<rparr>)
      (notify env CDPI_EVENT_PROTOCOL_DETECTED k ?st2) = Inr st'"
    by (simp add: parse_stream_def)
  from parse_http_peer [OF this] c(1) show ?thesis by (auto simp: attach_def)
qed


text \<open>The response that the witness parses, and the state behind it.\<close>

definition sample_answer :: cdpi_stream_info where
  "sample_answer = (new_info 5)\<lparr>si_bytes := [assign_str (str ''HTTP/'')], si_type := PROTO_HTTP_SERVER,
     si_proto := Some 1, si_total_size := 5\<rparr>"

definition sample_answered :: cdpi_stream where
  "sample_answered = sample_state
     \<lparr>st_info := [(sample_key FROM_ADDR1, sample_info), (sample_key FROM_ADDR2, sample_answer)],
      st_heap := [Http_obj (new_http PROTO_HTTP_CLIENT 0) None, Http_obj (new_http PROTO_HTTP_SERVER 0) (Some 0)],
      st_out := st_out sample_state @ [(CDPI_EVENT_PROTOCOL_DETECTED, sample_key FROM_ADDR2)]\<rparr>"

lemma sample_parse_response:
  "m_state h = HTTP_RESPONSE \<Longrightarrow>
     http_parse env \<lparr>w_http = h, w_peer = p, w_bytes = [assign_str (str ''HTTP/'')], w_out = []\<rparr> =
     Inr (Done, \<lparr>w_http = h, w_peer = p, w_bytes = [assign_str (str ''HTTP/'')], w_out = []\<rparr>)"
  by (subst http_parse.simps)
    (simp add: http_step_def parse_response_def assign_str_def block_bytes_def ptr_mem_def str_def)

lemma sample_response:
  "in_data sample_stream_env (sample_key FROM_ADDR2) (assign_str (str ''HTTP/'')) sample_state = Inr sample_answered"
proof -
  let ?i = "(new_info 5)\<lparr>si_bytes := [assign_str (str ''HTTP/'')], si_total_size := 5\<rparr>"
  have m: "m_ptr (assign_str s) = Some s" "m_len (assign_str s) = int (length s)" for s
    by (simp_all add: assign_str_def)
  have e: "\<not> e_regex_http_req sample_stream_env (str ''HTTP/'')" "e_regex_http_res sample_stream_env (str ''HTTP/'')"
    "e_undef_int sample_stream_env = 0"
    "e_listen (e_http sample_stream_env) ev (new_http t n) = m_mime_to_read (new_http t n)" for ev t n
    by (simp_all add: sample_stream_env_def) (simp add: str_def)
  have h: "m_state (new_http PROTO_HTTP_SERVER 0) = HTTP_RESPONSE" "m_method (new_http PROTO_HTTP_CLIENT 0) = []"
    "(new_http t 0)\<lparr>m_mime_to_read := m_mime_to_read (new_http t 0)\<rparr> = new_http t 0"
    "(new_http t 0)\<lparr>m_method := []\<rparr> = new_http t 0" for t
    by (simp_all add: new_http_def)
  have i: "map_of (st_info sample_state) (sample_key FROM_ADDR2) = Some (new_info 5)"
    by (simp add: sample_state_def)
  have d: "in_data sample_stream_env (sample_key FROM_ADDR2) (assign_str (str ''HTTP/'')) sample_state =
      bindR (detect sample_stream_env (sample_key FROM_ADDR2) ?i (put_info (sample_key FROM_ADDR2) ?i sample_state))
        (\<lambda>(r, st2). case r of None \<Rightarrow> Inr st2 | Some k1 \<Rightarrow> parse_stream sample_stream_env k1 st2)"
    by (rule in_data_detect [OF i]) (simp_all add: m, simp_all add: new_info_def)
  show ?thesis
    unfolding d
    by (simp add: new_info_def detect_def is_http_client_def is_http_server_def sample_match e put_info_def
        attach_def connect_peer_def set_peer_def notify_def proto_to_http_def get_proto_def Let_def put_obj_def h
        parse_stream_def parse_http_def sample_parse_response peer_methods_def set_peer_methods_def
        sample_state_def sample_info_def sample_answer_def sample_answered_def peer_dir_def)
qed

theorem http_response_peer_witness:
  "in_data sample_stream_env (sample_key FROM_ADDR2) (assign_str (str ''HTTP/'')) sample_state = Inr sample_answered \<and>
   (\<exists>i' a c. map_of (st_info sample_answered) (sample_key FROM_ADDR2) = Some i' \<and> si_proto i' = Some a \<and>
      length (st_heap sample_state) \<le> a \<and> si_proto sample_info = Some c \<and>
      peer_of (st_heap sample_answered ! a) = Some c)"
  using http_response_peer [OF sample_run, where k = "sample_key FROM_ADDR2" and i = "new_info 5" and j = sample_info
      and b = "assign_str (str ''HTTP/'')" and st' = sample_answered] sample_response
  by (simp add: sample_state_def sample_info_def new_info_def peer_dir_def assign_str_def sample_stream_env_def
      is_http_client_def is_http_server_def match_front_def ptr_mem_def rdsi_def rds_def str_def)

end
