(* ===== verification/Bencode.thy ===== *)
theory Bencode
  imports Bytes Numbers
begin

text \<open>
  \<open>cdpi_bencode.hpp\<close> and \<open>cdpi_bencode.cpp\<close>: the decoder of bencoded data, which reads a stream of the
  standard library and computes the info hash of a torrent on the way, and the two encoders. The
  stream has a position and the bits \<open>eofbit\<close> and \<open>failbit\<close>; an operation on a stream that is not
  good only sets \<open>failbit\<close>.
\<close>

section \<open>The input stream\<close>

record istream =
  is_data :: "byte list"
  is_pos :: nat
  is_eof :: bool
  is_fail :: bool

definition in_good :: "istream \<Rightarrow> bool" where
  "in_good s \<longleftrightarrow> \<not> is_eof s \<and> \<not> is_fail s"

definition in_more :: "istream \<Rightarrow> bool" where
  "in_more s \<longleftrightarrow> in_good s \<and> is_pos s < length (is_data s)"

definition open_stream :: "byte list \<Rightarrow> istream" where
  "open_stream bs = \<lparr>is_data = bs, is_pos = 0, is_eof = False, is_fail = False\<rparr>"

text \<open>\<open>peek\<close>, stored in a \<open>char\<close>: the end of the file is the character of code -1.\<close>

definition in_peek :: "istream \<Rightarrow> byte \<times> istream" where
  "in_peek s =
     (if in_more s then (is_data s ! is_pos s, s)
      else if in_good s then (0xFF, s\<lparr>is_eof := True\<rparr>)
      else (0xFF, s\<lparr>is_fail := True\<rparr>))"

text \<open>\<open>ignore()\<close>, \<open>get()\<close> without its result, and \<open>get(c)\<close>, which leaves \<open>c\<close> alone when it fails.\<close>

definition in_ignore :: "istream \<Rightarrow> istream" where
  "in_ignore s =
     (if in_more s then s\<lparr>is_pos := is_pos s + 1\<rparr>
      else if in_good s then s\<lparr>is_eof := True\<rparr>
      else s\<lparr>is_fail := True\<rparr>)"

definition in_get :: "istream \<Rightarrow> istream" where
  "in_get s =
     (if in_more s then s\<lparr>is_pos := is_pos s + 1\<rparr>
      else s\<lparr>is_eof := is_eof s \<or> in_good s, is_fail := True\<rparr>)"

definition in_get_char :: "byte \<Rightarrow> istream \<Rightarrow> byte \<times> istream" where
  "in_get_char c s = ((if in_more s then is_data s ! is_pos s else c), in_get s)"

text \<open>\<open>get(buf, delim)\<close>: up to the delimiter, which stays in the stream. Nothing read is a failure.\<close>

definition in_get_until :: "byte \<Rightarrow> istream \<Rightarrow> byte list \<times> istream" where
  "in_get_until delim s =
     (if in_good s then
        let bs = takeWhile (\<lambda>c. c \<noteq> delim) (drop (is_pos s) (is_data s));
            p = is_pos s + length bs
        in (bs, s\<lparr>is_pos := p, is_eof := (p \<ge> length (is_data s)), is_fail := (bs = [])\<rparr>)
      else ([], s\<lparr>is_fail := True\<rparr>))"

text \<open>\<open>read(buf, n)\<close>: a short read sets both bits.\<close>

definition in_read :: "nat \<Rightarrow> istream \<Rightarrow> byte list \<times> istream" where
  "in_read n s =
     (if in_good s then
        let bs = take n (drop (is_pos s) (is_data s)); short = (length bs < n)
        in (bs, s\<lparr>is_pos := is_pos s + length bs, is_eof := short, is_fail := short\<rparr>)
      else ([], s\<lparr>is_fail := True\<rparr>))"

text \<open>\<open>tellg\<close> is -1 on a stream that is not good. \<open>seekg\<close> clears \<open>eofbit\<close> first.\<close>

definition in_tellg :: "istream \<Rightarrow> int \<times> istream" where
  "in_tellg s = (if in_good s then (int (is_pos s), s) else (- 1, s\<lparr>is_fail := True\<rparr>))"

definition in_seekg :: "int \<Rightarrow> istream \<Rightarrow> istream" where
  "in_seekg p s =
     (if is_fail s then s\<lparr>is_eof := False\<rparr>
      else if 0 \<le> p \<and> p \<le> int (length (is_data s)) then s\<lparr>is_pos := nat p, is_eof := False\<rparr>
      else s\<lparr>is_eof := False, is_fail := True\<rparr>)"

section \<open>Data\<close>

text \<open>A dictionary is a \<open>std::map\<close> whose keys are blocks, compared by \<open>operator<\<close>.\<close>

datatype ben_data =
    Ben_dict "(cdpi_bytes \<times> ben_data) list"
  | Ben_list "ben_data list"
  | Ben_int int
  | Ben_str cdpi_bytes

datatype ben_type = DICT | LIST | BEN_INT | BEN_STR

fun get_type :: "ben_data \<Rightarrow> ben_type" where
  "get_type (Ben_dict m) = DICT"
| "get_type (Ben_list l) = LIST"
| "get_type (Ben_int n) = BEN_INT"
| "get_type (Ben_str b) = BEN_STR"

text \<open>\<open>m_dict[k] = v\<close> and \<open>find\<close>. An element that is there keeps its key object.\<close>

fun dict_insert :: "cdpi_bytes \<Rightarrow> 'v \<Rightarrow> (cdpi_bytes \<times> 'v) list \<Rightarrow> (cdpi_bytes \<times> 'v) list result" where
  "dict_insert k v [] = Inr [(k, v)]"
| "dict_insert k v ((k', v') # m) =
     bindR (bytes_less k k') (\<lambda>lt.
       if lt then Inr ((k, v) # (k', v') # m)
       else bindR (bytes_less k' k) (\<lambda>gt.
         if gt then bindR (dict_insert k v m) (\<lambda>m'. Inr ((k', v') # m'))
         else Inr ((k', v) # m)))"

fun dict_find :: "cdpi_bytes \<Rightarrow> (cdpi_bytes \<times> 'v) list \<Rightarrow> 'v option result" where
  "dict_find k [] = Inr None"
| "dict_find k ((k', v') # m) =
     bindR (bytes_less k' k) (\<lambda>gt.
       if gt then dict_find k m
       else bindR (bytes_less k k') (\<lambda>lt. Inr (if lt then None else Some v')))"

text \<open>The operations of a dictionary that take a C string or a string with a length.\<close>

definition add_int :: "byte list \<Rightarrow> int \<Rightarrow> (cdpi_bytes \<times> ben_data) list \<Rightarrow> (cdpi_bytes \<times> ben_data) list result" where
  "add_int k v m = dict_insert (assign_str k) (Ben_int v) m"

definition add_str ::
    "byte list \<Rightarrow> byte list \<Rightarrow> int \<Rightarrow> (cdpi_bytes \<times> ben_data) list \<Rightarrow> (cdpi_bytes \<times> ben_data) list result" where
  "add_str k v len m = bindR (set_buf v len) (\<lambda>b. dict_insert (assign_str k) (Ben_str b) m)"

definition add_data ::
    "byte list \<Rightarrow> ben_data \<Rightarrow> (cdpi_bytes \<times> ben_data) list \<Rightarrow> (cdpi_bytes \<times> ben_data) list result" where
  "add_data k v m = dict_insert (assign_str k) v m"

definition add_data_bytes ::
    "cdpi_bytes \<Rightarrow> ben_data \<Rightarrow> (cdpi_bytes \<times> ben_data) list \<Rightarrow> (cdpi_bytes \<times> ben_data) list result" where
  "add_data_bytes k v m = dict_insert k v m"

definition get_dict_data ::
    "byte list \<Rightarrow> int \<Rightarrow> (cdpi_bytes \<times> ben_data) list \<Rightarrow> ben_data option result" where
  "get_dict_data k keylen m =
     (if keylen \<ge> 0 then bindR (set_buf k keylen) (\<lambda>b. dict_find b m)
      else dict_find (assign_str k) m)"

definition ben_push_back :: "ben_data \<Rightarrow> ben_data list \<Rightarrow> ben_data list" where
  "ben_push_back d l = l @ [d]"

section \<open>The decoder\<close>

text \<open>
  What the code takes from outside: the digest of OpenSSL, what a local variable and new memory hold
  before they are written.
\<close>

record ben_env =
  be_digest :: "byte list \<Rightarrow> byte list"
  be_undef :: "nat \<Rightarrow> byte"
  be_fresh :: "nat \<Rightarrow> byte"

text \<open>The decoder next to its stream. What it has decoded is the result of its operations.\<close>

record ben_state =
  b_in :: istream
  b_info_begin :: int
  b_info_end :: int
  b_hash :: "byte list option"

definition new_bencode :: "int \<Rightarrow> int \<Rightarrow> byte list \<Rightarrow> ben_state" where
  "new_bencode ib ie bs = \<lparr>b_in = open_stream bs, b_info_begin = ib, b_info_end = ie, b_hash = None\<rparr>"

text \<open>
  A string: its length, a colon and that many bytes, into an array with one byte more, which becomes
  a zero. Only \<open>badbit\<close> is looked at behind the read, so that a short read is accepted.
\<close>

definition read_str :: "ben_env \<Rightarrow> istream \<Rightarrow> (cdpi_bytes option \<times> istream) result" where
  "read_str env s =
     (let (num, s1) = in_get_until 0x3A s; (c, s2) = in_get_char (be_undef env (is_pos s1)) s1 in
      if c \<noteq> 0x3A then Inr (None, s2)
      else let n = atoi num in
        if sint (word_of_int (n + 1) :: 32 word) < 0 then Inl BadAlloc
        else let (bs, s3) = in_read (nat n) s2 in
          if n < 0 then Inl OutOfBounds
          else Inr (Some \<lparr>m_ptr = Some (bs @ map (be_fresh env) [length bs..<nat n] @ [0]), m_pos = 0, m_len = n\<rparr>, s3))"

definition dec_str :: "ben_env \<Rightarrow> ben_state \<Rightarrow> (ben_data option \<times> ben_state) result" where
  "dec_str env st =
     bindR (read_str env (b_in st)) (\<lambda>(b, s). Inr (map_option Ben_str b, st\<lparr>b_in := s\<rparr>))"

definition dec_int :: "ben_env \<Rightarrow> ben_state \<Rightarrow> ben_data option \<times> ben_state" where
  "dec_int env st =
     (let (num, s1) = in_get_until 0x65 (in_ignore (b_in st)); (c, s2) = in_get_char (be_undef env (is_pos s1)) s1 in
      (if c \<noteq> 0x65 then None else Some (Ben_int (atoi num)), st\<lparr>b_in := s2\<rparr>))"

text \<open>
  The hash of a dictionary's value. The key is compared over four bytes with its array, which has the
  length of the key and one byte more; the bytes differ before the end of a shorter array, which is
  the zero.
\<close>

definition is_info_key :: "cdpi_bytes \<Rightarrow> bool" where
  "is_info_key k \<longleftrightarrow> take 4 (ptr_mem k) = str ''info''"

definition calc_info_hash :: "ben_env \<Rightarrow> ben_state \<Rightarrow> ben_state result" where
  "calc_info_hash env st =
     (let (pos, s1) = in_tellg (b_in st); len = b_info_end st - b_info_begin st in
      if len < 0 then Inl BadAlloc
      else let (bs, s2) = in_read (nat len) (in_seekg (b_info_begin st) s1);
               info = bs @ map (be_fresh env) [length bs..<nat len]
        in Inr (st\<lparr>b_in := in_seekg pos s2, b_hash := Some (be_digest env info)\<rparr>))"

definition note_info :: "ben_env \<Rightarrow> cdpi_bytes \<Rightarrow> int \<Rightarrow> ben_state \<Rightarrow> ben_state result" where
  "note_info env k pos st =
     (if is_info_key k then
        let (e, s) = in_tellg (b_in st)
        in calc_info_hash env (st\<lparr>b_info_begin := pos, b_info_end := e, b_in := s\<rparr>)
      else Inr st)"

text \<open>\<open>None\<close> is a decoder that returns false.\<close>

function ben_decode :: "ben_env \<Rightarrow> ben_state \<Rightarrow> (ben_data option \<times> ben_state) result"
  and dec_dict :: "ben_env \<Rightarrow> (cdpi_bytes \<times> ben_data) list \<Rightarrow> ben_state \<Rightarrow> (ben_data option \<times> ben_state) result"
  and dec_list :: "ben_env \<Rightarrow> ben_data list \<Rightarrow> ben_state \<Rightarrow> (ben_data option \<times> ben_state) result" where
  "ben_decode env st =
     (let (c, s) = in_peek (b_in st) in
      if c = 0x64 then dec_dict env [] (st\<lparr>b_in := in_ignore s\<rparr>)
      else if c = 0x6C then dec_list env [] (st\<lparr>b_in := in_ignore s\<rparr>)
      else if c = 0x69 then Inr (dec_int env (st\<lparr>b_in := s\<rparr>))
      else if 0x30 \<le> c \<and> c \<le> 0x39 then dec_str env (st\<lparr>b_in := s\<rparr>)
      else Inr (None, st\<lparr>b_in := s\<rparr>))"
| "dec_dict env dict st =
     (if is_eof (b_in st) then Inr (None, st)
      else let (c, s) = in_peek (b_in st) in
        if c = 0x65 then Inr (Some (Ben_dict dict), st\<lparr>b_in := in_get s\<rparr>)
        else if \<not> (0x30 \<le> c \<and> c \<le> 0x39) then Inr (None, st\<lparr>b_in := s\<rparr>)
        else bindR (read_str env s) (\<lambda>(key, s1).
          case key of
            None \<Rightarrow> Inr (None, st\<lparr>b_in := s1\<rparr>)
          | Some k \<Rightarrow>
              let (pos, s2) = in_tellg s1 in
              bindR (ben_decode env (st\<lparr>b_in := s2\<rparr>)) (\<lambda>(value, st1).
                case value of
                  None \<Rightarrow> Inr (None, st1)
                | Some v \<Rightarrow>
                    bindR (dict_insert k v dict) (\<lambda>dict1.
                      bindR (note_info env k pos st1) (\<lambda>st2. dec_dict env dict1 st2)))))"
| "dec_list env l st =
     (let (c, s) = in_peek (b_in st) in
      if c = 0x65 then Inr (Some (Ben_list l), st\<lparr>b_in := in_get s\<rparr>)
      else bindR (ben_decode env (st\<lparr>b_in := s\<rparr>)) (\<lambda>(value, st1).
        case value of
          None \<Rightarrow> Inr (None, st1)
        | Some v \<Rightarrow> dec_list env (ben_push_back v l) st1))"
  by pat_completeness auto

text \<open>
  Every call reads on: the data stays, and what is decoded is behind the place where the decoder
  began. This is known of the calls that return before it is known that every call does.
\<close>

definition reads_on :: "istream \<Rightarrow> istream \<Rightarrow> bool" where
  "reads_on s t \<longleftrightarrow> is_data t = is_data s \<and> is_pos s \<le> is_pos t \<and>
     (is_pos s \<le> length (is_data s) \<longrightarrow> is_pos t \<le> length (is_data s))"

lemma reads_on_refl [simp]: "reads_on s s"
  and reads_on_trans: "reads_on s t \<Longrightarrow> reads_on t u \<Longrightarrow> reads_on s u"
  by (auto simp: reads_on_def)

lemma in_reads_on:
  "reads_on s (snd (in_peek s))" "reads_on s (in_ignore s)" "reads_on s (in_get s)"
  "reads_on s (snd (in_get_char c s))" "reads_on s (snd (in_get_until d s))" "reads_on s (snd (in_read n s))"
  "reads_on s (snd (in_tellg s))"
  using length_takeWhile_le [of "\<lambda>c. c \<noteq> d" "drop (is_pos s) (is_data s)"]
  by (auto simp: reads_on_def in_peek_def in_ignore_def in_get_def in_get_char_def in_get_until_def in_read_def
      in_tellg_def in_more_def Let_def)

lemma in_peek_more: "in_peek s = (c, t) \<Longrightarrow> c \<noteq> 0xFF \<Longrightarrow> in_more s \<and> t = s \<and> c = is_data s ! is_pos s"
  by (auto simp: in_peek_def split: if_splits)

lemma in_ignore_more: "in_more s \<Longrightarrow> is_pos (in_ignore s) = Suc (is_pos s)"
  by (simp add: in_ignore_def)

lemma read_str_reads_on:
  assumes "read_str env s = Inr (b, t)"
  shows "reads_on s t" and "in_more s \<Longrightarrow> is_data s ! is_pos s \<noteq> 0x3A \<Longrightarrow> is_pos s < is_pos t"
proof -
  obtain num s1 c s2 where 1: "in_get_until 0x3A s = (num, s1)" "in_get_char (be_undef env (is_pos s1)) s1 = (c, s2)"
    by (cases "in_get_until 0x3A s"; cases "in_get_char (be_undef env (is_pos (snd (in_get_until 0x3A s)))) (snd (in_get_until 0x3A s))") auto
  obtain bs s3 where 2: "in_read (nat (atoi num)) s2 = (bs, s3)" by (cases "in_read (nat (atoi num)) s2")
  have r: "reads_on s s1" "reads_on s1 s2" "reads_on s2 s3"
    using in_reads_on(5) [where s = s and d = "0x3A"] in_reads_on(4) [where s = s1] in_reads_on(6) [where s = s2 and n = "nat (atoi num)"] 1 2
    by (metis snd_conv)+
  have t: "t = s2 \<or> t = s3" using assms 1 2 by (auto simp: read_str_def Let_def split: if_splits)
  with r show "reads_on s t" by (auto intro: reads_on_trans)
  assume "in_more s" "is_data s ! is_pos s \<noteq> 0x3A"
  moreover from this have "drop (is_pos s) (is_data s) = is_data s ! is_pos s # drop (Suc (is_pos s)) (is_data s)"
    by (simp add: in_more_def Cons_nth_drop_Suc)
  ultimately have "is_pos s < is_pos s1"
    using 1(1) by (auto simp: in_get_until_def in_more_def Let_def)
  moreover have "is_pos s1 \<le> is_pos s2" "is_pos s2 \<le> is_pos s3" using r(2,3) by (simp_all add: reads_on_def)
  ultimately show "is_pos s < is_pos t" using t by auto
qed

text \<open>A position in the data or at its end.\<close>

definition in_bounds :: "istream \<Rightarrow> bool" where
  "in_bounds s \<longleftrightarrow> is_pos s \<le> length (is_data s)"

lemma in_bounds_reads_on: "reads_on s t \<Longrightarrow> in_bounds s \<Longrightarrow> in_bounds t"
  by (simp add: reads_on_def in_bounds_def)

lemma in_more_bounds: "in_more s \<Longrightarrow> in_bounds s"
  by (simp add: in_more_def in_bounds_def)

text \<open>The stream is read from \<open>p\<close> on and put back to where it was, or stays at the end of the data.\<close>

lemma seek_read_seek:
  assumes "in_bounds s" "in_good s"
  shows "reads_on s (in_seekg (int (is_pos s)) (snd (in_read n (in_seekg p s))))"
proof (cases "0 \<le> p \<and> p \<le> int (length (is_data s))")
  case True
  then show ?thesis
    using assms by (auto simp: in_seekg_def in_read_def in_good_def reads_on_def in_bounds_def Let_def)
next
  case False
  then show ?thesis
    using assms by (auto simp: in_seekg_def in_read_def in_good_def reads_on_def in_bounds_def)
qed

lemma seek_read_seek_bad: "is_fail s \<Longrightarrow> reads_on s (in_seekg q (snd (in_read n (in_seekg p s))))"
  by (simp add: in_seekg_def in_read_def in_good_def reads_on_def)

lemma note_info_reads_on:
  assumes "note_info env k p st = Inr st'" "in_bounds (b_in st)"
  shows "reads_on (b_in st) (b_in st')"
proof (cases "is_info_key k")
  case True
  show ?thesis
  proof (cases "in_good (b_in st)")
    case good: True
    from assms(1) True good
    have "b_in st' = in_seekg (int (is_pos (b_in st))) (snd (in_read (nat (int (is_pos (b_in st)) - p)) (in_seekg p (b_in st))))"
      by (auto simp: note_info_def calc_info_hash_def in_tellg_def Let_def split: if_splits prod.splits)
    then show ?thesis using seek_read_seek [OF assms(2) good] by simp
  next
    case bad: False
    let ?s = "b_in st\<lparr>is_fail := True\<rparr>"
    from assms(1) True bad have "b_in st' = in_seekg (- 1) (snd (in_read (nat (- 1 - p)) (in_seekg p ?s)))"
      by (auto simp: note_info_def calc_info_hash_def in_tellg_def in_good_def Let_def split: if_splits prod.splits)
    moreover have "reads_on (b_in st) ?s" by (simp add: reads_on_def)
    ultimately show ?thesis using seek_read_seek_bad [of ?s] reads_on_trans by simp
  qed
qed (use assms in \<open>simp add: note_info_def\<close>)

lemma dec_int_reads_on:
  assumes "dec_int env st = (v, st')"
  shows "reads_on (b_in st) (b_in st')" and "in_more (b_in st) \<Longrightarrow> is_pos (b_in st) < is_pos (b_in st')"
proof -
  let ?s = "in_ignore (b_in st)"
  let ?s1 = "snd (in_get_until 0x65 ?s)"
  have t: "b_in st' = snd (in_get_char (be_undef env (is_pos ?s1)) ?s1)"
    using assms by (auto simp: dec_int_def Let_def split: prod.splits)
  have r: "reads_on ?s (b_in st')" unfolding t by (rule reads_on_trans [OF in_reads_on(5) in_reads_on(4)])
  then show "reads_on (b_in st) (b_in st')" using in_reads_on(2) reads_on_trans by blast
  show "in_more (b_in st) \<Longrightarrow> is_pos (b_in st) < is_pos (b_in st')"
    using r in_ignore_more [of "b_in st"] by (auto simp: reads_on_def)
qed

text \<open>What is known of a call that returns.\<close>

definition decodes_on :: "(ben_data option \<times> ben_state) result \<Rightarrow> istream \<Rightarrow> bool" where
  "decodes_on m s \<longleftrightarrow> (\<forall>v st'. m = Inr (v, st') \<longrightarrow> in_bounds s \<longrightarrow> reads_on s (b_in st'))"

lemma decodes_on_bind: "decodes_on m t \<Longrightarrow> reads_on s t \<Longrightarrow> decodes_on m s"
  unfolding decodes_on_def using reads_on_trans in_bounds_reads_on by blast

lemma decodes_on_Inr: "decodes_on (Inr (v, st')) s \<longleftrightarrow> (in_bounds s \<longrightarrow> reads_on s (b_in st'))"
  by (simp add: decodes_on_def)

definition decodes_more :: "(ben_data option \<times> ben_state) result \<Rightarrow> istream \<Rightarrow> bool" where
  "decodes_more m s \<longleftrightarrow> (\<forall>v st'. m = Inr (Some v, st') \<longrightarrow> in_bounds s \<longrightarrow> is_pos s < is_pos (b_in st'))"

lemma decodes_more_bind: "decodes_on m t \<Longrightarrow> reads_on s t \<Longrightarrow> is_pos s < is_pos t \<Longrightarrow> decodes_more m s"
  unfolding decodes_on_def decodes_more_def
  by (metis in_bounds_reads_on reads_on_def less_le_trans)

lemma dec_str_reads_on:
  assumes "in_more (b_in st)" "is_data (b_in st) ! is_pos (b_in st) \<noteq> 0x3A"
  shows "decodes_on (dec_str env st) (b_in st) \<and> decodes_more (dec_str env st) (b_in st)"
  using assms read_str_reads_on [of env "b_in st"]
  by (auto simp: decodes_on_def decodes_more_def dec_str_def bindR_eq_Inr)

lemma ben_calls_read_on:
  "ben_decode_dec_dict_dec_list_dom (Inl (env, st)) \<Longrightarrow>
     decodes_on (ben_decode env st) (b_in st) \<and> decodes_more (ben_decode env st) (b_in st)"
  "ben_decode_dec_dict_dec_list_dom (Inr (Inl (env, d, st))) \<Longrightarrow> decodes_on (dec_dict env d st) (b_in st)"
  "ben_decode_dec_dict_dec_list_dom (Inr (Inr (env, l, st))) \<Longrightarrow> decodes_on (dec_list env l st) (b_in st)"
proof (induction env st and env d st and env l st rule: ben_decode_dec_dict_dec_list.pinduct)
  case (1 env st)
  obtain c s where c: "in_peek (b_in st) = (c, s)" by (cases "in_peek (b_in st)")
  show ?case
  proof (cases "c = 0xFF")
    case True
    then show ?thesis
      using c in_reads_on(1) [of "b_in st"]
      by (simp add: ben_decode.psimps [OF "1.hyps"] decodes_on_def decodes_more_def)
  next
    case False
    with c have m: "in_more (b_in st)" "s = b_in st" "c = is_data (b_in st) ! is_pos (b_in st)"
      using in_peek_more by auto
    have i: "reads_on (b_in st) (in_ignore (b_in st))" "is_pos (b_in st) < is_pos (in_ignore (b_in st))"
      using in_reads_on(2) in_ignore_more m(1) by auto
    consider "c = 0x64" | "c = 0x6C" | "c = 0x69" | "0x30 \<le> c" "c \<le> 0x39" | "c \<noteq> 0x64" "c \<noteq> 0x6C" "c \<noteq> 0x69" "\<not> (0x30 \<le> c \<and> c \<le> 0x39)"
      by blast
    then show ?thesis
    proof cases
      case 1
      then have "decodes_on (dec_dict env [] (st\<lparr>b_in := in_ignore s\<rparr>)) (in_ignore (b_in st))"
        using "1.IH"(1) [OF refl c [symmetric]] m(2) by simp
      with 1 i m(2) c show ?thesis
        by (auto simp: ben_decode.psimps [OF "1.hyps"] intro: decodes_on_bind decodes_more_bind)
    next
      case 2
      then have "decodes_on (dec_list env [] (st\<lparr>b_in := in_ignore s\<rparr>)) (in_ignore (b_in st))"
        using "1.IH"(2) [OF refl c [symmetric]] m(2) by simp
      with 2 i m(2) c show ?thesis
        by (auto simp: ben_decode.psimps [OF "1.hyps"] intro: decodes_on_bind decodes_more_bind)
    next
      case 3
      obtain v st' where d: "dec_int env st = (v, st')" by (cases "dec_int env st")
      from 3 m c d dec_int_reads_on [OF d] show ?thesis
        by (simp add: ben_decode.psimps [OF "1.hyps"] decodes_on_def decodes_more_def)
    next
      case 4
      then have "c \<noteq> 0x3A" "c \<noteq> 0x64" "c \<noteq> 0x6C" "c \<noteq> 0x69" by (auto simp: word_le_nat_alt)
      with 4 m c dec_str_reads_on [of st env] show ?thesis
        by (simp add: ben_decode.psimps [OF "1.hyps"])
    next
      case 5
      with m c show ?thesis
        by (auto simp: ben_decode.psimps [OF "1.hyps"] decodes_on_def decodes_more_def)
    qed
  qed
next
  case (2 env dict st)
  show ?case
  proof (cases "is_eof (b_in st)")
    case True
    then show ?thesis by (simp add: dec_dict.psimps [OF "2.hyps"] decodes_on_Inr)
  next
    case eof: False
    obtain c s where c: "in_peek (b_in st) = (c, s)" by (cases "in_peek (b_in st)")
    have r: "reads_on (b_in st) s" using in_reads_on(1) [of "b_in st"] c by simp
    show ?thesis
    proof (cases "c = 0x65 \<or> \<not> (0x30 \<le> c \<and> c \<le> 0x39)")
      case True
      then show ?thesis
        using c eof r reads_on_trans [OF r in_reads_on(3)] by (auto simp: dec_dict.psimps [OF "2.hyps"] decodes_on_Inr)
    next
      case False
      {
        fix v st' assume e: "dec_dict env dict st = Inr (v, st')" and b: "in_bounds (b_in st)"
        from e False eof c obtain key s1 where k: "read_str env s = Inr (key, s1)"
          and kk: "(case key of None \<Rightarrow> Inr (None, st\<lparr>b_in := s1\<rparr>)
          | Some k \<Rightarrow>
              let (pos, s2) = in_tellg s1 in
              bindR (ben_decode env (st\<lparr>b_in := s2\<rparr>)) (\<lambda>(value, st1).
                case value of
                  None \<Rightarrow> Inr (None, st1)
                | Some v \<Rightarrow>
                    bindR (dict_insert k v dict) (\<lambda>dict1.
                      bindR (note_info env k pos st1) (\<lambda>st2. dec_dict env dict1 st2)))) = Inr (v, st')"
          by (auto simp: dec_dict.psimps [OF "2.hyps"] bindR_eq_Inr)
        have r1: "reads_on (b_in st) s1" using read_str_reads_on(1) [OF k] r reads_on_trans by blast
        have "reads_on (b_in st) (b_in st')"
        proof (cases key)
          case None
          with kk r1 show ?thesis by auto
        next
          case (Some k1)
          obtain pos s2 where t: "in_tellg s1 = (pos, s2)" by (cases "in_tellg s1")
          have r2: "reads_on (b_in st) s2" using in_reads_on(7) [of s1] t r1 reads_on_trans by fastforce
          from kk Some t obtain val st1 where d: "ben_decode env (st\<lparr>b_in := s2\<rparr>) = Inr (val, st1)"
            and dd: "(case val of None \<Rightarrow> Inr (None, st1)
                | Some v \<Rightarrow> bindR (dict_insert k1 v dict) (\<lambda>dict1.
                      bindR (note_info env k1 pos st1) (\<lambda>st2. dec_dict env dict1 st2))) = Inr (v, st')"
            by (auto simp: bindR_eq_Inr)
          have "decodes_on (ben_decode env (st\<lparr>b_in := s2\<rparr>)) s2"
            using "2.IH"(1) [OF eof refl c [symmetric] _ _ k refl Some refl t [symmetric]] False by simp
          with d b r2 in_bounds_reads_on have "reads_on s2 (b_in st1)" by (auto simp: decodes_on_def)
          with r2 have r3: "reads_on (b_in st) (b_in st1)" using reads_on_trans by blast
          show ?thesis
          proof (cases val)
            case None
            with dd r3 show ?thesis by auto
          next
            case (Some v1)
            with dd obtain dict1 st2 where n: "dict_insert k1 v1 dict = Inr dict1" "note_info env k1 pos st1 = Inr st2"
              and l: "dec_dict env dict1 st2 = Inr (v, st')" by (auto simp: bindR_eq_Inr)
            have "in_bounds (b_in st1)" using b r3 in_bounds_reads_on by blast
            from note_info_reads_on [OF n(2) this] r3 have r4: "reads_on (b_in st) (b_in st2)" using reads_on_trans by blast
            have "decodes_on (dec_dict env dict1 st2) (b_in st2)"
              using "2.IH"(2) [OF eof refl c [symmetric] _ _ k refl \<open>key = Some k1\<close> refl t [symmetric] d refl Some n] False by simp
            with l b r4 in_bounds_reads_on have "reads_on (b_in st2) (b_in st')" by (auto simp: decodes_on_def)
            with r4 show ?thesis using reads_on_trans by blast
          qed
        qed
      }
      then show ?thesis by (simp add: decodes_on_def)
    qed
  qed
next
  case (3 env l st)
  obtain c s where c: "in_peek (b_in st) = (c, s)" by (cases "in_peek (b_in st)")
  have r: "reads_on (b_in st) s" using in_reads_on(1) [of "b_in st"] c by simp
  show ?case
  proof (cases "c = 0x65")
    case True
    then show ?thesis using c reads_on_trans [OF r in_reads_on(3)] by (simp add: dec_list.psimps [OF "3.hyps"] decodes_on_Inr)
  next
    case False
    {
      fix v st' assume e: "dec_list env l st = Inr (v, st')" and b: "in_bounds (b_in st)"
      from e False c obtain val st1 where d: "ben_decode env (st\<lparr>b_in := s\<rparr>) = Inr (val, st1)"
        and dd: "(case val of None \<Rightarrow> Inr (None, st1) | Some v \<Rightarrow> dec_list env (ben_push_back v l) st1) = Inr (v, st')"
        by (auto simp: dec_list.psimps [OF "3.hyps"] bindR_eq_Inr)
      have "decodes_on (ben_decode env (st\<lparr>b_in := s\<rparr>)) s" using "3.IH"(1) [OF refl c [symmetric] False] by simp
      with d b r in_bounds_reads_on have "reads_on s (b_in st1)" by (auto simp: decodes_on_def)
      with r have r1: "reads_on (b_in st) (b_in st1)" using reads_on_trans by blast
      have "reads_on (b_in st) (b_in st')"
      proof (cases val)
        case None
        with dd r1 show ?thesis by auto
      next
        case (Some v1)
        with "3.IH"(2) [OF refl c [symmetric] False d refl Some] dd b r1 in_bounds_reads_on
        have "reads_on (b_in st1) (b_in st')" by (auto simp: decodes_on_def)
        with r1 show ?thesis using reads_on_trans by blast
      qed
    }
    then show ?thesis by (simp add: decodes_on_def)
  qed
qed

lemma dict_step:
  assumes "in_peek s0 = (c, s)" "0x30 \<le> c \<and> c \<le> 0x39" "read_str env s = Inr (key, s1)" "in_tellg s1 = (pos, s2)"
  shows "is_data s2 = is_data s0 \<and> is_pos s0 < is_pos s2 \<and> in_bounds s2 \<and> in_more s0"
proof -
  from assms(2) have "c \<noteq> 0xFF" "c \<noteq> 0x3A" by (auto simp: word_le_nat_alt)
  with assms(1) have m: "in_more s0" "s = s0" "is_data s0 ! is_pos s0 \<noteq> 0x3A" using in_peek_more [OF assms(1)] by auto
  with read_str_reads_on [OF assms(3)] have "reads_on s0 s1" "is_pos s0 < is_pos s1" by auto
  moreover from this(1) in_reads_on(7) [of s1] assms(4) have r: "reads_on s0 s2" "reads_on s1 s2"
    using reads_on_trans by fastforce+
  ultimately show ?thesis
    using m(1) in_bounds_reads_on [OF r(1)] in_more_bounds [of s0] by (auto simp: reads_on_def)
qed

lemma ben_decode_more:
  assumes "ben_decode_dec_dict_dec_list_dom (Inl (env, st))" "ben_decode env st = Inr (Some v, st')"
  shows "in_more (b_in st)"
proof -
  obtain c s where c: "in_peek (b_in st) = (c, s)" by (cases "in_peek (b_in st)")
  have "c \<noteq> 0xFF" using assms(2) c by (auto simp: ben_decode.psimps [OF assms(1)])
  with c show ?thesis using in_peek_more by blast
qed

termination ben_decode
proof (relation "measure (\<lambda>x. case x of
    Inl (env, st) \<Rightarrow> 2 * (length (is_data (b_in st)) - is_pos (b_in st))
  | Inr (Inl (env, d, st)) \<Rightarrow> 2 * (length (is_data (b_in st)) - is_pos (b_in st)) + 1
  | Inr (Inr (env, l, st)) \<Rightarrow> 2 * (length (is_data (b_in st)) - is_pos (b_in st)) + 1)", goal_cases)
  case (2 env st x c s)
  then have "in_more (b_in st)" "s = b_in st" using in_peek_more [of "b_in st" c s] by auto
  then show ?case by (auto simp: in_ignore_def in_more_def)
next
  case (3 env st x c s)
  then have "in_more (b_in st)" "s = b_in st" using in_peek_more [of "b_in st" c s] by auto
  then show ?case by (auto simp: in_ignore_def in_more_def)
next
  case (4 env dict st x c s xb key s1 k xd pos s2)
  then show ?case using dict_step [of "b_in st" c s env key s1 pos s2] by auto
next
  case (5 env dict st x c s xb key s1 k xd pos s2 xf val st1 v dict1 st2)
  then have k: "is_data s2 = is_data (b_in st)" "is_pos (b_in st) < is_pos s2" "in_bounds s2"
    using dict_step [of "b_in st" c s env key s1 pos s2] by auto
  from 5 ben_calls_read_on(1) [of env "st\<lparr>b_in := s2\<rparr>"] k(3) have r: "reads_on s2 (b_in st1)"
    by (auto simp: decodes_on_def)
  then have "in_bounds (b_in st1)" using k(3) in_bounds_reads_on by blast
  with 5 have "reads_on (b_in st1) (b_in st2)" using note_info_reads_on by blast
  with r have "reads_on s2 (b_in st2)" by (rule reads_on_trans)
  with k show ?case by (auto simp: reads_on_def in_bounds_def)
next
  case (6 env l st x c s)
  then have "is_pos s = is_pos (b_in st)" "is_data s = is_data (b_in st)" by (auto simp: in_peek_def split: if_splits)
  then show ?case by simp
next
  case (7 env l st x c s xb val st1 v)
  then have p: "is_pos s = is_pos (b_in st)" "is_data s = is_data (b_in st)" by (auto simp: in_peek_def split: if_splits)
  have d: "ben_decode env (st\<lparr>b_in := s\<rparr>) = Inr (Some v, st1)" using 7 by simp
  have m: "in_more s" using ben_decode_more [of env "st\<lparr>b_in := s\<rparr>" v st1] 7 d by simp
  with 7 d ben_calls_read_on(1) [of env "st\<lparr>b_in := s\<rparr>"] in_more_bounds [of s]
  have "reads_on s (b_in st1)" "is_pos s < is_pos (b_in st1)" by (auto simp: decodes_on_def decodes_more_def)
  with m p show ?case by (auto simp: reads_on_def in_more_def)
qed simp

declare ben_decode.simps [simp del] dec_dict.simps [simp del] dec_list.simps [simp del]

text \<open>
  \<open>decode\<close> of a whole stream: nothing may follow the data. The result is what the function returns,
  \<open>m_data\<close>, and the decoder.
\<close>

definition decode_all :: "ben_env \<Rightarrow> ben_state \<Rightarrow> (bool \<times> ben_data option \<times> ben_state) result" where
  "decode_all env st =
     bindR (ben_decode env st) (\<lambda>(data, st1).
       case data of
         None \<Rightarrow> Inr (False, None, st1)
       | Some v \<Rightarrow> let s = in_get (b_in st1) in Inr (\<not> in_good s, Some v, st1\<lparr>b_in := s\<rparr>))"

section \<open>The encoders\<close>

text \<open>A string from the start of its array, with its length in front.\<close>

definition encode_str :: "cdpi_bytes \<Rightarrow> byte list result" where
  "encode_str b = bindR (rdsi (ptr_mem b) 0 (m_len b)) (\<lambda>bs. Inr (int_text (m_len b) @ str '':'' @ bs))"

definition encode_integer :: "int \<Rightarrow> byte list" where
  "encode_integer n = str ''i'' @ int_text n @ str ''e''"

fun ben_encode :: "ben_data \<Rightarrow> byte list result"
  and encode_list :: "ben_data list \<Rightarrow> byte list result"
  and encode_dict :: "(cdpi_bytes \<times> ben_data) list \<Rightarrow> byte list result" where
  "ben_encode (Ben_dict m) = bindR (encode_dict m) (\<lambda>bs. Inr (str ''d'' @ bs @ str ''e''))"
| "ben_encode (Ben_list l) = bindR (encode_list l) (\<lambda>bs. Inr (str ''l'' @ bs @ str ''e''))"
| "ben_encode (Ben_int n) = Inr (encode_integer n)"
| "ben_encode (Ben_str b) = encode_str b"
| "encode_list [] = Inr []"
| "encode_list (d # l) = bindR (ben_encode d) (\<lambda>xs. bindR (encode_list l) (\<lambda>ys. Inr (xs @ ys)))"
| "encode_dict [] = Inr []"
| "encode_dict ((k, d) # m) =
     bindR (encode_str k) (\<lambda>ks. bindR (ben_encode d) (\<lambda>xs. bindR (encode_dict m) (\<lambda>ys. Inr (ks @ xs @ ys))))"

text \<open>
  The encoder into an \<open>evbuffer\<close> adds one piece after the other to what the buffer holds, a number
  with \<open>printf\<close>.
\<close>

definition evbuffer_str :: "cdpi_bytes \<Rightarrow> byte list \<Rightarrow> byte list result" where
  "evbuffer_str b buf =
     (let buf1 = buf @ int_text (m_len b) @ str '':''
      in bindR (rdsi (ptr_mem b) 0 (m_len b)) (\<lambda>bs. Inr (buf1 @ bs)))"

definition evbuffer_integer :: "int \<Rightarrow> byte list \<Rightarrow> byte list" where
  "evbuffer_integer n buf = buf @ str ''i'' @ int_text n @ str ''e''"

fun evbuffer_encode :: "ben_data \<Rightarrow> byte list \<Rightarrow> byte list result"
  and evbuffer_list :: "ben_data list \<Rightarrow> byte list \<Rightarrow> byte list result"
  and evbuffer_dict :: "(cdpi_bytes \<times> ben_data) list \<Rightarrow> byte list \<Rightarrow> byte list result" where
  "evbuffer_encode (Ben_dict m) buf = bindR (evbuffer_dict m (buf @ str ''d'')) (\<lambda>buf1. Inr (buf1 @ str ''e''))"
| "evbuffer_encode (Ben_list l) buf = bindR (evbuffer_list l (buf @ str ''l'')) (\<lambda>buf1. Inr (buf1 @ str ''e''))"
| "evbuffer_encode (Ben_int n) buf = Inr (evbuffer_integer n buf)"
| "evbuffer_encode (Ben_str b) buf = evbuffer_str b buf"
| "evbuffer_list [] buf = Inr buf"
| "evbuffer_list (d # l) buf = bindR (evbuffer_encode d buf) (evbuffer_list l)"
| "evbuffer_dict [] buf = Inr buf"
| "evbuffer_dict ((k, d) # m) buf =
     bindR (evbuffer_str k buf) (\<lambda>buf1. bindR (evbuffer_encode d buf1) (evbuffer_dict m))"

end
