(* ===== verification/Bencode_Codec.thy ===== *)
theory Bencode_Codec
  imports Bencode
begin

text \<open>
  The codec of bencoded data: the two encoders agree, what is encoded is decoded, with the info hash
  of its specification, and the lengths that the decoder does not check.
\<close>

section \<open>The encoders agree\<close>

lemma bindR_assoc: "bindR (bindR m f) g = bindR m (\<lambda>x. bindR (f x) g)"
  by (cases m) simp_all

lemma evbuffer_str_encode: "evbuffer_str b buf = bindR (encode_str b) (\<lambda>bs. Inr (buf @ bs))"
  by (simp add: evbuffer_str_def encode_str_def Let_def bindR_assoc)

text \<open>
  The two encoders write the same bytes: encoding into a buffer appends to it what the other one
  writes to a stream, and fails when it does.
\<close>

theorem ben_evbuffer_encode:
  "evbuffer_encode d buf = bindR (ben_encode d) (\<lambda>bs. Inr (buf @ bs))"
proof -
  have "evbuffer_encode d buf = bindR (ben_encode d) (\<lambda>bs. Inr (buf @ bs))"
    "evbuffer_list l buf = bindR (encode_list l) (\<lambda>bs. Inr (buf @ bs))"
    "evbuffer_dict m buf = bindR (encode_dict m) (\<lambda>bs. Inr (buf @ bs))" for l m
    by (induction d buf and l buf and m buf rule: evbuffer_encode_evbuffer_list_evbuffer_dict.induct)
      (simp_all add: bindR_assoc evbuffer_str_encode evbuffer_integer_def encode_integer_def bindR_def split: sum.splits prod.splits)
  then show ?thesis by blast
qed

section \<open>What is encoded is decoded\<close>

text \<open>A string as the decoder builds it, and data of such strings, with the keys in ascending order.\<close>

definition ben_str :: "byte list \<Rightarrow> cdpi_bytes" where
  "ben_str w = \<lparr>m_ptr = Some (w @ [0]), m_pos = 0, m_len = int (length w)\<rparr>"

definition canon_str :: "cdpi_bytes \<Rightarrow> bool" where
  "canon_str b \<longleftrightarrow> b = ben_str (block_bytes b) \<and> m_len b < 2147483647"

fun canon :: "ben_data \<Rightarrow> bool"
  and canon_list :: "ben_data list \<Rightarrow> bool"
  and canon_dict :: "(cdpi_bytes \<times> ben_data) list \<Rightarrow> bool" where
  "canon (Ben_dict m) \<longleftrightarrow> canon_dict m \<and> sorted_wrt (<) (map (block_bytes \<circ> fst) m)"
| "canon (Ben_list l) \<longleftrightarrow> canon_list l"
| "canon (Ben_int n) \<longleftrightarrow> - 2147483648 \<le> n \<and> n < 2147483648"
| "canon (Ben_str b) \<longleftrightarrow> canon_str b"
| "canon_list [] \<longleftrightarrow> True"
| "canon_list (d # l) \<longleftrightarrow> canon d \<and> canon_list l"
| "canon_dict [] \<longleftrightarrow> True"
| "canon_dict ((k, d) # m) \<longleftrightarrow> canon_str k \<and> canon d \<and> canon_dict m"

lemma block_bytes_ben_str [simp]: "block_bytes (ben_str w) = w"
  and wf_block_ben_str [simp]: "wf_block (ben_str w)"
  and m_len_ben_str [simp]: "m_len (ben_str w) = int (length w)"
  and encode_ben_str: "encode_str (ben_str w) = Inr (num_text 10 (length w) @ [0x3A] @ w)"
  by (simp_all add: block_bytes_def wf_block_def ben_str_def ptr_mem_def encode_str_def rdsi_def rds_def int_text_def str_def)

text \<open>The bytes of encoded data, and the hash that its dictionaries leave behind.\<close>

definition enc_str :: "cdpi_bytes \<Rightarrow> byte list" where
  "enc_str b = num_text 10 (length (block_bytes b)) @ [0x3A] @ block_bytes b"

fun enc :: "ben_data \<Rightarrow> byte list"
  and enc_list :: "ben_data list \<Rightarrow> byte list"
  and enc_dict :: "(cdpi_bytes \<times> ben_data) list \<Rightarrow> byte list" where
  "enc (Ben_dict m) = [0x64] @ enc_dict m @ [0x65]"
| "enc (Ben_list l) = [0x6C] @ enc_list l @ [0x65]"
| "enc (Ben_int n) = [0x69] @ int_text n @ [0x65]"
| "enc (Ben_str b) = enc_str b"
| "enc_list [] = []"
| "enc_list (d # l) = enc d @ enc_list l"
| "enc_dict [] = []"
| "enc_dict ((k, d) # m) = enc_str k @ enc d @ enc_dict m"

fun ben_hash :: "ben_env \<Rightarrow> ben_data \<Rightarrow> byte list option \<Rightarrow> byte list option"
  and hash_list :: "ben_env \<Rightarrow> ben_data list \<Rightarrow> byte list option \<Rightarrow> byte list option"
  and hash_dict :: "ben_env \<Rightarrow> (cdpi_bytes \<times> ben_data) list \<Rightarrow> byte list option \<Rightarrow> byte list option" where
  "ben_hash env (Ben_dict m) h = hash_dict env m h"
| "ben_hash env (Ben_list l) h = hash_list env l h"
| "ben_hash env (Ben_int n) h = h"
| "ben_hash env (Ben_str b) h = h"
| "hash_list env [] h = h"
| "hash_list env (d # l) h = hash_list env l (ben_hash env d h)"
| "hash_dict env [] h = h"
| "hash_dict env ((k, d) # m) h =
     hash_dict env m (if is_info_key k then Some (be_digest env (enc d)) else ben_hash env d h)"

lemma encode_enc:
  "canon d \<Longrightarrow> ben_encode d = Inr (enc d)"
  "canon_list l \<Longrightarrow> encode_list l = Inr (enc_list l)"
  "canon_dict m \<Longrightarrow> encode_dict m = Inr (enc_dict m)"
proof (induction d and l and m rule: canon_canon_list_canon_dict.induct)
  case (4 b)
  then show ?case using encode_ben_str [of "block_bytes b"] by (simp add: canon_str_def enc_str_def)
next
  case (8 k d m)
  then show ?case using encode_ben_str [of "block_bytes k"] by (simp add: canon_str_def enc_str_def)
qed (simp_all add: encode_integer_def str_def)

text \<open>The stream holds the bytes \<open>bs\<close> at its position, and the stream behind them.\<close>

definition at_bytes :: "istream \<Rightarrow> byte list \<Rightarrow> bool" where
  "at_bytes s bs \<longleftrightarrow> in_good s \<and> in_bounds s \<and> (\<exists>r. drop (is_pos s) (is_data s) = bs @ r)"

definition past :: "nat \<Rightarrow> istream \<Rightarrow> istream" where
  "past n s = s\<lparr>is_pos := is_pos s + n\<rparr>"

lemma past_simps [simp]: "past 0 s = s" "past m (past n s) = past (n + m) s" "is_data (past n s) = is_data s"
  "is_pos (past n s) = is_pos s + n" "is_eof (past n s) = is_eof s" "is_fail (past n s) = is_fail s"
  "in_good (past n s) = in_good s"
  by (simp_all add: past_def in_good_def add.assoc)

lemma at_bytes_append: "at_bytes s (xs @ ys) \<longleftrightarrow> at_bytes s xs \<and> at_bytes (past (length xs) s) ys"
proof -
  have D: "(\<exists>r. D = (xs @ ys) @ r) \<longleftrightarrow> (\<exists>r. D = xs @ r) \<and> (\<exists>r. drop (length xs) D = ys @ r)" for D
    by auto
  have "drop (length xs) (drop (is_pos s) (is_data s)) = drop (is_pos s + length xs) (is_data s)"
    by (simp add: add.commute)
  moreover have "in_bounds (past (length xs) s)" if "drop (is_pos s) (is_data s) = xs @ r" "in_bounds s" for r
  proof -
    from arg_cong [OF that(1), of length] have "length (is_data s) - is_pos s = length xs + length r" by simp
    with that(2) show ?thesis by (simp add: in_bounds_def)
  qed
  ultimately show ?thesis using D [of "drop (is_pos s) (is_data s)"] by (auto simp: at_bytes_def)
qed

lemma at_bytes_tl: "at_bytes s (x # xs) \<Longrightarrow> at_bytes (past 1 s) xs"
  using at_bytes_append [of s "[x]" xs] by simp

text \<open>The operations of the stream on bytes that are there.\<close>

lemma at_bytes_Cons:
  assumes "at_bytes s (x # xs)"
  shows "in_more s" "in_peek s = (x, s)" "in_ignore s = past 1 s" "in_get s = past 1 s" "in_get_char c s = (x, past 1 s)"
proof -
  from assms obtain r where r: "drop (is_pos s) (is_data s) = x # xs @ r" "in_good s" by (auto simp: at_bytes_def)
  then have l: "is_pos s < length (is_data s)" by (metis drop_all list.discI not_le)
  with r show "in_more s" by (simp add: in_more_def)
  moreover have "is_data s ! is_pos s = x" using r(1) l by (simp add: nth_via_drop)
  ultimately show "in_peek s = (x, s)" "in_ignore s = past 1 s" "in_get s = past 1 s" "in_get_char c s = (x, past 1 s)"
    by (simp_all add: in_peek_def in_ignore_def in_get_def in_get_char_def past_def)
qed

lemma at_bytes_until:
  assumes "at_bytes s (xs @ d # ys)" "d \<notin> set xs" "xs \<noteq> []"
  shows "in_get_until d s = (xs, past (length xs) s)"
proof -
  from assms(1) obtain r where r: "drop (is_pos s) (is_data s) = xs @ d # ys @ r" "in_good s" by (auto simp: at_bytes_def)
  moreover have "takeWhile (\<lambda>c. c \<noteq> d) (xs @ d # ys @ r) = xs"
    using assms(2) by (auto simp: takeWhile_append)
  moreover have "is_pos s + length xs < length (is_data s)" using arg_cong [OF r(1), of length] by simp
  ultimately show ?thesis using assms(3) by (simp add: in_get_until_def past_def in_good_def)
qed

lemma at_bytes_read: "at_bytes s xs \<Longrightarrow> in_read (length xs) s = (xs, past (length xs) s)"
proof -
  assume "at_bytes s xs"
  then obtain r where r: "drop (is_pos s) (is_data s) = xs @ r" "in_good s" by (auto simp: at_bytes_def)
  then have "take (length xs) (drop (is_pos s) (is_data s)) = xs" by simp
  with r(2) show ?thesis unfolding in_read_def Let_def by (simp only: if_True) (simp add: past_def in_good_def)
qed

lemma read_str_enc:
  assumes "at_bytes s (enc_str b)" "canon_str b"
  shows "read_str env s = Inr (Some b, past (length (enc_str b)) s)"
proof -
  let ?w = "block_bytes b" and ?t = "num_text 10 (length (block_bytes b))"
  have b1: "b = ben_str ?w" "m_len b < 2147483647" using assms(2) unfolding canon_str_def by blast+
  have "m_len b = int (length ?w)" by (subst b1(1)) simp
  with b1 have b: "b = ben_str ?w" "int (length ?w) < 2147483647" by auto
  have t: "0x3A \<notin> set ?t" using num_text_dec(1) [of "0x3A" "length ?w"] by (auto simp: word_le_nat_alt)
  from assms(1) have s: "at_bytes s (?t @ 0x3A # ?w)" by (simp add: enc_str_def)
  then have s1: "at_bytes (past (length ?t) s) (0x3A # ?w)" by (simp add: at_bytes_append)
  then have "at_bytes (past (length ?t) s) ([0x3A] @ ?w)" by simp
  then have s2: "at_bytes (past (length ?t + 1) s) ?w" unfolding at_bytes_append by simp
  have a: "atoi ?t = int (length ?w)" using atoi_int_text [of "int (length ?w)"] b(2) by (simp add: int_text_def)
  have "sint (word_of_int (int (length ?w) + 1) :: 32 word) = int (length ?w) + 1"
    using b(2) by (subst sint_sbintrunc') (rule signed_take_bit_int_eq_self; simp)
  then have w: "\<not> sint (word_of_int (int (length ?w) + 1) :: 32 word) < 0" by linarith
  from at_bytes_until [OF s t] have u: "in_get_until 0x3A s = (?t, past (length ?t) s)" by simp
  from at_bytes_read [OF s2] have "in_read (length ?w) (past (length ?t + 1) s) = (?w, past (length (enc_str b)) s)"
    by (simp add: enc_str_def)
  with u at_bytes_Cons(5) [OF s1] a w show ?thesis
    by (subst b(1)) (simp add: read_str_def Let_def ben_str_def)
qed


text \<open>A value that was read is read once more for the hash.\<close>

lemma note_info_enc:
  assumes "at_bytes s xs" "b_in st = past (length xs) s"
  shows "\<exists>st'. note_info env k (int (is_pos s)) st = Inr st' \<and> b_in st' = b_in st \<and>
    b_hash st' = (if is_info_key k then Some (be_digest env xs) else b_hash st)"
proof (cases "is_info_key k")
  case True
  have g: "in_good s" "is_pos s \<le> length (is_data s)" "is_pos s + length xs \<le> length (is_data s)"
    using assms(1) at_bytes_append [of s xs "[]"] by (auto simp: at_bytes_def in_bounds_def)
  have "in_seekg (int (is_pos s)) (past (length xs) s) = s"
    using g by (simp add: in_seekg_def past_def in_good_def)
  moreover have "in_seekg (int (is_pos s) + int (length xs)) (past (length xs) s) = past (length xs) s"
    using g by (simp add: in_seekg_def past_def in_good_def nat_add_distrib)
  ultimately show ?thesis
    using True assms g(1) at_bytes_read [OF assms(1)]
    by (simp add: note_info_def calc_info_hash_def in_tellg_def Let_def)
qed (simp add: note_info_def)

lemma dict_insert_last:
  "(\<And>k'. k' \<in> fst ` set m \<Longrightarrow> wf_block k' \<and> block_bytes k' < block_bytes k) \<Longrightarrow> wf_block k \<Longrightarrow>
     dict_insert k v m = Inr (m @ [(k, v)])"
proof (induction m)
  case (Cons p m)
  obtain k' v' where p: "p = (k', v')" by (cases p)
  with Cons.prems(1) [of k'] have k': "wf_block k'" "block_bytes k' < block_bytes k" by auto
  have "\<not> block_bytes k < block_bytes k'" using k'(2) by auto
  with k' bytes_compare [OF k'(1) Cons.prems(2)] bytes_compare [OF Cons.prems(2) k'(1)]
  have "dict_insert k v (p # m) = bindR (dict_insert k v m) (\<lambda>m'. Inr (p # m'))" by (simp add: p)
  with Cons show ?case by simp
qed simp

lemma enc_ne:
  "\<exists>c cs. enc d = c # cs \<and> c \<noteq> 0x65"
  "canon_str k \<Longrightarrow> \<exists>c cs. enc_str k = c # cs \<and> 0x30 \<le> c \<and> c \<le> 0x39"
proof -
  have s: "\<exists>c cs. enc_str k = c # cs \<and> 0x30 \<le> c \<and> c \<le> 0x39" for k
    using num_text_dec(1) [of _ "length (block_bytes k)"]
    by (cases "num_text 10 (length (block_bytes k))") (auto simp: enc_str_def dest: num_text_ne [THEN notE])
  show "\<exists>c cs. enc d = c # cs \<and> c \<noteq> 0x65"
  proof (cases d)
    case (Ben_str b)
    with s [of b] show ?thesis by (auto simp: word_le_nat_alt)
  qed auto
  show "\<exists>c cs. enc_str k = c # cs \<and> 0x30 \<le> c \<and> c \<le> 0x39" by (rule s)
qed


lemma decode_enc:
  "canon d \<Longrightarrow> at_bytes (b_in st) (enc d) \<Longrightarrow>
     \<exists>st'. ben_decode env st = Inr (Some d, st') \<and> b_in st' = past (length (enc d)) (b_in st) \<and>
       b_hash st' = ben_hash env d (b_hash st)"
  "canon_list l \<Longrightarrow> at_bytes (b_in st) (enc_list l @ [0x65]) \<Longrightarrow>
     \<exists>st'. dec_list env l0 st = Inr (Some (Ben_list (l0 @ l)), st') \<and>
       b_in st' = past (length (enc_list l) + 1) (b_in st) \<and> b_hash st' = hash_list env l (b_hash st)"
  "canon_dict m \<Longrightarrow> sorted_wrt (<) (map (block_bytes \<circ> fst) (m0 @ m)) \<Longrightarrow> (\<And>k. k \<in> fst ` set m0 \<Longrightarrow> wf_block k) \<Longrightarrow>
     at_bytes (b_in st) (enc_dict m @ [0x65]) \<Longrightarrow>
     \<exists>st'. dec_dict env m0 st = Inr (Some (Ben_dict (m0 @ m)), st') \<and>
       b_in st' = past (length (enc_dict m) + 1) (b_in st) \<and> b_hash st' = hash_dict env m (b_hash st)"
proof (induction d and l and m arbitrary: st and l0 st and m0 st rule: canon_canon_list_canon_dict.induct)
  case (1 m)
  let ?s = "past 1 (b_in st)"
  have h: "at_bytes (b_in st) (0x64 # enc_dict m @ [0x65])" using "1.prems"(2) by simp
  from at_bytes_tl [OF h] have "at_bytes ?s (enc_dict m @ [0x65])" .
  then have "\<exists>st'. dec_dict env [] (st\<lparr>b_in := ?s\<rparr>) = Inr (Some (Ben_dict ([] @ m)), st') \<and>
       b_in st' = past (length (enc_dict m) + 1) (b_in (st\<lparr>b_in := ?s\<rparr>)) \<and>
       b_hash st' = hash_dict env m (b_hash (st\<lparr>b_in := ?s\<rparr>))"
    using "1.prems"(1) by (intro "1.IH") (simp_all add: comp_def)
  then show ?case by (simp add: ben_decode.simps [of env st] at_bytes_Cons [OF h])
next
  case (2 l)
  let ?s = "past 1 (b_in st)"
  have h: "at_bytes (b_in st) (0x6C # enc_list l @ [0x65])" using "2.prems"(2) by simp
  from at_bytes_tl [OF h] have "at_bytes ?s (enc_list l @ [0x65])" .
  with "2.IH" [of "st\<lparr>b_in := ?s\<rparr>" "[]"] "2.prems"(1) show ?case
    by (simp add: ben_decode.simps [of env st] at_bytes_Cons [OF h])
next
  case (3 n)
  let ?s = "past 1 (b_in st)"
  have h: "at_bytes (b_in st) (0x69 # int_text n @ [0x65])" using "3.prems"(2) by simp
  from at_bytes_tl [OF h] have s: "at_bytes ?s (int_text n @ [0x65])" .
  then have e: "at_bytes (past (length (int_text n)) ?s) [0x65]" unfolding at_bytes_append by simp
  have "0x65 \<notin> set (int_text n)" "int_text n \<noteq> []"
    using num_text_dec(1) [of "0x65"] by (auto simp: int_text_def word_le_nat_alt)
  from at_bytes_until [OF s this] have "in_get_until 0x65 ?s = (int_text n, past (length (int_text n)) ?s)" .
  with e at_bytes_Cons(5) [OF e] "3.prems"(1) atoi_int_text [of n] show ?case
    by (simp add: ben_decode.simps [of env st] at_bytes_Cons [OF h] dec_int_def Let_def)
next
  case (4 b)
  from enc_ne(2) [of b] "4.prems" obtain c cs where c: "enc_str b = c # cs" "0x30 \<le> c" "c \<le> 0x39" by auto
  then have c1: "c \<noteq> 0x64" "c \<noteq> 0x6C" "c \<noteq> 0x69" by (auto simp: word_le_nat_alt)
  have "at_bytes (b_in st) (c # cs)" using "4.prems"(2) c by simp
  with read_str_enc [of "b_in st" b env] "4.prems" c c1 show ?case
    by (simp add: ben_decode.simps [of env st] at_bytes_Cons dec_str_def)
next
  case 5
  then have h: "at_bytes (b_in st) [0x65]" by simp
  show ?case by (simp add: dec_list.simps [of env l0 st] at_bytes_Cons [OF h])
next
  case (6 d l)
  from enc_ne(1) [of d] obtain c cs where c: "enc d = c # cs" "c \<noteq> 0x65" by auto
  have h: "at_bytes (b_in st) (enc d @ enc_list l @ [0x65])" using "6.prems"(2) by simp
  then have h1: "at_bytes (b_in st) (enc d)" "at_bytes (past (length (enc d)) (b_in st)) (enc_list l @ [0x65])"
    by (simp_all only: at_bytes_append)
  have p: "in_peek (b_in st) = (c, b_in st)" using h1(1) c(1) at_bytes_Cons(2) by simp
  from "6.IH"(1) [OF _ h1(1)] "6.prems"(1) obtain st1 where d: "ben_decode env st = Inr (Some d, st1)"
    "b_in st1 = past (length (enc d)) (b_in st)" "b_hash st1 = ben_hash env d (b_hash st)" by auto
  with "6.IH"(2) [of st1 "l0 @ [d]"] "6.prems"(1) h1(2) show ?case
    by (simp add: dec_list.simps [of env l0 st] p c(2) ben_push_back_def ac_simps)
next
  case 7
  then have h: "at_bytes (b_in st) [0x65]" by simp
  then have "\<not> is_eof (b_in st)" by (simp add: at_bytes_def in_good_def)
  then show ?case by (simp add: dec_dict.simps [of env m0 st] at_bytes_Cons [OF h])
next
  case (8 k d m)
  have k: "canon_str k" "canon d" "canon_dict m" using "8.prems"(1) by simp_all
  then have wk: "wf_block k" unfolding canon_str_def by (metis wf_block_ben_str)
  from enc_ne(2) [OF k(1)] obtain c cs where c: "enc_str k = c # cs" "0x30 \<le> c" "c \<le> 0x39" by auto
  then have c1: "c \<noteq> 0x65" by (auto simp: word_le_nat_alt)
  have h: "at_bytes (b_in st) (enc_str k @ enc d @ enc_dict m @ [0x65])" using "8.prems"(4) by simp
  let ?s = "past (length (enc_str k)) (b_in st)"
  have h1: "at_bytes (b_in st) (enc_str k)" "at_bytes ?s (enc d)" "at_bytes (past (length (enc d)) ?s) (enc_dict m @ [0x65])"
    using h by (simp_all only: at_bytes_append)
  have g: "\<not> is_eof (b_in st)" "in_good ?s" using h1(1) by (simp_all add: at_bytes_def in_good_def)
  have p: "in_peek (b_in st) = (c, b_in st)" using h1(1) c(1) at_bytes_Cons(2) by simp
  from "8.IH"(1) [OF k(2), of "st\<lparr>b_in := ?s\<rparr>"] h1(2) obtain st1 where d: "ben_decode env (st\<lparr>b_in := ?s\<rparr>) = Inr (Some d, st1)"
    "b_in st1 = past (length (enc d)) ?s" "b_hash st1 = ben_hash env d (b_hash st)" by auto
  from note_info_enc [OF h1(2) d(2), of env k] obtain st2 where n: "note_info env k (int (is_pos ?s)) st1 = Inr st2"
    "b_in st2 = b_in st1" "b_hash st2 = (if is_info_key k then Some (be_digest env (enc d)) else b_hash st1)" by blast
  have i: "dict_insert k d m0 = Inr (m0 @ [(k, d)])"
    using "8.prems"(2,3) by (intro dict_insert_last wk) (auto simp: sorted_wrt_append)
  have "dec_dict env m0 st = dec_dict env (m0 @ [(k, d)]) st2"
    using g c c1 p read_str_enc [OF h1(1) k(1), of env] d(1) n(1) i
    by (simp add: dec_dict.simps [of env m0 st] in_tellg_def)
  moreover have "\<exists>st'. dec_dict env (m0 @ [(k, d)]) st2 = Inr (Some (Ben_dict ((m0 @ [(k, d)]) @ m)), st') \<and>
       b_in st' = past (length (enc_dict m) + 1) (b_in st2) \<and> b_hash st' = hash_dict env m (b_hash st2)"
    using "8.prems"(2,3) wk h1(3) d(2) n(2) by (intro "8.IH"(2) [OF k(3)]) auto
  ultimately show ?case using d(2,3) n(2,3) by (auto simp: ac_simps)
qed


lemma decode_all_enc:
  assumes "canon d"
  shows "\<exists>st. decode_all env (new_bencode ib ie (enc d)) = Inr (True, Some d, st) \<and> b_hash st = ben_hash env d None"
proof -
  have s: "at_bytes (b_in (new_bencode ib ie (enc d))) (enc d)"
    by (simp add: at_bytes_def new_bencode_def open_stream_def in_good_def in_bounds_def)
  from decode_enc(1) [OF assms s, of env] obtain st where "ben_decode env (new_bencode ib ie (enc d)) = Inr (Some d, st)"
    "b_in st = past (length (enc d)) (open_stream (enc d))" "b_hash st = ben_hash env d None"
    by (auto simp: new_bencode_def)
  then show ?thesis
    by (auto simp: decode_all_def Let_def in_get_def in_more_def in_good_def open_stream_def)
qed

text \<open>
  C10: data that a decoder could have built is decoded from what the encoder writes for it, up to the
  last byte, and the info hash is the one of the specification: the digest of the encoded value of
  the last key that begins with the four letters.
\<close>

theorem ben_roundtrip:
  assumes "canon d"
  shows "\<exists>bs st. ben_encode d = Inr bs \<and> decode_all env (new_bencode ib ie bs) = Inr (True, Some d, st) \<and>
    b_hash st = ben_hash env d None"
  using decode_all_enc [OF assms] encode_enc(1) [OF assms] by blast

definition sample_ben_env :: ben_env where
  "sample_ben_env = \<lparr>be_digest = rev, be_undef = (\<lambda>n. 0), be_fresh = (\<lambda>n. 0)\<rparr>"

definition sample_torrent :: ben_data where
  "sample_torrent = Ben_dict [(ben_str (str ''announce''), Ben_list [Ben_int (- 5), Ben_str (ben_str [])]),
     (ben_str (str ''info''), Ben_dict [(ben_str (str ''name''), Ben_int 0)])]"

lemma canon_ben_str [simp]: "canon_str (ben_str w) \<longleftrightarrow> length w < 2147483647"
  by (simp add: canon_str_def)

lemma sample_canon: "canon sample_torrent"
  by (simp add: sample_torrent_def str_def)

theorem ben_roundtrip_witness:
  "\<exists>bs st. ben_encode sample_torrent = Inr bs \<and> decode_all sample_ben_env (new_bencode 0 0 bs) = Inr (True, Some sample_torrent, st) \<and>
    b_hash st = Some (rev (str ''d4:namei0ee''))"
proof -
  have "ben_hash sample_ben_env sample_torrent None = Some (rev (str ''d4:namei0ee''))"
    by (simp add: sample_torrent_def sample_ben_env_def is_info_key_def ben_str_def ptr_mem_def str_def enc_str_def
        block_bytes_def num_text.simps digit_char_def int_text_def)
  with ben_roundtrip [OF sample_canon, of sample_ben_env 0 0] show ?thesis by metis
qed

section \<open>Lengths that are not checked\<close>

lemma atoi_num_text:
  assumes "n < 9223372036854775808"
  shows "atoi (num_text 10 n) = sint (word_of_int (int n) :: 32 word)"
proof -
  let ?t = "num_text 10 n"
  have "takeWhile (is_digit_of 10) ?t = ?t" using num_text_dec(2) [of _ n] by (subst takeWhile_eq_all_conv) blast
  moreover have h: "hd ?t \<in> set ?t" by simp
  moreover from num_text_dec(3-5) [OF h] have "dropWhile is_space ?t = ?t" "hd ?t \<noteq> 0x2D" "hd ?t \<noteq> 0x2B"
    by (cases ?t; auto)+
  ultimately show ?thesis
    using assms digits_value_num_text [of 10 n] by (simp add: atoi_def clamp_long_def del: takeWhile_eq_all_conv)
qed

text \<open>What \<open>read_str\<close> makes of a length and the bytes that follow it.\<close>

lemma read_str_num:
  assumes "at_bytes s (num_text 10 n @ 0x3A # w)"
  shows "read_str env s =
     (let m = atoi (num_text 10 n); s2 = past (length (num_text 10 n) + 1) s in
      if sint (word_of_int (m + 1) :: 32 word) < 0 then Inl BadAlloc
      else let (bs, s3) = in_read (nat m) s2 in
        if m < 0 then Inl OutOfBounds
        else Inr (Some \<lparr>m_ptr = Some (bs @ map (be_fresh env) [length bs..<nat m] @ [0]), m_pos = 0, m_len = m\<rparr>, s3))"
proof -
  let ?t = "num_text 10 n"
  have t: "0x3A \<notin> set ?t" using num_text_dec(1) [of "0x3A" n] by (auto simp: word_le_nat_alt)
  from assms have "at_bytes (past (length ?t) s) (0x3A # w)" by (simp add: at_bytes_append)
  from at_bytes_Cons(5) [OF this] at_bytes_until [OF assms t] show ?thesis by (simp add: read_str_def Let_def)
qed

text \<open>
  C35: a length that is -1 as an \<open>int\<close>, such as 4294967295, allocates an array of no bytes, and the
  terminating zero is written in front of it: any data that begins with such a length is written out
  of bounds.
\<close>

theorem ben_length_wraps:
  assumes "n mod 4294967296 = 4294967295" "n < 9223372036854775808"
  shows "decode_all env (new_bencode ib ie (num_text 10 n @ str '':'' @ w)) = Inl OutOfBounds"
proof -
  let ?st = "new_bencode ib ie (num_text 10 n @ str '':'' @ w)"
  have s: "at_bytes (b_in ?st) (num_text 10 n @ 0x3A # w)"
    by (simp add: at_bytes_def new_bencode_def open_stream_def in_good_def in_bounds_def str_def)
  obtain c cs where c: "num_text 10 n = c # cs" by (cases "num_text 10 n") auto
  then have d: "0x30 \<le> c" "c \<le> 0x39" using num_text_dec(1) [of c n] by simp_all
  then have c1: "c \<noteq> 0x64" "c \<noteq> 0x6C" "c \<noteq> 0x69" by (auto simp: word_le_nat_alt)
  have p: "in_peek (b_in ?st) = (c, b_in ?st)" using s c at_bytes_Cons(2) [of "b_in ?st" c] by simp
  have "unat (word_of_nat n :: 32 word) = 4294967295" using assms(1) by (simp add: unat_of_nat)
  moreover have "unat (- 1 :: 32 word) = 4294967295" by (simp add: unsigned_minus_1_eq_mask mask_eq_exp_minus_1)
  ultimately have "word_of_int (int n) = (- 1 :: 32 word)" by (simp add: word_unat_eq_iff)
  then have a: "atoi (num_text 10 n) = - 1" using atoi_num_text [OF assms(2)] by simp
  obtain bs s3 where "in_read 0 (past (length (num_text 10 n) + 1) (b_in ?st)) = (bs, s3)"
    by (cases "in_read 0 (past (length (num_text 10 n) + 1) (b_in ?st))")
  then have "read_str env (b_in ?st) = Inl OutOfBounds" by (simp add: read_str_num [OF s] a)
  then show ?thesis
    using p c1 d by (simp add: decode_all_def ben_decode.simps [of env ?st] dec_str_def)
qed

theorem ben_length_wraps_witness:
  "decode_all sample_ben_env (new_bencode 0 0 (num_text 10 4294967295 @ str '':'' @ str ''x'')) = Inl OutOfBounds"
  by (rule ben_length_wraps) simp_all

text \<open>A torrent whose value for the info hash is a string that is cut off.\<close>

lemma ben_info_truncated:
  assumes "length w < n" "n < 2147483647"
  shows "decode_all env (new_bencode ib ie (str ''d4:info'' @ num_text 10 n @ str '':'' @ w)) = Inl BadAlloc"
proof -
  let ?bs = "str ''d4:info'' @ num_text 10 n @ str '':'' @ w"
  let ?st = "new_bencode ib ie ?bs" and ?k = "ben_str (str ''info'')"
  let ?s = "past 1 (b_in ?st)" and ?s1 = "past 7 (b_in ?st)"
  have k: "enc_str ?k = str ''4:info''" "canon_str ?k"
    by (simp_all add: enc_str_def str_def num_text.simps digit_char_def)
  have b: "?bs = str ''d'' @ str ''4:info'' @ num_text 10 n @ 0x3A # w" by (simp add: str_def)
  have s: "at_bytes (b_in ?st) (str ''d'' @ str ''4:info'' @ num_text 10 n @ 0x3A # w)"
    by (simp add: at_bytes_def new_bencode_def open_stream_def in_good_def in_bounds_def str_def)
  have l: "length (str ''d'') = 1" "length (str ''4:info'') = 6" by simp_all
  from s have s': "at_bytes (b_in ?st) (str ''d'')" "at_bytes ?s (str ''4:info'')" "at_bytes ?s1 (num_text 10 n @ 0x3A # w)"
    unfolding at_bytes_append [of _ "str _"] l by simp_all
  have e: "str ''d'' = [0x64]" "str ''4:info'' = 0x34 # str '':info''" by (simp_all add: str_def)
  have p0: "in_peek (b_in ?st) = (0x64, b_in ?st)" "in_ignore (b_in ?st) = ?s"
    using at_bytes_Cons(2,3) [OF s'(1) [unfolded e(1)]] by simp_all
  have p1: "in_peek ?s = (0x34, ?s)" "\<not> is_eof ?s"
    using at_bytes_Cons(1,2) [OF s'(2) [unfolded e(2)]] by (simp_all add: in_more_def in_good_def)
  have key: "read_str env ?s = Inr (Some ?k, ?s1)"
    using read_str_enc [OF s'(2) [folded k(1)] k(2)] k(1) by simp
  obtain c cs where c: "num_text 10 n = c # cs" by (cases "num_text 10 n") auto
  then have d: "0x30 \<le> c" "c \<le> 0x39" using num_text_dec(1) [of c n] by simp_all
  then have c1: "c \<noteq> 0x64" "c \<noteq> 0x6C" "c \<noteq> 0x69" by (auto simp: word_le_nat_alt)
  have p2: "in_peek ?s1 = (c, ?s1)" using s'(3) c at_bytes_Cons(2) [of ?s1 c] by simp
  have a: "atoi (num_text 10 n) = int n" using atoi_int_text [of "int n"] assms(2) by (simp add: int_text_def)
  have "sint (word_of_int (int n + 1) :: 32 word) = int n + 1"
    using assms(2) by (subst sint_sbintrunc') (rule signed_take_bit_int_eq_self; simp)
  then have a1: "\<not> sint (word_of_int (int n + 1) :: 32 word) < 0" by linarith
  let ?s2 = "past (length (num_text 10 n) + 1) ?s1"
  obtain bs s3 where r: "in_read n ?s2 = (bs, s3)" by (cases "in_read n ?s2")
  have "drop (is_pos ?s2) (is_data ?s2) = w"
    by (simp add: new_bencode_def open_stream_def str_def eval_nat_numeral)
  then have s3: "is_fail s3" using r assms(1) s'(3) by (auto simp: in_read_def Let_def split: if_splits)
  have v: "\<exists>b. read_str env ?s1 = Inr (Some b, s3)"
    using a a1 r by (simp add: read_str_num [OF s'(3)])
  have g: "in_good ?s1" using s'(3) by (simp add: at_bytes_def)
  have i: "is_info_key ?k" by (simp add: is_info_key_def ben_str_def ptr_mem_def str_def)
  from v c1 d p2 obtain b where v': "ben_decode env (?st\<lparr>b_in := ?s1\<rparr>) = Inr (Some (Ben_str b), ?st\<lparr>b_in := s3\<rparr>)"
    by (auto simp: ben_decode.simps [of env "?st\<lparr>b_in := ?s1\<rparr>"] dec_str_def)
  have "note_info env ?k (int (is_pos ?s1)) (?st\<lparr>b_in := s3\<rparr>) = Inl BadAlloc"
    using i s3 by (simp add: note_info_def in_tellg_def in_good_def calc_info_hash_def)
  then have "dec_dict env [] (?st\<lparr>b_in := ?s\<rparr>) = Inl BadAlloc"
    using p1 key g v' by (subst dec_dict.simps) (simp add: in_tellg_def)
  then show ?thesis
    using p0 by (simp add: decode_all_def ben_decode.simps [of env ?st])
qed

end
