(* ===== verification/Udp.thy ===== *)
theory Udp
  imports Dns Bencode_Codec Event
begin

text \<open>
  \<open>cdpi_udp.hpp\<close> and \<open>cdpi_udp.cpp\<close>: the queue of datagrams between the thread that captures and the
  thread of \<open>cdpi_udp::run\<close>, which tries the DNS decoder and the decoder of bencoded data on them. The
  worker holds the mutex while it decodes, so that one round of its loop is one step.
\<close>

section \<open>State\<close>

record cdpi_udp_packet =
  u_id_dir :: cdpi_id_dir
  u_bytes :: cdpi_bytes

record cdpi_udp =
  m_is_dns_53 :: bool
  u_queue :: "cdpi_udp_packet list"

definition new_udp :: cdpi_udp where
  "new_udp = \<lparr>m_is_dns_53 = True, u_queue = []\<rparr>"

text \<open>What the listener is called with.\<close>

datatype udp_datagram = Dns_message cdpi_dns | Bencode_message "ben_data option" "byte list option"

type_synonym udp_call = "cdpi_event \<times> cdpi_id_dir \<times> udp_datagram"

text \<open>What new decoders hold before they are used.\<close>

record udp_env =
  ue_ben :: ben_env
  ue_dns_header :: cdpi_dns_header
  ue_info_begin :: int
  ue_info_end :: int

definition new_dns :: "cdpi_dns_header \<Rightarrow> cdpi_dns" where
  "new_dns h = \<lparr>m_header = h, m_quesiton = [], m_answer = [], m_authority = [], m_additional = []\<rparr>"

section \<open>Input\<close>

text \<open>
  \<open>mem\<close> is the memory from the IP header on and \<open>l4\<close> the distance of the UDP header from it. The block
  of a datagram begins with that header.
\<close>

definition input_udp ::
    "cdpi_id \<Rightarrow> cdpi_direction \<Rightarrow> byte list \<Rightarrow> int \<Rightarrow> nat \<Rightarrow> cdpi_udp \<Rightarrow> cdpi_udp result" where
  "input_udp i dir mem len l4 u =
     bindR (set_buf (drop l4 mem) (len - int l4)) (\<lambda>b.
       Inr (u\<lparr>u_queue := u_queue u @ [\<lparr>u_id_dir = IdDir i dir, u_bytes = b\<rparr>]\<rparr>))"

section \<open>The worker\<close>

definition wants_dns :: "bool \<Rightarrow> cdpi_id_dir \<Rightarrow> bool" where
  "wants_dns only_53 d \<longleftrightarrow>
     only_53 \<and> (ntohs (get_port_src d) = 53 \<or> ntohs (get_port_dst d) = 53) \<or> \<not> only_53"

text \<open>
  One datagram: \<open>data\<close> and \<open>len\<close> leave the UDP header away. A datagram that is shorter than the
  header has a negative length, with which the constructor of \<open>std::string\<close> throws.
\<close>

definition run_bencode :: "udp_env \<Rightarrow> cdpi_id_dir \<Rightarrow> byte list \<Rightarrow> int \<Rightarrow> udp_call list result" where
  "run_bencode env d data len =
     (if len < 0 then Inl LengthError
      else bindR (rds data 0 (nat len)) (\<lambda>bs.
        bindR (decode_all (ue_ben env) (new_bencode (ue_info_begin env) (ue_info_end env) bs)) (\<lambda>(ok, v, st).
          Inr (if ok then [(CDPI_EVENT_BENCODE, d, Bencode_message v (b_hash st))] else []))))"

definition run_datagram :: "udp_env \<Rightarrow> bool \<Rightarrow> cdpi_udp_packet \<Rightarrow> udp_call list result" where
  "run_datagram env only_53 p =
     (let data = drop 8 (ptr_mem (u_bytes p)); len = m_len (u_bytes p) - 8; d = u_id_dir p in
      bindR (if wants_dns only_53 d then dns_decode (new_dns (ue_dns_header env)) data len
             else Inr (False, new_dns (ue_dns_header env))) (\<lambda>(ok, dns).
        if ok then Inr [(CDPI_EVENT_DNS, d, Dns_message dns)]
        else run_bencode env d data len))"

text \<open>One round of the loop of \<open>run\<close>; with an empty queue the thread waits.\<close>

definition run_udp :: "udp_env \<Rightarrow> cdpi_udp \<Rightarrow> (cdpi_udp \<times> udp_call list) result" where
  "run_udp env u =
     (case u_queue u of
        [] \<Rightarrow> Inr (u, [])
      | p # ps \<Rightarrow>
          bindR (run_datagram env (m_is_dns_53 u) p) (\<lambda>calls. Inr (u\<lparr>u_queue := ps\<rparr>, calls)))"

section \<open>What the worker delivers\<close>

text \<open>A datagram as it is stored: a header of eight bytes and the payload.\<close>

lemma input_udp_stored:
  assumes "take (nat len - l4) (drop l4 mem) = udph @ payload" "length udph = 8" "int l4 \<le> len" "len \<le> int (length mem)"
  shows "input_udp i dir mem len l4 u =
    Inr (u\<lparr>u_queue := u_queue u @ [\<lparr>u_id_dir = IdDir i dir, u_bytes = \<lparr>m_ptr = Some (udph @ payload), m_pos = 0, m_len = len - int l4\<rparr>\<rparr>]\<rparr>)"
proof -
  have "nat (len - int l4) = nat len - l4" using assms(3) by linarith
  moreover have "nat len - l4 \<le> length (drop l4 mem)" using assms(4) by simp
  ultimately have "set_buf (drop l4 mem) (len - int l4) = Inr \<lparr>m_ptr = Some (udph @ payload), m_pos = 0, m_len = len - int l4\<rparr>"
    using assms(1,3) by (simp add: set_buf_def rdsi_def rds_def)
  then show ?thesis by (simp add: input_udp_def)
qed

lemma run_datagram_payload:
  assumes "m_ptr (u_bytes p) = Some (udph @ payload)" "m_len (u_bytes p) = 8 + int (length payload)" "length udph = 8"
  shows "run_datagram env only_53 p =
     bindR (if wants_dns only_53 (u_id_dir p) then dns_decode (new_dns (ue_dns_header env)) payload (int (length payload))
            else Inr (False, new_dns (ue_dns_header env))) (\<lambda>(ok, dns).
       if ok then Inr [(CDPI_EVENT_DNS, u_id_dir p, Dns_message dns)]
       else run_bencode env (u_id_dir p) payload (int (length payload)))"
  using assms by (simp add: run_datagram_def ptr_mem_def Let_def)

lemma run_bencode_payload:
  "run_bencode env d payload (int (length payload)) =
     bindR (decode_all (ue_ben env) (new_bencode (ue_info_begin env) (ue_info_end env) payload)) (\<lambda>(ok, v, st).
       Inr (if ok then [(CDPI_EVENT_BENCODE, d, Bencode_message v (b_hash st))] else []))"
  by (simp add: run_bencode_def rds_def)

text \<open>A packet that is stored and worked on, with \<open>payload\<close> behind its UDP header and a pad behind its end.\<close>

lemma input_run_udp:
  assumes "u_queue u = []" "length mem = l4 + 8 + length payload" "drop (l4 + 8) mem = payload"
  shows "bindR (input_udp i dir (mem @ pad) (int (length mem)) l4 u) (run_udp env) =
     bindR (if wants_dns (m_is_dns_53 u) (IdDir i dir)
            then dns_decode (new_dns (ue_dns_header env)) payload (int (length payload))
            else Inr (False, new_dns (ue_dns_header env))) (\<lambda>(ok, dns).
       if ok then Inr (u, [(CDPI_EVENT_DNS, IdDir i dir, Dns_message dns)])
       else bindR (run_bencode env (IdDir i dir) payload (int (length payload))) (\<lambda>calls. Inr (u, calls)))"
proof -
  let ?h = "take 8 (drop l4 mem)"
  let ?p = "\<lparr>u_id_dir = IdDir i dir, u_bytes = \<lparr>m_ptr = Some (?h @ payload), m_pos = 0, m_len = 8 + int (length payload)\<rparr>\<rparr>"
  have m: "drop l4 mem = ?h @ payload" using assms(3) append_take_drop_id [of 8 "drop l4 mem"] by (simp add: add.commute)
  have h: "length ?h = 8" using assms(2) by simp
  have l: "int (length mem) - int l4 = 8 + int (length payload)" using assms(2) by simp
  have "drop l4 (mem @ pad) = drop l4 mem @ pad" using assms(2) by simp
  then have "take (nat (int (length mem)) - l4) (drop l4 (mem @ pad)) = ?h @ payload"
    using m assms(2) by (simp del: append_take_drop_id)
  from input_udp_stored [OF this h, of i dir u] assms(2)
  have "input_udp i dir (mem @ pad) (int (length mem)) l4 u = Inr (u\<lparr>u_queue := u_queue u @ [\<lparr>u_id_dir = IdDir i dir,
      u_bytes = \<lparr>m_ptr = Some (?h @ payload), m_pos = 0, m_len = int (length mem) - int l4\<rparr>\<rparr>]\<rparr>)" by simp
  then have "input_udp i dir (mem @ pad) (int (length mem)) l4 u = Inr (u\<lparr>u_queue := [?p]\<rparr>)"
    unfolding l assms(1) append_Nil .
  moreover have "u\<lparr>u_queue := []\<rparr> = u" using assms(1) by (cases u) simp
  moreover note run_datagram_payload [of ?p ?h payload, OF _ _ h]
  ultimately show ?thesis
    by (simp add: run_udp_def bindR_assoc) (auto simp: bindR_def split: sum.splits)
qed

section \<open>Properties\<close>

lemma udp_bencode:
  assumes "u_queue u = []" "\<not> wants_dns (m_is_dns_53 u) (IdDir i dir)" "canon d" "ben_encode d = Inr bs"
    and "length mem = l4 + 8 + length bs" "drop (l4 + 8) mem = bs"
  shows "bindR (input_udp i dir (mem @ pad) (int (length mem)) l4 u) (run_udp env) =
    Inr (u, [(CDPI_EVENT_BENCODE, IdDir i dir, Bencode_message (Some d) (ben_hash (ue_ben env) d None))])"
proof -
  have "bs = enc d" using encode_enc(1) [OF assms(3)] assms(4) by simp
  with decode_all_enc [OF assms(3), of "ue_ben env" "ue_info_begin env" "ue_info_end env"] assms(2)
  show ?thesis
    unfolding input_run_udp [OF assms(1,5,6)] by (auto simp: run_bencode_payload)
qed

text \<open>
  C32: a datagram that carries encoded data, on ports on which no DNS is expected, is reported to the
  listener with that data and with its info hash; the queue is then what it was.
\<close>

theorem udp_bencode_delivered:
  assumes "u_queue u = []" "\<not> wants_dns (m_is_dns_53 u) (IdDir i dir)" "canon d" "ben_encode d = Inr bs"
    and "length mem = l4 + 8 + length bs" "drop (l4 + 8) mem = bs"
  shows "bindR (input_udp i dir (mem @ pad) (int (length mem)) l4 u) (run_udp env) =
    Inr (u, [(CDPI_EVENT_BENCODE, IdDir i dir, Bencode_message (Some d) (ben_hash (ue_ben env) d None))])"
  using assms by (rule udp_bencode)

definition sample_udp_env :: udp_env where
  "sample_udp_env = \<lparr>ue_ben = sample_ben_env, ue_dns_header = header_of (replicate 12 0), ue_info_begin = 0, ue_info_end = 0\<rparr>"

definition sample_udp_id :: cdpi_id where
  "sample_udp_id = Id (Peer [] 0 0) (Peer [] 1 0) 0 17"

lemma sample_udp_ports: "\<not> wants_dns (m_is_dns_53 new_udp) (IdDir sample_udp_id FROM_ADDR1)"
proof -
  have "ntohs 0 \<noteq> 53" "ntohs 1 \<noteq> 53" by (simp_all add: ntohs_def be_nat_def le_bytes_numeral)
  then show ?thesis by (simp add: wants_dns_def new_udp_def sample_udp_id_def get_port_src_def get_port_dst_def)
qed

theorem udp_bencode_delivered_witness:
  "bindR (input_udp sample_udp_id FROM_ADDR1 (replicate 8 0 @ str ''i-5e'') 12 0 new_udp) (run_udp sample_udp_env) =
    Inr (new_udp, [(CDPI_EVENT_BENCODE, IdDir sample_udp_id FROM_ADDR1, Bencode_message (Some (Ben_int (- 5))) None)])"
  using udp_bencode_delivered [OF _ sample_udp_ports, where d = "Ben_int (- 5)" and bs = "str ''i-5e''" and
      pad = "[]" and mem = "replicate 8 0 @ str ''i-5e''" and env = sample_udp_env and ?l4.0 = 0]
  by (simp add: new_udp_def encode_integer_def str_def int_text_def num_text.simps digit_char_def)

text \<open>
  C37: a datagram that is too short for its own header ends the thread that works on datagrams, with
  an exception that nothing catches: no length is checked before the header is taken off.
\<close>

theorem udp_short_datagram:
  assumes "u_queue u = []" "int l4 \<le> int (length mem)" "length mem < l4 + 8"
  shows "bindR (input_udp i dir mem (int (length mem)) l4 u) (run_udp env) = Inl LengthError"
proof -
  let ?b = "\<lparr>m_ptr = Some (drop l4 mem), m_pos = 0, m_len = int (length mem) - int l4\<rparr>"
  have "set_buf (drop l4 mem) (int (length mem) - int l4) = Inr ?b"
    using assms(2) by (simp add: set_buf_def rdsi_def rds_def)
  then have i: "input_udp i dir mem (int (length mem)) l4 u =
      Inr (u\<lparr>u_queue := [\<lparr>u_id_dir = IdDir i dir, u_bytes = ?b\<rparr>]\<rparr>)"
    using assms(1) by (simp add: input_udp_def)
  have n: "int (length mem) - int l4 - 8 < 0" "int (length mem) - int l4 - 8 < 12" using assms(3) by auto
  have "run_datagram env f \<lparr>u_id_dir = IdDir i dir, u_bytes = ?b\<rparr> = Inl LengthError" for f
    using n by (simp add: run_datagram_def run_bencode_def dns_decode_def Let_def)
  then show ?thesis by (simp add: i run_udp_def)
qed

theorem udp_short_datagram_witness:
  "bindR (input_udp sample_udp_id FROM_ADDR1 [0, 53, 0, 53] 4 0 new_udp) (run_udp sample_udp_env) = Inl LengthError"
  using udp_short_datagram [of new_udp 0 "[0, 53, 0, 53]" sample_udp_id FROM_ADDR1 sample_udp_env]
  by (simp add: new_udp_def)

text \<open>
  A datagram with a dictionary whose value for the key \<open>info\<close> announces more bytes than follow
  ends that thread as well: the end of the value is at position -1, and a negative number of bytes is
  allocated for the hash.
\<close>

theorem udp_info_truncated:
  assumes "u_queue u = []" "\<not> wants_dns (m_is_dns_53 u) (IdDir i dir)" "length w < n" "n < 2147483647"
    and "length mem = l4 + 8 + length payload" "drop (l4 + 8) mem = payload"
    and "payload = str ''d4:info'' @ num_text 10 n @ str '':'' @ w"
  shows "bindR (input_udp i dir (mem @ pad) (int (length mem)) l4 u) (run_udp env) = Inl BadAlloc"
proof -
  have "run_bencode env (IdDir i dir) payload (int (length payload)) = Inl BadAlloc"
    unfolding run_bencode_payload using ben_info_truncated [OF assms(3,4)] by (simp add: assms(7))
  with assms(2) show ?thesis unfolding input_run_udp [OF assms(1,5,6)] by simp
qed

theorem udp_info_truncated_witness:
  "bindR (input_udp sample_udp_id FROM_ADDR1 (replicate 8 0 @ str ''d4:info9:x'') 18 0 new_udp) (run_udp sample_udp_env) =
    Inl BadAlloc"
  using udp_info_truncated [OF _ sample_udp_ports, where w = "str ''x''" and n = 9 and payload = "str ''d4:info9:x''" and
      pad = "[]" and mem = "replicate 8 0 @ str ''d4:info9:x''" and env = sample_udp_env and ?l4.0 = 0]
  by (simp add: new_udp_def str_def num_text.simps digit_char_def)

end
