(* ===== verification/Capture.thy ===== *)
theory Capture
  imports Tcp Udp
begin

text \<open>
  \<open>cdpi_callback.hpp\<close>, \<open>cdpi_callback.cpp\<close>, \<open>cdpi_pcap.hpp\<close> and \<open>cdpi_pcap.cpp\<close>: a frame that was
  captured is taken apart down to its IP packet, which is given to the TCP or the UDP component. The
  frame is the memory of \<open>caplen\<close> bytes that libpcap hands over.
\<close>

section \<open>Dispatch\<close>

record cdpi_callback =
  cb_tcp :: cdpi_tcp
  cb_udp :: cdpi_udp

text \<open>
  \<open>old\<close> is the identifier before \<open>set_iph\<close> writes to it. A transport header that was not found is a
  null pointer.
\<close>

definition callback_op ::
    "int \<Rightarrow> cdpi_id \<Rightarrow> byte list \<Rightarrow> int \<Rightarrow> byte \<Rightarrow> cdpi_callback \<Rightarrow> cdpi_callback result" where
  "callback_op now old bytes len proto cb =
     bindR (set_iph old bytes proto) (\<lambda>(dir, i, l4hdr).
       if m_l4_proto i = IPPROTO_TCP then
         (case l4hdr of
            None \<Rightarrow> Inl NullPointer
          | Some l4 \<Rightarrow> bindR (input_tcp now i dir bytes len l4 (cb_tcp cb)) (\<lambda>t. Inr (cb\<lparr>cb_tcp := t\<rparr>)))
       else if m_l4_proto i = IPPROTO_UDP then
         (case l4hdr of
            None \<Rightarrow> Inl NullPointer
          | Some l4 \<Rightarrow> bindR (input_udp i dir bytes len l4 (cb_udp cb)) (\<lambda>u. Inr (cb\<lparr>cb_udp := u\<rparr>)))
       else Inr cb)"

section \<open>The link layer\<close>

abbreviation (input) DLT_EN10MB :: int where "DLT_EN10MB \<equiv> 1"
abbreviation (input) ETHERTYPE_VLAN :: "16 word" where "ETHERTYPE_VLAN \<equiv> 0x8100"
abbreviation (input) ETHERTYPE_IP :: "16 word" where "ETHERTYPE_IP \<equiv> 0x0800"
abbreviation (input) ETHERTYPE_IPV6 :: "16 word" where "ETHERTYPE_IPV6 \<equiv> 0x86dd"

text \<open>
  The jump back to \<open>retry\<close>: every tag moves on by four bytes, and the next type is read without a look
  at the length. The result is the protocol, when it is set, and the offset of the IP header.
\<close>

function ether_walk :: "byte list \<Rightarrow> 16 word \<Rightarrow> nat \<Rightarrow> (byte \<times> nat) option result" where
  "ether_walk bytes ether_type skip =
     (if ether_type = ETHERTYPE_VLAN then
        bindR (rds bytes (skip + 2) 2) (\<lambda>t. ether_walk bytes (ntohs (u16_of t)) (skip + 4))
      else if ether_type = ETHERTYPE_IP then Inr (Some (IPPROTO_IP, skip))
      else if ether_type = ETHERTYPE_IPV6 then Inr (Some (IPPROTO_IPV6, skip))
      else Inr None)"
  by pat_completeness auto
termination
  by (relation "measure (\<lambda>(bytes, t, skip). length bytes - skip)") (auto simp: rds_eq_Inr)

declare ether_walk.simps [simp del]

definition get_ip_hdr :: "int \<Rightarrow> byte list \<Rightarrow> (byte \<times> nat) option result" where
  "get_ip_hdr dl_type bytes =
     (if dl_type = DLT_EN10MB then
        if length bytes < 14 then Inr None
        else bindR (rds bytes 12 2) (\<lambda>t. ether_walk bytes (ntohs (u16_of t)) 14)
      else Inr None)"

section \<open>The IP layer\<close>

text \<open>
  The walk over the IPv6 extension headers; \<open>False\<close> is one of the three headers at which the packet
  is dropped.
\<close>

function pcap_v6_walk :: "byte list \<Rightarrow> byte \<Rightarrow> nat \<Rightarrow> bool result" where
  "pcap_v6_walk mem nxt p =
     (if nxt = IPPROTO_HOPOPTS \<or> nxt = IPPROTO_ROUTING \<or> nxt = IPPROTO_ESP \<or>
         nxt = IPPROTO_AH \<or> nxt = IPPROTO_DSTOPTS then
        bindR (rd mem p) (\<lambda>nxt'. bindR (rd mem (p + 1)) (\<lambda>len.
          pcap_v6_walk mem nxt' (if len = 0 then p + 8 else p + unat len * 8)))
      else Inr (nxt \<noteq> IPPROTO_NONE \<and> nxt \<noteq> IPPROTO_FRAGMENT \<and> nxt \<noteq> IPPROTO_ICMPV6))"
  by pat_completeness auto
termination
proof (relation "measure (\<lambda>(mem, nxt, p). length mem - p)", goal_cases)
  case (2 mem nxt p nxt' len)
  then have "p < length mem" by (simp add: rd_eq_Inr)
  moreover have "len \<noteq> 0 \<Longrightarrow> 0 < unat len" by (simp add: unat_gt_0)
  ultimately show ?case by auto
qed simp

declare pcap_v6_walk.simps [simp del]

text \<open>The length of the packet that is handed on, \<open>None\<close> for one that is dropped. \<open>ip\<close> is the memory from the header on.\<close>

definition pcap_v4 :: "byte list \<Rightarrow> nat option result" where
  "pcap_v4 ip =
     bindR (rds ip 6 2) (\<lambda>o2. let off = ntohs (u16_of o2) in
       if off AND 0x2000 \<noteq> 0 \<or> off AND 0x1fff > 0 then Inr None
       else bindR (rds ip 2 2) (\<lambda>l2. let plen = unat (ntohs (u16_of l2)) in
         Inr (if plen > length ip then None else Some plen)))"

definition pcap_v6 :: "byte list \<Rightarrow> nat option result" where
  "pcap_v6 ip =
     bindR (rd ip 6) (\<lambda>nxt. bindR (pcap_v6_walk ip nxt 40) (\<lambda>ok.
       if \<not> ok then Inr None
       else bindR (rds ip 4 2) (\<lambda>l2. let plen = unat (ntohs (u16_of l2)) + 40 in
         Inr (if plen > length ip then None else Some plen))))"

record cdpi_pcap =
  m_dl_type :: int
  m_is_break :: bool
  pcap_cb :: cdpi_callback

text \<open>One frame: whether the loop of libpcap is to be left, and the state.\<close>

definition pcap_frame ::
    "int \<Rightarrow> cdpi_id \<Rightarrow> byte list \<Rightarrow> cdpi_pcap \<Rightarrow> (bool \<times> cdpi_pcap) result" where
  "pcap_frame now old bytes s =
     bindR (get_ip_hdr (m_dl_type s) bytes) (\<lambda>hdr.
       if m_is_break s then Inr (True, s)
       else case hdr of
         None \<Rightarrow> Inr (False, s)
       | Some (proto, pos) \<Rightarrow>
           let ip = drop pos bytes in
           bindR (if proto = IPPROTO_IP then pcap_v4 ip else if proto = IPPROTO_IPV6 then pcap_v6 ip else Inr None) (\<lambda>plen.
             case plen of
               None \<Rightarrow> Inr (False, s)
             | Some n \<Rightarrow> bindR (callback_op now old ip (int n) proto (pcap_cb s)) (\<lambda>cb. Inr (False, s\<lparr>pcap_cb := cb\<rparr>))))"

definition stop_pcap :: "cdpi_pcap \<Rightarrow> cdpi_pcap" where
  "stop_pcap s = s\<lparr>m_is_break := True\<rparr>"

section \<open>From the wire to the listener\<close>

definition vlan_tags :: "(byte \<times> byte) list \<Rightarrow> byte list" where
  "vlan_tags tags = concat (map (\<lambda>(a, b). [0x81, 0, a, b]) tags)"

lemma ether_types: "ntohs (u16_of [0x81, 0]) = 0x8100" "ntohs (u16_of [8, 0]) = 0x0800"
  by (simp_all add: word_unat_eq_iff be_nat_def)

lemma ether_walk_tags:
  "bindR (rds (pre @ vlan_tags tags @ [8, 0] @ ip) (length pre) 2)
     (\<lambda>t. ether_walk (pre @ vlan_tags tags @ [8, 0] @ ip) (ntohs (u16_of t)) (length pre + 2)) =
   Inr (Some (IPPROTO_IP, length pre + 4 * length tags + 2))"
proof (induction tags arbitrary: pre)
  case Nil
  show ?case by (simp add: vlan_tags_def rds_def ether_types ether_walk.simps)
next
  case (Cons ab tags)
  obtain a b where ab: "ab = (a, b)" by (cases ab)
  have e: "pre @ vlan_tags (ab # tags) @ [8, 0] @ ip = (pre @ [0x81, 0, a, b]) @ vlan_tags tags @ [8, 0] @ ip"
    by (simp add: vlan_tags_def ab)
  have r: "rds ((pre @ [0x81, 0, a, b]) @ xs) (length pre) 2 = Inr [0x81, 0]" for xs by (simp add: rds_def)
  have "ether_walk m 0x8100 (length pre + 2) =
      bindR (rds m (length (pre @ [0x81, 0, a, b])) 2)
        (\<lambda>t. ether_walk m (ntohs (u16_of t)) (length (pre @ [0x81, 0, a, b]) + 2))" for m
    by (subst ether_walk.simps) (simp add: eval_nat_numeral)
  with Cons.IH [of "pre @ [0x81, 0, a, b]"] show ?case
    unfolding e r bindR_Inr ether_types by simp
qed

lemma get_ip_hdr_tags:
  assumes "length addrs = 12"
  shows "get_ip_hdr DLT_EN10MB (addrs @ vlan_tags tags @ [8, 0] @ ip) = Inr (Some (IPPROTO_IP, 14 + 4 * length tags))"
  using ether_walk_tags [of addrs tags ip] assms by (simp add: get_ip_hdr_def)


lemma drop_frame:
  assumes "length addrs = 12"
  shows "drop (14 + 4 * length tags) (addrs @ vlan_tags tags @ [8, 0] @ ip) = ip"
proof -
  have "length (vlan_tags tags) = 4 * length tags" by (induction tags) (auto simp: vlan_tags_def)
  then have "length (addrs @ vlan_tags tags @ [8, 0]) = 14 + 4 * length tags" using assms by simp
  then have "drop (14 + 4 * length tags) ((addrs @ vlan_tags tags @ [8, 0]) @ ip) = ip" by (metis append_eq_conv_conj)
  then show ?thesis by simp
qed

text \<open>An IPv4 header without options of a datagram that is not a fragment.\<close>

definition udp4_header :: "byte list \<Rightarrow> nat \<Rightarrow> bool" where
  "udp4_header h n \<longleftrightarrow> length h = 20 \<and> h ! 0 = 0x45 \<and> h ! 9 = IPPROTO_UDP \<and> be_nat (take 2 (drop 2 h)) = n \<and>
     be_nat (take 2 (drop 6 h)) \<in> {0, 0x4000}"

lemma pcap_v4_udp4:
  assumes "udp4_header h n" "n \<le> length (h @ r)"
  shows "pcap_v4 (h @ r) = Inr (Some n)"
proof -
  have h: "length h = 20" "be_nat (take 2 (drop 2 h)) = n" "be_nat (take 2 (drop 6 h)) \<in> {0, 0x4000}"
    using assms(1) by (simp_all add: udp4_header_def)
  have r: "rds (h @ r) 6 2 = Inr (take 2 (drop 6 h))" "rds (h @ r) 2 2 = Inr (take 2 (drop 2 h))"
    using h(1) by (simp_all add: rds_def)
  let ?off = "ntohs (u16_of (take 2 (drop 6 h)))"
  have "unat ?off \<in> {0, 0x4000}" using h(1,3) by simp
  then have "?off = 0 \<or> ?off = 0x4000" by (auto simp: word_unat_eq_iff)
  moreover have "(0x4000 :: 16 word) AND 0x2000 = 0" "(0x4000 :: 16 word) AND 0x1fff = 0" by code_simp+
  ultimately have "?off AND 0x2000 = 0" "?off AND 0x1fff = 0" by auto
  then show ?thesis using r h assms(2) by (simp add: pcap_v4_def Let_def)
qed

lemma set_iph_udp4:
  assumes "udp4_header h n" "length udph = 8"
  shows "\<exists>dir i. set_iph old (h @ udph @ r) IPPROTO_IP = Inr (dir, i, Some 20) \<and> m_l4_proto i = IPPROTO_UDP \<and>
    get_src (IdDir i dir) = Peer (take 4 (drop 12 h) @ replicate 12 0) (u16_of (take 2 udph)) 0 \<and>
    get_dst (IdDir i dir) = Peer (take 4 (drop 16 h) @ replicate 12 0) (u16_of (take 2 (drop 2 udph))) 0"
proof -
  let ?a = "Peer (take 4 (drop 12 h) @ replicate 12 0) (u16_of (take 2 udph)) 0"
  let ?b = "Peer (take 4 (drop 16 h) @ replicate 12 0) (u16_of (take 2 (drop 2 udph))) 0"
  obtain dir i where o: "order_peers ?a ?b IPPROTO_IP IPPROTO_UDP = (dir, i)"
    by (cases "order_peers ?a ?b IPPROTO_IP IPPROTO_UDP")
  have h: "length h = 20" "h ! 0 = 0x45" "h ! 9 = IPPROTO_UDP" using assms(1) by (simp_all add: udp4_header_def)
  have r: "rds (h @ udph @ r) 12 4 = Inr (take 4 (drop 12 h))" "rds (h @ udph @ r) 16 4 = Inr (take 4 (drop 16 h))"
    "rd (h @ udph @ r) 9 = Inr IPPROTO_UDP" "rd (h @ udph @ r) 0 = Inr 0x45"
    "rds (h @ udph @ r) 20 2 = Inr (take 2 udph)" "rds (h @ udph @ r) 22 2 = Inr (take 2 (drop 2 udph))"
    using h assms(2) by (simp_all add: rds_def rd_def nth_append)
  have "unat ((0x45 :: byte) AND 0x0f) * 4 = 20" by code_simp
  then have "set_iph old (h @ udph @ r) IPPROTO_IP = Inr (dir, i, Some 20)"
    using r o by (simp add: set_iph_def set_iph_v4_def Let_def)
  moreover have "m_l4_proto i = IPPROTO_UDP" using o by (auto simp: order_peers_def split: if_splits)
  ultimately show ?thesis using order_peers_get [OF o] by blast
qed

text \<open>
  C7: a frame with any number of VLAN tags and, in an IPv4 packet without options, a datagram with
  encoded data on ports that are not those of DNS: capturing it and one round of the worker report the
  data, its info hash, the two addresses and the two ports to the listener, and bytes that pad the frame
  are left out. This spans the link layer, the identifiers, the queue, the decoder and the hash.
\<close>

theorem captured_datagram:
  assumes "m_dl_type s = DLT_EN10MB" "\<not> m_is_break s" "cb_udp (pcap_cb s) = new_udp"
    and "length addrs = 12" "udp4_header h (28 + length bs)" "length udph = 8"
    and "be_nat (take 2 udph) \<noteq> 53" "be_nat (take 2 (drop 2 udph)) \<noteq> 53"
    and "canon d" "ben_encode d = Inr bs"
  shows "\<exists>s' i dir. pcap_frame now old (addrs @ vlan_tags tags @ [8, 0] @ h @ udph @ bs @ pad) s = Inr (False, s') \<and>
    get_src (IdDir i dir) = Peer (take 4 (drop 12 h) @ replicate 12 0) (u16_of (take 2 udph)) 0 \<and>
    get_dst (IdDir i dir) = Peer (take 4 (drop 16 h) @ replicate 12 0) (u16_of (take 2 (drop 2 udph))) 0 \<and>
    run_udp env (cb_udp (pcap_cb s')) =
      Inr (new_udp, [(CDPI_EVENT_BENCODE, IdDir i dir, Bencode_message (Some d) (ben_hash (ue_ben env) d None))])"
proof -
  let ?ip = "h @ udph @ bs @ pad" and ?mem = "h @ udph @ bs"
  let ?frame = "addrs @ vlan_tags tags @ [8, 0] @ ?ip"
  have hl: "length h = 20" using assms(5) by (simp add: udp4_header_def)
  from set_iph_udp4 [OF assms(5,6), of old "bs @ pad"] obtain dir i
    where i: "set_iph old ?ip IPPROTO_IP = Inr (dir, i, Some 20)" "m_l4_proto i = IPPROTO_UDP"
      "get_src (IdDir i dir) = Peer (take 4 (drop 12 h) @ replicate 12 0) (u16_of (take 2 udph)) 0"
      "get_dst (IdDir i dir) = Peer (take 4 (drop 16 h) @ replicate 12 0) (u16_of (take 2 (drop 2 udph))) 0" by blast
  have p: "get_port_src (IdDir i dir) = u16_of (take 2 udph)" "get_port_dst (IdDir i dir) = u16_of (take 2 (drop 2 udph))"
    using i(3,4) by (auto simp: get_src_def get_dst_def get_port_src_def get_port_dst_def split: if_splits)
  have "ntohs (get_port_src (IdDir i dir)) \<noteq> 53" "ntohs (get_port_dst (IdDir i dir)) \<noteq> 53"
    using assms(6-8) by (auto simp: p word_unat_eq_iff)
  then have w: "\<not> wants_dns (m_is_dns_53 new_udp) (IdDir i dir)" by (simp add: wants_dns_def new_udp_def)
  have m: "length ?mem = 20 + 8 + length bs" "drop (20 + 8) ?mem = bs" using hl assms(6) by simp_all
  from udp_bencode [OF _ w assms(9,10) m, of pad env] have
    u: "bindR (input_udp i dir (?mem @ pad) (int (length ?mem)) 20 new_udp) (run_udp env) =
      Inr (new_udp, [(CDPI_EVENT_BENCODE, IdDir i dir, Bencode_message (Some d) (ben_hash (ue_ben env) d None))])"
    by (simp add: new_udp_def)
  have l: "int (length ?mem) = int (28 + length bs)" using m(1) by simp
  from u have "bindR (input_udp i dir ?ip (int (28 + length bs)) 20 new_udp) (run_udp env) =
      Inr (new_udp, [(CDPI_EVENT_BENCODE, IdDir i dir, Bencode_message (Some d) (ben_hash (ue_ben env) d None))])"
    unfolding l by simp
  then obtain u' where u': "input_udp i dir ?ip (int (28 + length bs)) 20 new_udp = Inr u'"
    and run: "run_udp env u' = Inr (new_udp, [(CDPI_EVENT_BENCODE, IdDir i dir, Bencode_message (Some d) (ben_hash (ue_ben env) d None))])"
    by (auto simp: bindR_eq_Inr)
  have cb: "callback_op now old ?ip (int (28 + length bs)) IPPROTO_IP (pcap_cb s) = Inr ((pcap_cb s)\<lparr>cb_udp := u'\<rparr>)"
    using i(1,2) u' assms(3) by (simp add: callback_op_def)
  have v4: "pcap_v4 ?ip = Inr (Some (28 + length bs))"
    using pcap_v4_udp4 [OF assms(5), of "udph @ bs @ pad"] hl assms(6) by simp
  have d: "drop (14 + 4 * length tags) ?frame = ?ip" using drop_frame [OF assms(4)] .
  have "pcap_frame now old ?frame s = Inr (False, s\<lparr>pcap_cb := (pcap_cb s)\<lparr>cb_udp := u'\<rparr>\<rparr>)"
    unfolding pcap_frame_def assms(1) get_ip_hdr_tags [OF assms(4)] bindR_Inr
    using assms(2) d v4 cb by (simp add: Let_def)
  with i(3,4) run show ?thesis by fastforce
qed


definition sample_pcap :: cdpi_pcap where
  "sample_pcap = \<lparr>m_dl_type = DLT_EN10MB, m_is_break = False,
     pcap_cb = \<lparr>cb_tcp = \<lparr>m_flow = [], m_events = []\<rparr>, cb_udp = new_udp\<rparr>\<rparr>"

definition sample_ip4 :: "byte list" where
  "sample_ip4 = [0x45, 0, 0, 32, 0, 0, 0x40, 0, 64, 17, 0, 0, 10, 0, 0, 1, 10, 0, 0, 2]"

definition sample_udph :: "byte list" where
  "sample_udph = [0, 1, 0, 2, 0, 12, 0, 0]"

lemma sample_ip4_ok: "udp4_header sample_ip4 (28 + length (str ''i-5e''))"
  and sample_udph_ok: "length sample_udph = 8" "be_nat (take 2 sample_udph) = 1" "be_nat (take 2 (drop 2 sample_udph)) = 2"
  by (simp_all add: udp4_header_def sample_ip4_def sample_udph_def be_nat_def)

theorem captured_datagram_witness:
  "\<exists>s' i dir. pcap_frame 0 sample_udp_id (replicate 12 0 @ vlan_tags [(0, 7)] @ [8, 0] @ sample_ip4 @ sample_udph @ str ''i-5e'' @ [0, 0])
      sample_pcap = Inr (False, s') \<and>
    get_src (IdDir i dir) = Peer ([10, 0, 0, 1] @ replicate 12 0) (u16_of [0, 1]) 0 \<and>
    get_dst (IdDir i dir) = Peer ([10, 0, 0, 2] @ replicate 12 0) (u16_of [0, 2]) 0 \<and>
    run_udp sample_udp_env (cb_udp (pcap_cb s')) =
      Inr (new_udp, [(CDPI_EVENT_BENCODE, IdDir i dir, Bencode_message (Some (Ben_int (- 5))) None)])"
proof -
  have "ben_encode (Ben_int (- 5)) = Inr (str ''i-5e'')"
    by (simp add: encode_integer_def str_def int_text_def num_text.simps digit_char_def)
  from captured_datagram [OF _ _ _ _ sample_ip4_ok sample_udph_ok(1) _ _ _ this, of sample_pcap "replicate 12 0" 0 sample_udp_id
      "[(0, 7)]" "[0, 0]" sample_udp_env] sample_udph_ok(2,3)
  show ?thesis by (simp add: sample_pcap_def) (simp add: sample_ip4_def sample_udph_def)
qed

end
