(* ===== verification/Report.thy ===== *)
theory Report
  imports Stream_Typed Ssl_Tables Udp
begin

text \<open>
  \<open>cdpi_mongo.hpp\<close> and \<open>cdpi_mongo.cpp\<close>: the listener that writes what was parsed to a database. A
  document is a list of named values in the order in which it was built, and the database is the list
  of the documents that were inserted, each with its collection. A number is the one that the code
  hands to the builder; how wide the builder stores it is up to the driver.
\<close>

section \<open>Documents\<close>

datatype bson =
    B_str "byte list"
  | B_int int
  | B_bool bool
  | B_date int
  | B_obj "(byte list \<times> bson) list"
  | B_arr "bson list"

type_synonym bson_fields = "(byte list \<times> bson) list"

text \<open>
  What the listener takes from outside: the clock in milliseconds, the text of an IPv6 address, the
  regular expression for a whole URI, the two decompressors, and what OpenSSL finds in a certificate
  and in a public key, \<open>None\<close> when it cannot be decoded. \<open>re_undef_addr\<close> is what a buffer for an address
  holds before it is written.
\<close>

text \<open>
  What OpenSSL tells about a certificate: the version, the bytes of the serial number and the number
  that they make, the algorithms by name (\<open>None\<close> is \<open>NID_undef\<close>), and the texts of the names and of the
  times (\<open>None\<close> when the printing function fails). The public key is of one of the two families that
  the code tells apart by their numbers.
\<close>

datatype key_family = Key_rsa | Key_dsa | Key_other

record x509 =
  x_version :: int
  x_serial :: "byte list"
  x_serial_number :: int
  x_sig_alg :: "string option"
  x_signature :: "byte list"
  x_issuer :: "byte list option"
  x_not_before :: "byte list option"
  x_not_after :: "byte list option"
  x_subject :: "byte list option"
  x_key_alg :: "string option"
  x_key_family :: key_family
  x_public_key :: "byte list"

text \<open>The numbers of a key as bytes; those of a DSA key may be missing, as null pointers.\<close>

record rsa_key =
  rsa_n :: "byte list"
  rsa_e :: "byte list"

record dsa_key =
  dsa_pub_key :: "byte list"
  dsa_p :: "byte list option"
  dsa_q :: "byte list option"
  dsa_g :: "byte list option"

record report_env =
  re_millis :: int
  re_ntop6 :: "byte list \<Rightarrow> byte list"
  re_regex_http_uri :: "byte list \<Rightarrow> bool"
  re_gunzip :: "byte list \<Rightarrow> byte list"
  re_inflate :: "byte list \<Rightarrow> byte list"
  re_x509 :: "byte list \<Rightarrow> x509 option"
  re_rsa :: "byte list \<Rightarrow> rsa_key option"
  re_dsa :: "byte list \<Rightarrow> dsa_key option"
  re_undef_addr :: "byte list"

text \<open>\<open>inet_ntop\<close> of an IPv4 address, which is in memory in the order of the wire.\<close>

definition inet_ntop4 :: "byte list \<Rightarrow> byte list" where
  "inet_ntop4 a = num_text 10 (unat (a ! 0)) @ str ''.'' @ num_text 10 (unat (a ! 1)) @ str ''.'' @
     num_text 10 (unat (a ! 2)) @ str ''.'' @ num_text 10 (unat (a ! 3))"

definition get_addr :: "report_env \<Rightarrow> cdpi_id_dir \<Rightarrow> cdpi_peer \<Rightarrow> byte list" where
  "get_addr env d p =
     (if m_l3_proto (m_id d) = IPPROTO_IP then inet_ntop4 (l3_addr p)
      else if m_l3_proto (m_id d) = IPPROTO_IPV6 then re_ntop6 env (l3_addr p)
      else re_undef_addr env)"

definition get_addr_src :: "report_env \<Rightarrow> cdpi_id_dir \<Rightarrow> byte list" where
  "get_addr_src env d = get_addr env d (if m_dir d = FROM_ADDR1 then m_addr1 (m_id d) else m_addr2 (m_id d))"

definition get_addr_dst :: "report_env \<Rightarrow> cdpi_id_dir \<Rightarrow> byte list" where
  "get_addr_dst env d = get_addr env d (if m_dir d = FROM_ADDR1 then m_addr2 (m_id d) else m_addr1 (m_id d))"

definition collection :: "string \<Rightarrow> byte list" where
  "collection s = str s"

section \<open>State\<close>

text \<open>\<open>m_is_opened\<close> is not initialised by the constructor.\<close>

record tcp_info =
  t_is_opened :: bool
  t_num_open :: int

record http_client_info =
  hc_header :: "(byte list, byte list) omap"
  hc_ver :: "byte list"
  hc_uri :: "byte list"
  hc_method :: "byte list"
  hc_ip :: "byte list"
  hc_port :: "16 word"

record http_server_info =
  hs_header :: "(byte list, byte list) omap"
  hs_ver :: "byte list"
  hs_code :: "byte list"
  hs_msg :: "byte list"
  hs_content :: "byte list"
  hs_ip :: "byte list"
  hs_port :: "16 word"

record http_info =
  hi_client :: "http_client_info list"
  hi_server :: "http_server_info list"

text \<open>The two parsers of a connection: pointers into the store, with the direction that they have.\<close>

record ssl_info =
  sl_client :: "(nat \<times> cdpi_id_dir) option"
  sl_server :: "(nat \<times> cdpi_id_dir) option"

text \<open>
  The maps of the listener, the inserted documents, and the two tables of names, which are static in
  \<open>cdpi_ssl.cpp\<close>. \<open>m_is_verbose\<close> is false throughout, so that nothing is printed.
\<close>

record my_event_listener =
  l_tcp :: "(cdpi_id, tcp_info) omap"
  l_http :: "(cdpi_id, http_info) omap"
  l_ssl :: "(cdpi_id, ssl_info) omap"
  l_ciphers :: "(16 word, string) omap"
  l_compressions :: "(byte, string) omap"
  l_docs :: "(byte list \<times> bson) list"

definition insert_doc :: "string \<Rightarrow> bson_fields \<Rightarrow> my_event_listener \<Rightarrow> my_event_listener" where
  "insert_doc c fs l = l\<lparr>l_docs := l_docs l @ [(collection c, B_obj fs)]\<rparr>"

section \<open>Connections\<close>

definition open_tcp :: "bool \<Rightarrow> cdpi_id_dir \<Rightarrow> my_event_listener \<Rightarrow> my_event_listener" where
  "open_tcp undef d l =
     (let t = (case map_of (l_tcp l) (m_id d) of
                 None \<Rightarrow> \<lparr>t_is_opened = undef, t_num_open = 1\<rparr>
               | Some t \<Rightarrow> t\<lparr>t_num_open := t_num_open t + 1\<rparr>);
          t1 = (if t_num_open t = 2 then t\<lparr>t_is_opened := True\<rparr> else t)
      in l\<lparr>l_tcp := omap_insert (m_id d) t1 (l_tcp l)\<rparr>)"

definition close_tcp :: "cdpi_id_dir \<Rightarrow> my_event_listener \<Rightarrow> my_event_listener" where
  "close_tcp d l =
     (case map_of (l_tcp l) (m_id d) of
        None \<Rightarrow> l
      | Some t \<Rightarrow>
          if t_num_open t - 1 = 0
          then l\<lparr>l_tcp := omap_erase (m_id d) (l_tcp l), l_http := omap_erase (m_id d) (l_http l),
                 l_ssl := omap_erase (m_id d) (l_ssl l)\<rparr>
          else l\<lparr>l_tcp := omap_insert (m_id d) (t\<lparr>t_num_open := t_num_open t - 1\<rparr>) (l_tcp l)\<rparr>)"

section \<open>HTTP\<close>

definition get_full_uri :: "report_env \<Rightarrow> byte list \<Rightarrow> byte list \<Rightarrow> byte list \<Rightarrow> byte list" where
  "get_full_uri env host server_ip uri =
     (if re_regex_http_uri env uri then uri
      else if length host = 0 then str ''http://'' @ server_ip @ uri
      else str ''http://'' @ host @ uri)"

text \<open>The headers, and the keys of the trailers, for which the source looks up headers again.\<close>

definition copy_headers :: "cdpi_http \<Rightarrow> (byte list, byte list) omap" where
  "copy_headers h =
     fold (\<lambda>k m. omap_insert k (get_header h k) m) (get_header_keys h @ get_trailer_keys h) []"

definition http_client :: "report_env \<Rightarrow> cdpi_id_dir \<Rightarrow> cdpi_http \<Rightarrow> http_client_info" where
  "http_client env d h = \<lparr>hc_header = copy_headers h, hc_ver = m_ver h, hc_uri = m_uri h,
     hc_method = get_method h, hc_ip = get_addr_src env d, hc_port = get_port_src d\<rparr>"

definition http_content :: "report_env \<Rightarrow> cdpi_http \<Rightarrow> byte list result" where
  "http_content env h =
     (case m_ptr (m_content h) of
        None \<Rightarrow> Inr []
      | Some a \<Rightarrow>
          let encoding = get_header h (str ''content-encoding'') in
          bindR (rdsi a 0 (m_len (m_content h))) (\<lambda>bs.
            Inr (if encoding = str ''gzip'' then re_gunzip env bs
                 else if encoding = str ''deflate'' then re_inflate env bs
                 else bs)))"

definition http_server :: "report_env \<Rightarrow> cdpi_id_dir \<Rightarrow> cdpi_http \<Rightarrow> http_server_info result" where
  "http_server env d h =
     bindR (http_content env h) (\<lambda>content.
       Inr \<lparr>hs_header = copy_headers h, hs_ver = m_ver h, hs_code = m_code h, hs_msg = m_res_msg h,
         hs_content = content, hs_ip = get_addr_src env d, hs_port = get_port_src d\<rparr>)"

text \<open>\<open>operator[]\<close> on the headers of the client adds an empty host when there is none.\<close>

definition http_document :: "report_env \<Rightarrow> http_client_info \<Rightarrow> http_server_info \<Rightarrow> bson_fields" where
  "http_document env c s =
     (let header = (case map_of (hc_header c) (str ''host'') of
                      None \<Rightarrow> omap_insert (str ''host'') [] (hc_header c) | Some v \<Rightarrow> hc_header c);
          host = (case map_of header (str ''host'') of None \<Rightarrow> [] | Some v \<Rightarrow> v);
          fields = map (\<lambda>(k, v). (k, B_str v))
      in [(str ''client header'', B_obj (fields header)), (str ''server header'', B_obj (fields (hs_header s))),
          (str ''client ip'', B_str (hc_ip c)), (str ''client port'', B_int (uint (hc_port c))),
          (str ''client ver'', B_str (hc_ver c)), (str ''server ip'', B_str (hs_ip s)),
          (str ''server port'', B_int (uint (hs_port s))), (str ''server ver'', B_str (hs_ver s)),
          (str ''method'', B_str (hc_method c)), (str ''response code'', B_str (hs_code s)),
          (str ''response msg'', B_str (hs_msg s)), (str ''date'', B_date (re_millis env)),
          (str ''uri'', B_str (get_full_uri env host (hs_ip s) (hc_uri c)))] @
         (case map_of header (str ''referer'') of None \<Rightarrow> [] | Some v \<Rightarrow> [(str ''referer'', B_str v)]))"

definition insert_http :: "report_env \<Rightarrow> http_client_info \<Rightarrow> http_server_info \<Rightarrow> my_event_listener \<Rightarrow> my_event_listener" where
  "insert_http env c s l = insert_doc ''HTTP.requests'' (http_document env c s) l"

text \<open>The loop over the two queues.\<close>

fun match_http ::
    "report_env \<Rightarrow> http_client_info list \<Rightarrow> http_server_info list \<Rightarrow> my_event_listener \<Rightarrow>
     http_client_info list \<times> http_server_info list \<times> my_event_listener" where
  "match_http env (c # cs) (s # ss) l = match_http env cs ss (insert_http env c s l)"
| "match_http env cs ss l = (cs, ss, l)"

definition in_http :: "report_env \<Rightarrow> cdpi_id_dir \<Rightarrow> cdpi_http \<Rightarrow> my_event_listener \<Rightarrow> my_event_listener result" where
  "in_http env d h l =
     (let i = (case map_of (l_http l) (m_id d) of None \<Rightarrow> \<lparr>hi_client = [], hi_server = []\<rparr> | Some i \<Rightarrow> i) in
      bindR (if cdpi_http.m_type h = PROTO_HTTP_CLIENT then Inr (i\<lparr>hi_client := hi_client i @ [http_client env d h]\<rparr>)
             else if cdpi_http.m_type h = PROTO_HTTP_SERVER
             then bindR (http_server env d h) (\<lambda>s. Inr (i\<lparr>hi_server := hi_server i @ [s]\<rparr>))
             else Inr i) (\<lambda>i1.
        case match_http env (hi_client i1) (hi_server i1) l of
          (cs, ss, l1) \<Rightarrow>
            Inr (l1\<lparr>l_http := omap_insert (m_id d) \<lparr>hi_client = cs, hi_server = ss\<rparr> (l_http l1)\<rparr>)))"


section \<open>SSL\<close>

text \<open>The names of the cipher suites and of the compression methods; a suite without a name is its number.\<close>

fun cipher_fields :: "16 word list \<Rightarrow> (16 word, string) omap \<Rightarrow> bson list \<times> (16 word, string) omap" where
  "cipher_fields [] m = ([], m)"
| "cipher_fields (n # ns) m =
     (case num_to_cipher n m of (c, m1) \<Rightarrow>
        (case cipher_fields ns m1 of (bs, m2) \<Rightarrow>
           ((if c = [] then B_int (uint n) else B_str (str c)) # bs, m2)))"

fun compression_fields :: "byte list \<Rightarrow> (byte, string) omap \<Rightarrow> bson list \<times> (byte, string) omap" where
  "compression_fields [] m = ([], m)"
| "compression_fields (n # ns) m =
     (case num_to_compression n m of (c, m1) \<Rightarrow>
        (case compression_fields ns m1 of (bs, m2) \<Rightarrow> (B_str (str c) # bs, m2)))"

text \<open>The parser that the pointer points to, \<open>None\<close> for a null pointer.\<close>

definition get_ssl_obj :: "cdpi_ssl option \<Rightarrow> my_event_listener \<Rightarrow> (bson_fields \<times> my_event_listener) result" where
  "get_ssl_obj p l =
     (case p of
        None \<Rightarrow> Inr ([], l)
      | Some s \<Rightarrow>
          bindR (rds (ssl_random s) 0 32) (\<lambda>random.
            bindR (case m_ptr (ssl_session_id s) of
                     None \<Rightarrow> Inr []
                   | Some a \<Rightarrow> bindR (rdsi a 0 (m_len (ssl_session_id s))) (\<lambda>bs.
                       Inr [(str ''session id'', B_str (bin2str bs))])) (\<lambda>session.
              case cipher_fields (ssl_cipher_suites s) (l_ciphers l) of (ciphers, m1) \<Rightarrow>
                (case compression_fields (ssl_compression_methods s) (l_compressions l) of (compress, m2) \<Rightarrow>
                   Inr ([(str ''unix time'', B_int (uint (ssl_gmt_unix_time s))), (str ''random'', B_str (bin2str random))] @
                     session @
                     (if ciphers = [] then [] else [(str ''cipher suite'', B_arr ciphers)]) @
                     (if compress = [] then [] else [(str ''compression method'', B_arr compress)]),
                     l\<lparr>l_ciphers := m1, l_compressions := m2\<rparr>)))))"

text \<open>The buffer for the numbers of a key has 1024 bytes; a longer number is left out.\<close>

definition number_field :: "string \<Rightarrow> byte list \<Rightarrow> bson_fields" where
  "number_field n bs = (if length bs \<le> 1024 then [(str n, B_str (bin2str bs))] else [])"

definition rsa_fields :: "report_env \<Rightarrow> byte list \<Rightarrow> bson_fields" where
  "rsa_fields env key =
     (case re_rsa env key of
        None \<Rightarrow> []
      | Some k \<Rightarrow>
          if length (rsa_n k) \<le> 1024
          then [(str ''RSA modulus'', B_str (bin2str (rsa_n k)))] @ number_field ''RSA exponent'' (rsa_e k)
          else [])"

definition dsa_param :: "string \<Rightarrow> byte list option \<Rightarrow> bson_fields result" where
  "dsa_param n p = (case p of None \<Rightarrow> Inl NullPointer | Some bs \<Rightarrow> Inr (number_field n bs))"

definition dsa_fields :: "report_env \<Rightarrow> byte list \<Rightarrow> bson_fields result" where
  "dsa_fields env key =
     (case re_dsa env key of
        None \<Rightarrow> Inr []
      | Some k \<Rightarrow>
          if length (dsa_pub_key k) \<le> 1024
          then bindR (dsa_param ''DSA p'' (dsa_p k)) (\<lambda>p. bindR (dsa_param ''DSA q'' (dsa_q k)) (\<lambda>q.
                 bindR (dsa_param ''DSA g'' (dsa_g k)) (\<lambda>g.
                   Inr ([(str ''DSA pub'', B_str (bin2str (dsa_pub_key k)))] @ p @ q @ g))))
          else Inr [])"

definition key_fields :: "report_env \<Rightarrow> x509 \<Rightarrow> bson_fields result" where
  "key_fields env c =
     (case x_key_family c of
        Key_rsa \<Rightarrow> Inr (rsa_fields env (x_public_key c))
      | Key_dsa \<Rightarrow> dsa_fields env (x_public_key c)
      | Key_other \<Rightarrow> Inr [])"

definition text_field :: "string \<Rightarrow> byte list option \<Rightarrow> bson_fields" where
  "text_field n t = (case t of None \<Rightarrow> [] | Some s \<Rightarrow> if length s > 0 then [(str n, B_str s)] else [])"

definition alg_name :: "string option \<Rightarrow> bson" where
  "alg_name a = B_str (case a of None \<Rightarrow> str ''UNKNOWN'' | Some n \<Rightarrow> str n)"

text \<open>The numbers of the type \<open>long\<close> are cut to \<open>int\<close>.\<close>

definition int_of_long :: "int \<Rightarrow> int" where
  "int_of_long n = sint (word_of_int n :: 32 word)"

definition x509_document :: "report_env \<Rightarrow> x509 \<Rightarrow> bson result" where
  "x509_document env c =
     (let validity = text_field ''not before'' (x_not_before c) @ text_field ''not after'' (x_not_after c) in
      bindR (key_fields env c) (\<lambda>key.
        Inr (B_obj
          ([(str ''version'', B_int (int_of_long (x_version c))),
            (str ''serial'', if length (x_serial c) \<le> 4 then B_int (int_of_long (x_serial_number c)) else B_str (bin2str (x_serial c))),
            (str ''signature algorithm'', alg_name (x_sig_alg c)), (str ''signature'', B_str (bin2str (x_signature c)))] @
           text_field ''issuer'' (x_issuer c) @ (if validity = [] then [] else [(str ''validity'', B_obj validity)]) @
           text_field ''subject'' (x_subject c) @ [(str ''public key algorithm'', alg_name (x_key_alg c))] @ key))))"

text \<open>The loop over the certificates, which ends at the first one that cannot be decoded.\<close>

fun get_x509 :: "report_env \<Rightarrow> cdpi_bytes list \<Rightarrow> bson list result" where
  "get_x509 env [] = Inr []"
| "get_x509 env (b # bs) =
     bindR (rdsi (ptr_mem b) 0 (m_len b)) (\<lambda>der.
       case re_x509 env der of
         None \<Rightarrow> Inr []
       | Some cert \<Rightarrow> bindR (x509_document env cert) (\<lambda>doc. bindR (get_x509 env bs) (\<lambda>docs. Inr (doc # docs))))"

definition ssl_at_ptr :: "cdpi_proto list \<Rightarrow> (nat \<times> cdpi_id_dir) option \<Rightarrow> cdpi_ssl option" where
  "ssl_at_ptr H p = map_option (\<lambda>(a, d). ssl_of (H ! a)) p"

definition insert_ssl :: "report_env \<Rightarrow> cdpi_proto list \<Rightarrow> ssl_info \<Rightarrow> my_event_listener \<Rightarrow> my_event_listener result" where
  "insert_ssl env H i l =
     (case (sl_client i, sl_server i) of
        (Some (c, idc), Some (s, ids)) \<Rightarrow>
          bindR (get_ssl_obj (Some (ssl_of (H ! c))) l) (\<lambda>(obj1, l1).
            bindR (get_ssl_obj (Some (ssl_of (H ! s))) l1) (\<lambda>(obj2, l2).
              bindR (get_x509 env (ssl_certificates (ssl_of (H ! s)))) (\<lambda>certs.
                Inr (insert_doc ''SSL.requests''
                  ([(str ''date'', B_date (re_millis env)), (str ''client ip'', B_str (get_addr_src env idc)),
                    (str ''server ip'', B_str (get_addr_dst env idc)),
                    (str ''client port'', B_int (uint (ntohs (get_port_src idc)))),
                    (str ''server port'', B_int (uint (ntohs (get_port_dst idc))))] @
                   (if obj1 = [] then [] else [(str ''client hello'', B_obj obj1)]) @
                   (if obj2 = [] then [] else [(str ''server hello'', B_obj obj2)]) @
                   (if certs = [] then [] else [(str ''certificates'', B_arr certs)])) l2))))
      | _ \<Rightarrow> Inl NullPointer)"

text \<open>\<open>p\<close> is the address of the parser that the event is about, of the direction \<open>d\<close>.\<close>

definition in_ssl ::
    "report_env \<Rightarrow> cdpi_proto list \<Rightarrow> cdpi_event \<Rightarrow> cdpi_id_dir \<Rightarrow> nat option \<Rightarrow> my_event_listener \<Rightarrow> my_event_listener result" where
  "in_ssl env H ev d p l =
     (let i = (case map_of (l_ssl l) (m_id d) of None \<Rightarrow> \<lparr>sl_client = None, sl_server = None\<rparr> | Some i \<Rightarrow> i);
          ptr = map_option (\<lambda>a. (a, d)) p;
          put = (\<lambda>i. l\<lparr>l_ssl := omap_insert (m_id d) i (l_ssl l)\<rparr>)
      in if ev = CDPI_EVENT_SSL_CLIENT_HELLO then Inr (put (i\<lparr>sl_client := ptr\<rparr>))
         else if ev = CDPI_EVENT_SSL_SERVER_HELLO then Inr (put (i\<lparr>sl_server := ptr\<rparr>))
         else if ev = CDPI_EVENT_SSL_CHANGE_CIPHER_SPEC then
           (case (ssl_at_ptr H (sl_client i), ssl_at_ptr H (sl_server i)) of
              (Some c, Some s) \<Rightarrow>
                if ssl_is_change_cipher_spec c \<and> ssl_is_change_cipher_spec s
                then insert_ssl env H i (put i) else Inr (put i)
            | _ \<Rightarrow> Inr (put i))
         else Inr (put i))"

section \<open>Streams\<close>

text \<open>
  \<open>in_stream\<close>: \<open>H\<close> is the store, \<open>p\<close> what \<open>get_proto\<close> returns for the direction, and \<open>h\<close> the HTTP
  parser as the listener sees it when it is one.
\<close>

definition report_stream ::
    "report_env \<Rightarrow> bool \<Rightarrow> cdpi_proto list \<Rightarrow> cdpi_event \<Rightarrow> cdpi_id_dir \<Rightarrow> nat option \<Rightarrow> my_event_listener \<Rightarrow>
     my_event_listener result" where
  "report_stream env undef H ev d p l =
     (if ev = CDPI_EVENT_STREAM_OPEN then Inr (open_tcp undef d l)
      else if ev = CDPI_EVENT_STREAM_CLOSE then Inr (close_tcp d l)
      else if ev = CDPI_EVENT_PROTOCOL_DETECTED then (if p = None then Inl NullPointer else Inr l)
      else if ev = CDPI_EVENT_HTTP_READ then
        (case p of
           None \<Rightarrow> Inl NullPointer
         | Some a \<Rightarrow> (case H ! a of Http_obj h q \<Rightarrow> in_http env d h l | Ssl_obj s \<Rightarrow> Inl NullPointer))
      else if ev = CDPI_EVENT_SSL_CLIENT_HELLO \<or> ev = CDPI_EVENT_SSL_SERVER_HELLO \<or> ev = CDPI_EVENT_SSL_CHANGE_CIPHER_SPEC
      then in_ssl env H ev d
        (case p of None \<Rightarrow> None | Some a \<Rightarrow> (case H ! a of Http_obj h q \<Rightarrow> None | Ssl_obj s \<Rightarrow> Some a)) l
      else Inr l)"


section \<open>Requests and responses\<close>

text \<open>The messages of one connection, in the order in which they end, each with its direction.\<close>

fun report_http :: "report_env \<Rightarrow> (cdpi_id_dir \<times> cdpi_http) list \<Rightarrow> my_event_listener \<Rightarrow> my_event_listener result" where
  "report_http env [] l = Inr l"
| "report_http env ((d, h) # ms) l = bindR (in_http env d h l) (report_http env ms)"

text \<open>The two queues that the messages would make if nothing was ever taken out.\<close>

definition clients :: "report_env \<Rightarrow> (cdpi_id_dir \<times> cdpi_http) list \<Rightarrow> http_client_info list" where
  "clients env ms = map (\<lambda>(d, h). http_client env d h) (filter (\<lambda>(d, h). cdpi_http.m_type h = PROTO_HTTP_CLIENT) ms)"

definition servers :: "report_env \<Rightarrow> (cdpi_id_dir \<times> cdpi_http) list \<Rightarrow> http_server_info list" where
  "servers env ms = map (\<lambda>(d, h). projr (http_server env d h)) (filter (\<lambda>(d, h). cdpi_http.m_type h = PROTO_HTTP_SERVER) ms)"

definition http_pair :: "report_env \<Rightarrow> http_client_info \<times> http_server_info \<Rightarrow> byte list \<times> bson" where
  "http_pair env p = (collection ''HTTP.requests'', B_obj (http_document env (fst p) (snd p)))"

lemma match_http_zip:
  "match_http env cs ss l =
     (drop (length ss) cs, drop (length cs) ss, l\<lparr>l_docs := l_docs l @ map (http_pair env) (zip cs ss)\<rparr>)"
  by (induction env cs ss l rule: match_http.induct) (simp_all add: insert_http_def insert_doc_def http_pair_def)

text \<open>
  What the listener holds for a connection when the messages \<open>ms\<close> were reported: the part of the longer
  queue that has no partner yet, and the documents of the pairs.
\<close>

definition paired :: "report_env \<Rightarrow> cdpi_id \<Rightarrow> (byte list \<times> bson) list \<Rightarrow> (cdpi_id_dir \<times> cdpi_http) list \<Rightarrow> my_event_listener \<Rightarrow> bool" where
  "paired env i docs ms l \<longleftrightarrow>
     l_docs l = docs @ map (http_pair env) (zip (clients env ms) (servers env ms)) \<and>
     (case map_of (l_http l) i of None \<Rightarrow> \<lparr>hi_client = [], hi_server = []\<rparr> | Some q \<Rightarrow> q) =
       \<lparr>hi_client = drop (length (servers env ms)) (clients env ms), hi_server = drop (length (clients env ms)) (servers env ms)\<rparr>"

lemma zip_snoc1: "zip (xs @ [x]) ys = zip xs ys @ zip (drop (length ys) xs @ [x]) (drop (length xs) ys)"
  by (induction xs ys rule: list_induct2') simp_all

lemma zip_snoc2: "zip xs (ys @ [y]) = zip xs ys @ zip (drop (length ys) xs) (drop (length xs) ys @ [y])"
  by (induction xs ys rule: list_induct2') simp_all

lemma in_http_paired:
  assumes "in_http env d h l = Inr l'" "m_id d = i" "paired env i docs ms l"
  shows "paired env i docs (ms @ [(d, h)]) l'"
proof -
  define C S where "C = clients env ms" and "S = servers env ms"
  have q: "l_docs l = docs @ map (http_pair env) (zip C S)"
    "(case map_of (l_http l) i of None \<Rightarrow> \<lparr>hi_client = [], hi_server = []\<rparr> | Some q \<Rightarrow> q) =
      \<lparr>hi_client = drop (length S) C, hi_server = drop (length C) S\<rparr>"
    using assms(3) unfolding paired_def C_def S_def by blast+
  note z = zip_snoc1 [of C _ S] zip_snoc2 [of C S]
  have dz: "zip (drop (length S) C) (drop (length C) S) = []" by (cases "length C < length S") simp_all
  consider "cdpi_http.m_type h = PROTO_HTTP_CLIENT" | "cdpi_http.m_type h = PROTO_HTTP_SERVER" | "cdpi_http.m_type h \<noteq> PROTO_HTTP_CLIENT" "cdpi_http.m_type h \<noteq> PROTO_HTTP_SERVER"
    by blast
  then show ?thesis
  proof cases
    case 1
    have cs: "clients env (ms @ [(d, h)]) = C @ [http_client env d h]" "servers env (ms @ [(d, h)]) = S"
      using 1 by (simp_all add: clients_def servers_def C_def S_def)
    show ?thesis
      using assms(1,2) 1 q z(1) [of "http_client env d h"]
      by (cases "length C \<le> length S") (auto simp: in_http_def paired_def cs match_http_zip)
  next
    case 2
    then obtain s where s: "http_server env d h = Inr s" using assms(1) by (auto simp: in_http_def Let_def bindR_eq_Inr)
    have cs: "clients env (ms @ [(d, h)]) = C" "servers env (ms @ [(d, h)]) = S @ [s]"
      using 2 s by (simp_all add: clients_def servers_def C_def S_def)
    show ?thesis
      using assms(1,2) 2 q z(2) [of s] s
      by (cases "length C \<le> length S") (auto simp: in_http_def paired_def cs match_http_zip)
  next
    case 3
    have cs: "clients env (ms @ [(d, h)]) = C" "servers env (ms @ [(d, h)]) = S"
      using 3 by (simp_all add: clients_def servers_def C_def S_def)
    show ?thesis
      using assms(1,2) 3 q dz
      by (cases "length C \<le> length S") (auto simp: in_http_def paired_def cs match_http_zip)
  qed
qed


text \<open>A body that is not there, or that is as long as it says, as the HTTP parser leaves it.\<close>

definition content_readable :: "cdpi_http \<Rightarrow> bool" where
  "content_readable h \<longleftrightarrow> m_ptr (m_content h) = None \<or> wf_block (m_content h)"

lemma in_http_returns: "content_readable h \<Longrightarrow> \<exists>l'. in_http env d h l = Inr l'"
proof -
  assume "content_readable h"
  then have "\<exists>c. http_content env h = Inr c"
    by (auto simp: content_readable_def wf_block_def http_content_def rdsi_def rds_def ptr_mem_def Let_def split: option.splits)
  then obtain c where "http_content env h = Inr c" by blast
  then show ?thesis by (simp add: in_http_def http_server_def Let_def split: prod.split)
qed

lemma report_http_paired:
  "list_all (\<lambda>(d, h). m_id d = i \<and> content_readable h) ms \<Longrightarrow> paired env i docs ns l \<Longrightarrow>
     \<exists>l'. report_http env ms l = Inr l' \<and> paired env i docs (ns @ ms) l'"
proof (induction env ms l arbitrary: ns rule: report_http.induct)
  case (2 env d h ms l)
  from "2.prems"(1) obtain l1 where l1: "in_http env d h l = Inr l1" using in_http_returns by fastforce
  from in_http_paired [OF l1 _ "2.prems"(2)] "2.prems"(1) have "paired env i docs (ns @ [(d, h)]) l1" by simp
  from "2.IH" [OF l1 _ this] "2.prems"(1) l1 show ?case by simp
qed simp


definition sample_report_env :: report_env where
  "sample_report_env = \<lparr>re_millis = 7, re_ntop6 = (\<lambda>a. []), re_regex_http_uri = (\<lambda>u. False), re_gunzip = id, re_inflate = id,
     re_x509 = (\<lambda>c. None), re_rsa = (\<lambda>k. None), re_dsa = (\<lambda>k. None), re_undef_addr = []\<rparr>"

definition new_listener :: my_event_listener where
  "new_listener = \<lparr>l_tcp = [], l_http = [], l_ssl = [], l_ciphers = init_cipher_suites [],
     l_compressions = init_compression_methods [], l_docs = []\<rparr>"

text \<open>Two requests in a row and one response.\<close>

definition sample_messages :: "(cdpi_id_dir \<times> cdpi_http) list" where
  "sample_messages =
     [(IdDir sample_udp_id FROM_ADDR1, (new_http PROTO_HTTP_CLIENT 0)\<lparr>m_uri := str ''/a''\<rparr>),
      (IdDir sample_udp_id FROM_ADDR1, (new_http PROTO_HTTP_CLIENT 0)\<lparr>m_uri := str ''/b''\<rparr>),
      (IdDir sample_udp_id FROM_ADDR2, new_http PROTO_HTTP_SERVER 0)]"


end
