(* ===== verification/Divert.thy ===== *)
theory Divert
  imports Capture Report
begin

text \<open>
  \<open>cdpi_divert.hpp\<close> and \<open>cdpi_divert.cpp\<close>: the second way in, divert sockets. A packet that is read is
  given to the components and then sent back. What the operating system answers is a parameter.
\<close>

section \<open>State\<close>

text \<open>
  The components, the events that were registered with their sockets, what was sent back (socket, bytes
  and the address that came with the packet), the lines that were printed, and the code of \<open>exit\<close>.
\<close>

record cdpi_divert =
  m_callback :: cdpi_callback
  m_ev_ipv4 :: "int option"
  m_ev_ipv6 :: "int option"
  dv_sent :: "(int \<times> byte list \<times> byte list) list"
  dv_lines :: "byte list list"
  dv_exit :: "int option"

text \<open>The results of \<open>socket\<close> and, for a port in the order of the wire, of \<open>bind\<close>, and whether \<open>event_new\<close> returns an event.\<close>

record divert_os =
  os_socket :: int
  os_bind :: "16 word \<Rightarrow> int"
  os_event :: bool

section \<open>Opening\<close>

definition open_divert :: "divert_os \<Rightarrow> 16 word \<Rightarrow> int" where
  "open_divert os port = (if os_socket os < 0 then - 1 else if os_bind os (ntohs port) < 0 then - 1 else os_socket os)"

definition divert_run_ipv4 :: "divert_os \<Rightarrow> 16 word \<Rightarrow> cdpi_divert \<Rightarrow> cdpi_divert" where
  "divert_run_ipv4 os port s =
     (let fd = open_divert os port in
      if fd < 0 then s\<lparr>dv_exit := Some (- 1)\<rparr>
      else if \<not> os_event os then s\<lparr>dv_exit := Some (- 1)\<rparr>
      else s\<lparr>m_ev_ipv4 := Some fd\<rparr>)"

definition divert_run_ipv6 :: "divert_os \<Rightarrow> 16 word \<Rightarrow> cdpi_divert \<Rightarrow> cdpi_divert" where
  "divert_run_ipv6 os port s =
     (let fd = open_divert os port in
      if fd < 0 then s\<lparr>dv_exit := Some (- 1)\<rparr>
      else if \<not> os_event os then s\<lparr>dv_exit := Some (- 1)\<rparr>
      else s\<lparr>m_ev_ipv6 := Some fd\<rparr>)"

definition divert_run :: "divert_os \<Rightarrow> divert_os \<Rightarrow> 16 word \<Rightarrow> 16 word \<Rightarrow> cdpi_divert \<Rightarrow> cdpi_divert" where
  "divert_run os4 os6 ipv4_port ipv6_port s =
     (let s1 = (if ipv4_port > 0 then divert_run_ipv4 os4 ipv4_port s else s) in
      if dv_exit s1 \<noteq> None then s1
      else if ipv6_port > 0 then divert_run_ipv6 os6 ipv6_port s1 else s1)"

text \<open>The template \<open>run_divert\<close> only opens the socket for IPv4; its \<open>int\<close> is cut to the type of a port.\<close>

definition run_divert :: "divert_os \<Rightarrow> int \<Rightarrow> cdpi_divert \<Rightarrow> cdpi_divert" where
  "run_divert os port s = divert_run os os (word_of_int port) 0 s"

section \<open>Packets\<close>

text \<open>The buffer has 102400 bytes; \<open>junk\<close> is what it holds behind the packet. \<open>None\<close> is a failed \<open>recvfrom\<close>.\<close>

definition divert_buf :: "byte list \<Rightarrow> byte list \<Rightarrow> byte list" where
  "divert_buf junk data = take 102400 (data @ junk)"

definition divert_size :: "byte list \<Rightarrow> nat" where
  "divert_size data = min 102400 (length data)"

definition callback_ipv4 ::
    "int \<Rightarrow> cdpi_id \<Rightarrow> byte list \<Rightarrow> int \<Rightarrow> (byte list \<times> byte list) option \<Rightarrow> cdpi_divert \<Rightarrow> cdpi_divert result" where
  "callback_ipv4 now old junk fd recv s =
     (case recv of
        None \<Rightarrow> Inr (s\<lparr>dv_exit := Some (- 1)\<rparr>)
      | Some (data, sin) \<Rightarrow>
          let buf = divert_buf junk data; size = divert_size data in
          bindR (callback_op now old buf (int size) IPPROTO_IP (m_callback s)) (\<lambda>cb.
          bindR (rds buf 0 size) (\<lambda>out.
            Inr (s\<lparr>m_callback := cb, dv_sent := dv_sent s @ [(fd, out, sin)]\<rparr>))))"

text \<open>The addresses are printed as if they were of IPv4: of each one the first four bytes.\<close>

definition callback_ipv6 ::
    "int \<Rightarrow> cdpi_id \<Rightarrow> byte list \<Rightarrow> int \<Rightarrow> (byte list \<times> byte list) option \<Rightarrow> cdpi_divert \<Rightarrow> cdpi_divert result" where
  "callback_ipv6 now old junk fd recv s =
     (case recv of
        None \<Rightarrow> Inr (s\<lparr>dv_exit := Some (- 1)\<rparr>)
      | Some (data, sin) \<Rightarrow>
          let buf = divert_buf junk data; size = divert_size data in
          bindR (rds buf 8 4) (\<lambda>src. bindR (rds buf 24 4) (\<lambda>dst.
          bindR (callback_op now old buf (int size) IPPROTO_IPV6 (m_callback s)) (\<lambda>cb.
          bindR (rds buf 0 size) (\<lambda>out.
            Inr (s\<lparr>m_callback := cb, dv_sent := dv_sent s @ [(fd, out, sin)],
              dv_lines := dv_lines s @ [str ''recv IPv6: src = '' @ inet_ntop4 src @ str '', dst = '' @ inet_ntop4 dst]\<rparr>))))))"

section \<open>Packets are sent back\<close>

lemma rds_divert_buf: "rds (divert_buf junk data) 0 (divert_size data) = Inr (take 102400 data)"
  by (auto simp: rds_def divert_buf_def divert_size_def min_def)

text \<open>
  Whatever a packet does to the components, it is sent back on the socket and to the address that it came
  from, unchanged up to the size of the buffer, unless a component faults.
\<close>

theorem divert_transparent:
  assumes "callback_ipv4 now old junk fd (Some (data, sin)) s = Inr s' \<or> callback_ipv6 now old junk fd (Some (data, sin)) s = Inr s'"
  shows "dv_sent s' = dv_sent s @ [(fd, take 102400 data, sin)] \<and> dv_exit s' = dv_exit s"
  using assms by (auto simp: callback_ipv4_def callback_ipv6_def Let_def rds_divert_buf bindR_eq_Inr)

text \<open>A datagram with encoded data that is diverted is queued for the UDP component and sent back.\<close>

lemma divert_udp4:
  assumes "udp4_header h (28 + length bs)" "length udph = 8" "cb_udp (m_callback s) = new_udp" "28 + length bs \<le> 102400"
  shows "\<exists>i dir u. callback_ipv4 now old junk fd (Some (h @ udph @ bs, sin)) s =
      Inr (s\<lparr>m_callback := (m_callback s)\<lparr>cb_udp := u\<rparr>, dv_sent := dv_sent s @ [(fd, h @ udph @ bs, sin)]\<rparr>) \<and>
    u = new_udp\<lparr>u_queue := [\<lparr>u_id_dir = IdDir i dir, u_bytes = \<lparr>m_ptr = Some (udph @ bs), m_pos = 0, m_len = int (8 + length bs)\<rparr>\<rparr>]\<rparr>"
proof -
  have hl: "length h = 20" using assms(1) by (simp add: udp4_header_def)
  define rest where "rest = take (102400 - (28 + length bs)) junk"
  have buf: "divert_buf junk (h @ udph @ bs) = h @ udph @ bs @ rest" and size: "divert_size (h @ udph @ bs) = 28 + length bs"
    using hl assms(2,4) by (simp_all add: divert_buf_def divert_size_def rest_def min_def)
  from set_iph_udp4 [OF assms(1,2), of old "bs @ rest"] obtain dir i
    where i: "set_iph old (h @ udph @ bs @ rest) IPPROTO_IP = Inr (dir, i, Some 20)" "m_l4_proto i = IPPROTO_UDP" by blast
  have t: "take (nat (int (28 + length bs)) - 20) (drop 20 (h @ udph @ bs @ rest)) = udph @ bs"
    using hl assms(2) by simp
  from input_udp_stored [OF t assms(2), of i dir new_udp] hl assms(2)
  have "input_udp i dir (h @ udph @ bs @ rest) (int (28 + length bs)) 20 new_udp =
      Inr (new_udp\<lparr>u_queue := [\<lparr>u_id_dir = IdDir i dir, u_bytes = \<lparr>m_ptr = Some (udph @ bs), m_pos = 0, m_len = int (8 + length bs)\<rparr>\<rparr>]\<rparr>)"
    by (simp add: new_udp_def)
  moreover have "rds (h @ udph @ bs @ rest) 0 (28 + length bs) = Inr (h @ udph @ bs)"
    using rds_divert_buf [of junk "h @ udph @ bs"] hl assms(2,4) by (simp add: buf size)
  ultimately show ?thesis
    using i assms(3) by (auto simp: callback_ipv4_def Let_def buf size callback_op_def)
qed

end
