(* ===== verification/Report_Datagram.thy ===== *)
theory Report_Datagram
  imports Report
begin

text \<open>
  The reports of the listener of \<open>cdpi_mongo.cpp\<close> about datagrams: DNS messages and the messages of the
  distributed hash table of BitTorrent.
\<close>


section \<open>DNS\<close>

definition dot_name :: "byte list \<Rightarrow> bson" where
  "dot_name n = B_str (n @ str ''.'')"

text \<open>
  The fields that the type of a record adds. Every type casts the data to its class, and a cast that
  fails gives a null pointer, which is dereferenced.
\<close>

definition rdata_fields :: "report_env \<Rightarrow> nat \<Rightarrow> cdpi_dns_rdata option \<Rightarrow> bson_fields result" where
  "rdata_fields env type rdata =
     (if type = DNS_TYPE_A then
        (case rdata of Some (Rd_a a) \<Rightarrow> Inr [(str ''a'', B_str (inet_ntop4 (le_bytes 4 (unat a))))] | _ \<Rightarrow> Inl NullPointer)
      else if type = DNS_TYPE_AAAA then
        (case rdata of Some (Rd_aaaa a) \<Rightarrow> Inr [(str ''aaaa'', B_str (re_ntop6 env a))] | _ \<Rightarrow> Inl NullPointer)
      else if type = DNS_TYPE_PTR then
        (case rdata of Some (Rd_ptr n) \<Rightarrow> Inr [(str ''ptr'', B_str n)] | _ \<Rightarrow> Inl NullPointer)
      else if type = DNS_TYPE_NS then
        (case rdata of Some (Rd_ns n) \<Rightarrow> Inr [(str ''ns'', B_str n)] | _ \<Rightarrow> Inl NullPointer)
      else if type = DNS_TYPE_CNAME then
        (case rdata of Some (Rd_cname n) \<Rightarrow> Inr [(str ''cname'', B_str n)] | _ \<Rightarrow> Inl NullPointer)
      else if type = DNS_TYPE_TXT then
        (case rdata of Some (Rd_txt t) \<Rightarrow> Inr [(str ''txt'', B_str t)] | _ \<Rightarrow> Inl NullPointer)
      else if type = DNS_TYPE_MX then
        (case rdata of Some (Rd_mx n x) \<Rightarrow> Inr [(str ''preference'', B_int (uint (ntohs n))), (str ''exchange'', B_str x)]
         | _ \<Rightarrow> Inl NullPointer)
      else if type = DNS_TYPE_HINFO then
        (case rdata of Some (Rd_hinfo c os) \<Rightarrow> Inr [(str ''cpu'', B_str c), (str ''os'', B_str os)] | _ \<Rightarrow> Inl NullPointer)
      else if type = DNS_TYPE_SOA then
        (case rdata of
           Some (Rd_soa s) \<Rightarrow> Inr [(str ''mname'', B_str (m_mname s)), (str ''rname'', B_str (m_rname s)),
             (str ''serial'', B_int (uint (ntohl (m_serial s)))), (str ''refresh'', B_int (uint (ntohl (m_refresh s)))),
             (str ''retry'', B_int (uint (ntohl (m_retry s)))), (str ''expire'', B_int (uint (ntohl (m_expire s)))),
             (str ''minumum'', B_int (uint (ntohl (m_minimum s))))]
         | _ \<Rightarrow> Inl NullPointer)
      else Inr [])"

fun dns_rr :: "report_env \<Rightarrow> cdpi_dns_rr list \<Rightarrow> bson list result" where
  "dns_rr env [] = Inr []"
| "dns_rr env (r # rs) =
     bindR (rdata_fields env (unat (ntohs (m_type r))) (m_rdata r)) (\<lambda>fs.
       bindR (dns_rr env rs) (\<lambda>bs.
         Inr (B_obj ([(str ''name'', dot_name (m_name r)), (str ''type'', B_int (uint (ntohs (m_type r)))),
           (str ''class'', B_int (uint (ntohs (m_class r)))), (str ''ttl'', B_int (uint (ntohl (m_ttl r))))] @ fs) # bs)))"

definition question_fields :: "cdpi_dns_question \<Rightarrow> bson" where
  "question_fields q = B_obj [(str ''qname'', dot_name (m_qname q)), (str ''qtype'', B_int (uint (ntohs (m_qtype q)))),
     (str ''qclass'', B_int (uint (ntohs (m_qclass q))))]"

definition flag_field :: "string \<Rightarrow> bool \<Rightarrow> bson_fields" where
  "flag_field n b = (if b then [(str n, B_bool True)] else [])"

definition arr_field :: "string \<Rightarrow> bson list \<Rightarrow> bson_fields" where
  "arr_field n bs = (if bs = [] then [] else [(str n, B_arr bs)])"

definition in_dns :: "report_env \<Rightarrow> cdpi_id_dir \<Rightarrow> cdpi_dns \<Rightarrow> my_event_listener \<Rightarrow> my_event_listener result" where
  "in_dns env d m l =
     bindR (dns_rr env (m_answer m)) (\<lambda>ans. bindR (dns_rr env (m_authority m)) (\<lambda>auth.
       bindR (dns_rr env (m_additional m)) (\<lambda>add.
         Inr (insert_doc ''DNS.requests''
           ([(str ''ip src'', B_str (get_addr_src env d)), (str ''ip dst'', B_str (get_addr_dst env d)),
             (str ''port src'', B_int (uint (ntohs (get_port_src d)))), (str ''port dst'', B_int (uint (ntohs (get_port_dst d)))),
             (str ''date'', B_date (re_millis env)), (str ''id'', B_int (uint (ntohs (dns_get_id m)))),
             (str ''opcode'', B_int (get_opcode m)), (str ''rcode'', B_int (get_rcode m))] @
            flag_field ''is_qr'' (is_qr m) @ flag_field ''is_aa'' (is_aa m) @ flag_field ''is_tc'' (is_tc m) @
            flag_field ''is_rd'' (is_rd m) @ flag_field ''is_ra'' (is_ra m) @ flag_field ''is_ad'' (is_ad m) @
            flag_field ''is_cd'' (is_cd m) @
            [(str ''query'', B_arr (map question_fields (m_quesiton m)))] @
            arr_field ''answer'' ans @ arr_field ''authority'' auth @ arr_field ''additional'' add) l))))"

section \<open>BitTorrent\<close>

text \<open>A string is read from the start of its array.\<close>

definition str_bytes :: "cdpi_bytes \<Rightarrow> byte list result" where
  "str_bytes b = rdsi (ptr_mem b) 0 (m_len b)"

text \<open>The hexadecimal text of a string in a dictionary, \<open>None\<close> when the key has no string.\<close>

definition get_ben_val :: "(cdpi_bytes \<times> ben_data) list \<Rightarrow> byte list \<Rightarrow> byte list option result" where
  "get_ben_val m key =
     bindR (get_dict_data key (int (length key)) m) (\<lambda>v.
       case v of
         Some (Ben_str b) \<Rightarrow> bindR (str_bytes b) (\<lambda>bs. Inr (Some (bin2str bs)))
       | _ \<Rightarrow> Inr None)"

definition ben_val_field :: "string \<Rightarrow> byte list option \<Rightarrow> bson_fields" where
  "ben_val_field n v = (case v of None \<Rightarrow> [] | Some s \<Rightarrow> [(str n, B_str s)])"

text \<open>The \<open>n\<close> nodes from offset \<open>p\<close> on, of 20 bytes of identifier, 4 of address and 2 of port each.\<close>

fun dht_nodes :: "byte list \<Rightarrow> nat \<Rightarrow> nat \<Rightarrow> bson list result" where
  "dht_nodes mem p 0 = Inr []"
| "dht_nodes mem p (Suc n) =
     bindR (rds mem p 20) (\<lambda>i. bindR (rds mem (p + 20) 4) (\<lambda>ip. bindR (rds mem (p + 24) 2) (\<lambda>port.
       bindR (dht_nodes mem (p + 26) n) (\<lambda>bs.
         Inr (B_obj [(str ''id'', B_str (bin2str i)), (str ''ip'', B_str (inet_ntop4 ip)),
           (str ''port'', B_int (uint (u16_of port)))] # bs)))))"

definition get_dht_nodes :: "cdpi_bytes \<Rightarrow> bson list result" where
  "get_dht_nodes b = dht_nodes (ptr_mem b) 0 (nat (m_len b div 26))"

definition response_fields :: "(cdpi_bytes \<times> ben_data) list \<Rightarrow> bson_fields result" where
  "response_fields r =
     bindR (get_ben_val r (str ''id'')) (\<lambda>i. bindR (get_ben_val r (str ''token'')) (\<lambda>token.
       bindR (get_dict_data (str ''nodes'') 5 r) (\<lambda>v.
         bindR (case v of Some (Ben_str b) \<Rightarrow> get_dht_nodes b | _ \<Rightarrow> Inr []) (\<lambda>nodes.
           Inr (ben_val_field ''id'' i @ ben_val_field ''token'' token @ arr_field ''nodes'' nodes)))))"

definition in_bencode :: "report_env \<Rightarrow> ben_data option \<Rightarrow> my_event_listener \<Rightarrow> my_event_listener result" where
  "in_bencode env data l =
     (case data of
        Some (Ben_dict m) \<Rightarrow>
          bindR (get_dict_data (str ''y'') 1 m) (\<lambda>v.
            case v of
              Some (Ben_str yb) \<Rightarrow>
                bindR (str_bytes yb) (\<lambda>y. bindR (get_ben_val m (str ''t'')) (\<lambda>t.
                  let fs = [(str ''date'', B_date (re_millis env)), (str ''y'', B_str y)] @ ben_val_field ''t'' t in
                  bindR (rd (ptr_mem yb) 0) (\<lambda>c.
                    if c = 0x72 then
                      bindR (get_dict_data (str ''r'') 1 m) (\<lambda>r.
                        case r of
                          Some (Ben_dict rm) \<Rightarrow>
                            bindR (response_fields rm) (\<lambda>rs. Inr (insert_doc ''DHT.requests'' (fs @ rs) l))
                        | _ \<Rightarrow> Inr l)
                    else Inr (insert_doc ''DHT.requests'' fs l))))
            | _ \<Rightarrow> Inr l)
      | _ \<Rightarrow> Inr l)"

text \<open>\<open>in_datagram\<close>.\<close>

definition report_datagram :: "report_env \<Rightarrow> udp_call \<Rightarrow> my_event_listener \<Rightarrow> my_event_listener result" where
  "report_datagram env c l =
     (case c of (ev, d, data) \<Rightarrow>
        if ev = CDPI_EVENT_BENCODE then
          (case data of Bencode_message v h \<Rightarrow> in_bencode env v l | _ \<Rightarrow> Inl NullPointer)
        else if ev = CDPI_EVENT_DNS then
          (case data of Dns_message m \<Rightarrow> in_dns env d m l | _ \<Rightarrow> Inl NullPointer)
        else Inr l)"

section \<open>What is decoded can be reported\<close>

lemma rdata_fields_decoded:
  assumes "decode_rdata mem total_len p buf_len type rdlen = Inr (Some rdata)"
  shows "returns (rdata_fields env type rdata)"
proof -
  have soa: "\<exists>s. soa = Some s" if "decode_soa mem total_len p buf_len = Inr (r, soa)" "0 \<le> r" for r soa
    using that by (auto simp: decode_soa_def bindR_eq_Inr Let_def split: if_splits)
  show ?thesis
    using assms by (auto simp: decode_rdata_def rdata_fields_def bindR_eq_Inr dest: soa split: if_splits)
qed

definition rr_reported :: "report_env \<Rightarrow> cdpi_dns_rr \<Rightarrow> bool" where
  "rr_reported env r \<longleftrightarrow> returns (rdata_fields env (unat (ntohs (m_type r))) (m_rdata r))"

lemma dns_rr_returns: "list_all (rr_reported env) rs \<Longrightarrow> returns (dns_rr env rs)"
  by (induction rs) (auto simp: rr_reported_def returns_def)

lemma decode_rr_reported:
  "decode_rr mem total_len p buf_len num readlen rs = Inr (r, rs') \<Longrightarrow> list_all (rr_reported env) rs \<Longrightarrow> list_all (rr_reported env) rs'"
proof (induction mem total_len p buf_len num readlen rs arbitrary: r rs' rule: decode_rr.induct)
  case (2 mem total_len p buf_len num readlen rs)
  from "2.prems"(1) obtain dlen name where n: "read_domain mem total_len p buf_len 0 [] 0 = Inr (dlen, name)"
    by (auto simp: bindR_eq_Inr)
  show ?case
  proof (cases "dlen < 0 \<or> buf_len - dlen < 10")
    case True
    with "2.prems" n show ?thesis by (auto simp: Let_def split: if_splits)
  next
    case False
    let ?p1 = "p + nat dlen"
    from "2.prems"(1) n False obtain ty cl ttl rl where w: "rds mem ?p1 2 = Inr ty" "rds mem (?p1 + 2) 2 = Inr cl"
      "rds mem (?p1 + 4) 4 = Inr ttl" "rds mem (?p1 + 8) 2 = Inr rl"
      by (auto simp: Let_def bindR_eq_Inr)
    let ?rdlen = "unat (ntohs (u16_of rl))" and ?type = "unat (ntohs (u16_of ty))"
    show ?thesis
    proof (cases "buf_len - dlen - 10 < int ?rdlen")
      case True
      with "2.prems" n False w show ?thesis by (auto simp: Let_def)
    next
      case rdlen: False
      from "2.prems"(1) n False w rdlen obtain rd' where d: "decode_rdata mem total_len (?p1 + 10) (buf_len - dlen - 10) ?type ?rdlen = Inr rd'"
        by (auto simp: Let_def bindR_eq_Inr)
      show ?thesis
      proof (cases rd')
        case None
        with "2.prems" n False w rdlen d show ?thesis by (auto simp: Let_def)
      next
        case (Some rdata)
        let ?r = "\<lparr>m_name = name, m_type = u16_of ty, m_class = u16_of cl, m_ttl = u32_of ttl, m_rdata = rdata\<rparr>"
        have "rr_reported env ?r" using rdata_fields_decoded d Some by (auto simp: rr_reported_def)
        with "2.prems"(2) have ok: "list_all (rr_reported env) (rs @ [?r])" by simp
        have "decode_rr mem total_len (?p1 + 10 + ?rdlen) (buf_len - dlen - 10 - int ?rdlen) num (readlen + dlen + 10 + int ?rdlen)
            (rs @ [?r]) = Inr (r, rs')"
          using "2.prems"(1) n False w rdlen d Some by (simp add: Let_def)
        from "2.IH" [OF n refl _ refl refl _ w refl refl refl refl _ d Some this ok] False rdlen show ?thesis by simp
      qed
    qed
  qed
qed simp

lemma dns_decode_reported:
  assumes "dns_decode (new_dns hd0) mem len = Inr (True, m)"
  shows "list_all (rr_reported env) (m_answer m) \<and> list_all (rr_reported env) (m_authority m) \<and> list_all (rr_reported env) (m_additional m)"
  using assms
  by (auto simp: dns_decode_def new_dns_def bindR_eq_Inr Let_def dest!: decode_rr_reported [where env = env] split: if_splits)

text \<open>
  What a client of the decoder does with a list of records: it must return on records whose data is of the
  class that their type calls for. It then returns on every section of every message that is accepted, of
  any sender.
\<close>

locale dns_client =
  fixes scan :: "cdpi_dns_rr list \<Rightarrow> 'a result" and env :: report_env
  assumes scan_returns: "list_all (rr_reported env) rs \<Longrightarrow> returns (scan rs)"
begin

lemma accepted:
  assumes "dns_decode (new_dns h) mem len = Inr (True, m)"
  shows "returns (scan (m_answer m))" "returns (scan (m_authority m))" "returns (scan (m_additional m))"
  using dns_decode_reported [OF assms] by (auto intro: scan_returns)

lemma decoded:
  assumes "len + 16 \<le> int (length mem)"
  shows "\<exists>ok m. dns_decode (new_dns h) mem len = Inr (ok, m) \<and> (ok \<longrightarrow> returns (scan (m_answer m)))"
proof -
  from dns_decode_total [OF assms, of "new_dns h"] obtain ok m where d: "dns_decode (new_dns h) mem len = Inr (ok, m)"
    by (auto simp: returns_def)
  with accepted(1) show ?thesis by (cases ok) auto
qed

end

interpretation reporter: dns_client "dns_rr env" env for env
  by unfold_locales (rule dns_rr_returns)

lemma in_dns_fields:
  assumes "dns_decode (new_dns hd0) mem len = Inr (True, m)"
  shows "\<exists>fs. in_dns env d m l = Inr (insert_doc ''DNS.requests'' fs l) \<and>
     (str ''id'', B_int (uint (ntohs (dns_get_id m)))) \<in> set fs \<and>
     (str ''query'', B_arr (map question_fields (m_quesiton m))) \<in> set fs"
proof -
  from reporter.accepted [OF assms, of env] obtain a b c where r: "dns_rr env (m_answer m) = Inr a" "dns_rr env (m_authority m) = Inr b"
    "dns_rr env (m_additional m) = Inr c" by (auto simp: returns_def)
  show ?thesis unfolding in_dns_def r bindR_Inr by (intro exI conjI) (rule refl, simp_all)
qed

lemma in_dns_reported:
  assumes "dns_decode (new_dns hd0) mem len = Inr (True, m)"
  shows "\<exists>fs. in_dns env d m l = Inr (insert_doc ''DNS.requests'' fs l)"
  using in_dns_fields [OF assms] by blast

text \<open>
  C18: a message that the decoder accepts, of any sender, is reported: the cast that the type of each
  record calls for finds the data that the decoder attached to it, so that no null pointer is used.
\<close>

theorem dns_report_safe:
  assumes "dns_decode (new_dns hd0) mem len = Inr (True, m)"
  shows "\<exists>fs. in_dns env d m l = Inr (insert_doc ''DNS.requests'' fs l)"
  by (rule in_dns_reported [OF assms])

text \<open>A message without questions and with one address record for the root.\<close>

definition sample_answer_message :: "byte list" where
  "sample_answer_message = [0, 0, 0x80, 0, 0, 0, 0, 1, 0, 0, 0, 0, 0, 0, 1, 0, 1, 0, 0, 0, 9, 0, 4, 10, 0, 0, 1]"

lemma sample_answer_decodes:
  "\<exists>m. dns_decode (new_dns (header_of (replicate 12 0))) sample_answer_message 27 = Inr (True, m)"
proof -
  have c: "unat (ntohs (u16_of [0, 0])) = 0" "unat (ntohs (u16_of [0, 1])) = 1" "unat (ntohs (u16_of [0, 4])) = 4"
    by (simp_all add: be_nat_def)
  have root: "read_domain sample_answer_message 27 12 15 0 [] 0 = Inr (1, [])"
    using read_domain_root [of sample_answer_message 12 0 15 27 0 "[]"] by (simp add: sample_answer_message_def rd_def)
  show ?thesis
    using root by (simp add: dns_decode_def sample_answer_message_def rds_def header_of_def c decode_rdata_def decode_a_def)
qed

theorem dns_report_safe_witness:
  "\<exists>m fs. dns_decode (new_dns (header_of (replicate 12 0))) sample_answer_message 27 = Inr (True, m) \<and>
     in_dns sample_report_env (IdDir sample_udp_id FROM_ADDR1) m new_listener = Inr (insert_doc ''DNS.requests'' fs new_listener)"
  using sample_answer_decodes dns_report_safe by blast

section \<open>The nodes of a response\<close>

text \<open>A node as it is sent and as it is reported: the port stays in the order of the wire.\<close>

datatype dht_node = Node (n_id: "byte list") (n_ip: "byte list") (n_port: "byte list")

definition node_ok :: "dht_node \<Rightarrow> bool" where
  "node_ok n \<longleftrightarrow> length (n_id n) = 20 \<and> length (n_ip n) = 4 \<and> length (n_port n) = 2"

definition node_bytes :: "dht_node \<Rightarrow> byte list" where
  "node_bytes n = n_id n @ n_ip n @ n_port n"

definition node_doc :: "dht_node \<Rightarrow> bson" where
  "node_doc n = B_obj [(str ''id'', B_str (bin2str (n_id n))), (str ''ip'', B_str (inet_ntop4 (n_ip n))),
     (str ''port'', B_int (uint (u16_of (n_port n))))]"

lemma dht_nodes_at:
  "list_all node_ok ns \<Longrightarrow> dht_nodes (pre @ concat (map node_bytes ns) @ post) (length pre) (length ns) = Inr (map node_doc ns)"
proof (induction ns arbitrary: pre)
  case (Cons n ns)
  let ?mem = "pre @ concat (map node_bytes (n # ns)) @ post"
  have n: "length (n_id n) = 20" "length (n_ip n) = 4" "length (n_port n) = 2" using Cons.prems by (simp_all add: node_ok_def)
  have m: "?mem = (pre @ node_bytes n) @ concat (map node_bytes ns) @ post" "length (pre @ node_bytes n) = length pre + 26"
    using n by (simp_all add: node_bytes_def)
  have "dht_nodes ?mem (length pre + 26) (length ns) = Inr (map node_doc ns)"
    unfolding m(1) m(2) [symmetric] by (rule Cons.IH) (use Cons.prems in simp)
  moreover have "rds ?mem (length pre) 20 = Inr (n_id n)" "rds ?mem (length pre + 20) 4 = Inr (n_ip n)"
    "rds ?mem (length pre + 24) 2 = Inr (n_port n)"
    using n by (simp_all add: node_bytes_def rds_def)
  ultimately show ?case by (simp add: node_doc_def)
qed simp

text \<open>
  The nodes of a response of the distributed hash table are all reported, in their order, with
  identifier, address and port, whatever incomplete node follows them; nothing is read behind the string.
\<close>

theorem dht_nodes_read:
  assumes "list_all node_ok ns" "length rest < 26"
  shows "get_dht_nodes (ben_str (concat (map node_bytes ns) @ rest)) = Inr (map node_doc ns)"
proof -
  have "length (concat (map node_bytes ns)) = 26 * length ns"
    using assms(1) by (induction ns) (auto simp: node_ok_def node_bytes_def)
  then have "nat (int (length (concat (map node_bytes ns) @ rest)) div 26) = length ns"
    using assms(2) by simp
  then show ?thesis
    using dht_nodes_at [OF assms(1), of "[]" "rest @ [0]"] by (simp add: get_dht_nodes_def ben_str_def ptr_mem_def)
qed

theorem dht_nodes_read_witness:
  "get_dht_nodes (ben_str (replicate 20 9 @ [10, 0, 0, 1] @ [0x1A, 0xE1] @ [3, 4])) =
     Inr [node_doc (Node (replicate 20 9) [10, 0, 0, 1] [0x1A, 0xE1])]"
  using dht_nodes_read [of "[Node (replicate 20 9) [10, 0, 0, 1] [0x1A, 0xE1]]" "[3, 4]"]
  by (simp add: node_ok_def node_bytes_def)

end
