(* ===== verification/Chaos.thy ===== *)
theory Chaos
  imports Report_Datagram Dns_Wire
begin

text \<open>
  \<open>cdpi_mongo_chaos.cpp\<close>: the program that asks name servers for the version of their software, with a
  query of the class CHAOS, and writes the answers to the database. Its callbacks run one after the
  other in the event loop of libevent: a timer sends queries, a socket receives the answers, and a
  second timer ends the program.
\<close>

section \<open>State\<close>

text \<open>
  What is taken from outside: \<open>inet_pton\<close> with its result and the four bytes that it leaves in the
  cleared address, what the receive buffer holds behind a datagram, and what the header of a new
  decoder holds.
\<close>

record chaos_env =
  ce_pton :: "byte list \<Rightarrow> int \<times> byte list"
  ce_junk :: "byte list"
  ce_header :: cdpi_dns_header

text \<open>
  The global variables, the two timers, and what leaves the program: the datagrams with address and port
  in the order of the wire, the updates of the database (collection, condition, change, and whether all
  matching documents are changed), and the lines that are printed.
\<close>

record chaos =
  ch_dns_servers :: "byte list list"
  ch_query :: "byte list"
  ch_query_id :: "16 word"
  ch_ev_send :: bool
  ch_quit_timers :: nat
  ch_exited :: bool
  ch_sent :: "(byte list \<times> 16 word \<times> byte list) list"
  ch_updates :: "(byte list \<times> bson_fields \<times> bson_fields \<times> bool) list"
  ch_lines :: "byte list list"

abbreviation (input) QUERY_PER_CYCLE :: int where "QUERY_PER_CYCLE \<equiv> 1000"
abbreviation (input) DNS_CLASS_CH :: nat where "DNS_CLASS_CH \<equiv> 3"

section \<open>The query\<close>

text \<open>\<open>memcpy\<close> into an array of bytes.\<close>

definition poke :: "nat \<Rightarrow> byte list \<Rightarrow> byte list \<Rightarrow> byte list" where
  "poke i bs buf = take i buf @ bs @ drop (i + length bs) buf"

definition u16_mem :: "16 word \<Rightarrow> byte list" where
  "u16_mem n = le_bytes 2 (unat n)"

text \<open>\<open>rnd\<close> is what \<open>rand\<close> returns. The result is the array and the identifier as it is in memory.\<close>

definition init_query :: "int \<Rightarrow> byte list \<times> 16 word" where
  "init_query rnd =
     (let q0 = replicate 30 0;
          n = ntohs (word_of_int (rnd AND 0x0000ffff));
          q1 = poke 0 (u16_mem n) q0;
          q2 = poke 2 (u16_mem (ntohs 0x0100)) q1;
          q3 = poke 4 (u16_mem (ntohs 1)) q2;
          q4 = poke 13 (str ''VERSION'') (q3[12 := 7]);
          q5 = poke 21 (str ''BIND'') (q4[20 := 4]);
          q6 = poke 26 (u16_mem (ntohs 0x0010)) q5;
          q7 = poke 28 (u16_mem (ntohs 0x0003)) q6
      in (q7, n))"

section \<open>The callbacks\<close>

text \<open>
  The loop over the servers, which ends when the queue is empty or when the counter exceeds the number
  of queries for one cycle. A C string ends at its first zero byte.
\<close>

fun send_loop ::
    "chaos_env \<Rightarrow> byte list \<Rightarrow> int \<Rightarrow> byte list list \<Rightarrow> (byte list \<times> 16 word \<times> byte list) list \<Rightarrow>
     byte list list \<times> (byte list \<times> 16 word \<times> byte list) list" where
  "send_loop env q n [] sent = ([], sent)"
| "send_loop env q n (s # ss) sent =
     (case ce_pton env (takeWhile (\<lambda>c. c \<noteq> 0) s) of (r, a) \<Rightarrow>
        if r < 0 then send_loop env q n ss sent
        else if n + 1 > QUERY_PER_CYCLE then (ss, sent @ [(a, ntohs 53, q)])
        else send_loop env q (n + 1) ss (sent @ [(a, ntohs 53, q)]))"

definition send_query :: "chaos_env \<Rightarrow> chaos \<Rightarrow> chaos" where
  "send_query env c =
     (case send_loop env (ch_query c) 0 (ch_dns_servers c) (ch_sent c) of (ss, sent) \<Rightarrow>
        let c1 = c\<lparr>ch_dns_servers := ss, ch_sent := sent\<rparr> in
        if ss = [] then c1\<lparr>ch_ev_send := False, ch_quit_timers := ch_quit_timers c1 + 1\<rparr> else c1)"

definition quit_query :: "chaos \<Rightarrow> chaos" where
  "quit_query c = c\<lparr>ch_exited := True\<rparr>"

text \<open>The first text of the class CHAOS among the answers.\<close>

fun first_version :: "cdpi_dns_rr list \<Rightarrow> byte list option result" where
  "first_version [] = Inr None"
| "first_version (r # rs) =
     (if unat (ntohs (m_type r)) = DNS_TYPE_TXT \<and> unat (ntohs (m_class r)) = DNS_CLASS_CH
      then (case m_rdata r of Some (Rd_txt t) \<Rightarrow> Inr (Some t) | _ \<Rightarrow> Inl NullPointer)
      else first_version rs)"

text \<open>A datagram that arrives: the bytes, and the address and the port of the sender.\<close>

record chaos_datagram =
  cd_data :: "byte list"
  cd_addr :: "byte list"
  cd_port :: "16 word"

text \<open>
  \<open>what\<close> tells whether the event is \<open>EV_READ\<close>, and \<open>recv\<close> is what \<open>recvfrom\<close> finds, \<open>None\<close> when it
  fails. It copies at most 1024 bytes.
\<close>

definition callback_dns :: "chaos_env \<Rightarrow> bool \<Rightarrow> chaos_datagram option \<Rightarrow> chaos \<Rightarrow> chaos result" where
  "callback_dns env what recv c =
     (if \<not> what then Inr c
      else case recv of
        None \<Rightarrow> Inr c
      | Some dg \<Rightarrow>
          let buf = take 1024 (cd_data dg @ ce_junk env); readlen = int (min 1024 (length (cd_data dg))) in
          if unat (ntohs (cd_port dg)) = 53 then
            let addr = inet_ntop4 (cd_addr dg);
                c1 = c\<lparr>ch_lines := ch_lines c @ [str ''reply from '' @ addr @ str '':'' @ num_text 10 (unat (ntohs (cd_port dg)))]\<rparr>
            in bindR (dns_decode (new_dns (ce_header env)) buf readlen) (\<lambda>(ok, m).
                 if ok then
                   bindR (first_version (m_answer m)) (\<lambda>v.
                     case v of
                       None \<Rightarrow> Inr c1
                     | Some t \<Rightarrow> Inr (c1\<lparr>
                         ch_updates := ch_updates c1 @ [(collection ''DNS.servers'', [(str ''_id'', B_str addr)],
                           [(str ''$set'', B_obj [(str ''ver'', B_str t)])], False)],
                         ch_lines := ch_lines c1 @ [t]\<rparr>))
                 else Inr c1)
          else Inr c)"

section \<open>The program\<close>

text \<open>
  \<open>init\<close> when the connection, the event base and the socket are there: the fields of an earlier run are
  removed from all documents, and the queue is filled by \<open>get_servers\<close> with the names \<open>ids\<close> that the
  database holds.
\<close>

definition get_servers :: "byte list list \<Rightarrow> chaos \<Rightarrow> chaos" where
  "get_servers ids c = c\<lparr>ch_dns_servers := ch_dns_servers c @ ids\<rparr>"

definition chaos_init :: "int \<Rightarrow> byte list list \<Rightarrow> chaos" where
  "chaos_init rnd ids =
     (case init_query rnd of (q, n) \<Rightarrow>
        get_servers ids
          \<lparr>ch_dns_servers = [], ch_query = q, ch_query_id = n, ch_ev_send = True, ch_quit_timers = 0, ch_exited = False,
           ch_sent = [],
           ch_updates = [(collection ''DNS.servers'', [],
             [(str ''$unset'', B_obj [(str ''ver'', B_int 1), (str ''type'', B_int 1), (str ''type_ver'', B_int 1)])], True)],
           ch_lines = []\<rparr>)"

text \<open>
  The event loop: a timer that was removed does not fire, and after \<open>exit\<close> nothing happens any more.
\<close>

datatype chaos_event = Ev_send | Ev_dns bool "chaos_datagram option" | Ev_quit

definition chaos_dispatch :: "chaos_env \<Rightarrow> chaos_event \<Rightarrow> chaos \<Rightarrow> chaos result" where
  "chaos_dispatch env e c =
     (if ch_exited c then Inr c
      else case e of
        Ev_send \<Rightarrow> Inr (if ch_ev_send c then send_query env c else c)
      | Ev_dns what recv \<Rightarrow> callback_dns env what recv c
      | Ev_quit \<Rightarrow> Inr (if ch_quit_timers c > 0 then (quit_query c)\<lparr>ch_quit_timers := ch_quit_timers c - 1\<rparr> else c))"

fun chaos_run :: "chaos_env \<Rightarrow> chaos_event list \<Rightarrow> chaos \<Rightarrow> chaos result" where
  "chaos_run env [] c = Inr c"
| "chaos_run env (e # es) c = bindR (chaos_dispatch env e c) (chaos_run env es)"

section \<open>The query is what a decoder reads\<close>

definition version_query :: "16 word \<Rightarrow> wire_message" where
  "version_query n = \<lparr>w_id = unat (ntohs n), w_flag = 0x0100,
     w_qd = [Wire_question [str ''VERSION'', str ''BIND''] DNS_TYPE_TXT DNS_CLASS_CH], w_an = [], w_ns = [], w_ar = []\<rparr>"

lemma u16_mem_be: "u16_mem n = be_bytes 2 (unat (ntohs n))"
  using unat_ntohs_u16 [of "le_bytes 2 (unat n)"] by (simp add: u16_mem_def)

lemma u16_mem_htons: "u16_mem (ntohs n) = be_bytes 2 (unat n)"
proof -
  have "be_nat (le_bytes 2 (unat n)) < 65536" using be_nat_less [of "le_bytes 2 (unat n)"] by simp
  then have "unat (ntohs n) = be_nat (le_bytes 2 (unat n))" by (simp add: ntohs_def unat_of_nat)
  moreover have "le_bytes 2 (be_nat (le_bytes 2 (unat n))) = rev (be_bytes 2 (be_nat (le_bytes 2 (unat n))))"
    by (simp only: be_bytes_def rev_rev_ident)
  ultimately show ?thesis by (simp add: u16_mem_def) (simp add: be_bytes_def)
qed

lemma ntohs_ntohs [simp]: "ntohs (ntohs n) = n"
proof -
  have "u16_of (u16_mem (ntohs (ntohs n))) = u16_of (u16_mem n)" by (simp only: u16_mem_htons [of "ntohs n"] u16_mem_be [of n])
  then show ?thesis by (simp add: u16_mem_def)
qed

lemma init_query_layout:
  "fst (init_query rnd) = be_bytes 2 (unat (ntohs (snd (init_query rnd)))) @ be_bytes 2 0x0100 @ be_bytes 2 1 @ replicate 6 0 @
     [7] @ str ''VERSION'' @ [4] @ str ''BIND'' @ [0] @ be_bytes 2 16 @ be_bytes 2 3"
proof -
  have n: "be_bytes 2 k = [word_of_nat (k div 256), word_of_nat k]" for k by (rule be_bytes_2)
  have r: "replicate 30 (0 :: byte) = [0, 0, 0, 0, 0, 0, 0, 0, 0, 0, 0, 0, 0, 0, 0, 0, 0, 0, 0, 0, 0, 0, 0, 0, 0, 0, 0, 0, 0, 0]"
    "replicate 6 (0 :: byte) = [0, 0, 0, 0, 0, 0]" by (simp_all add: eval_nat_numeral)
  show ?thesis
    unfolding init_query_def Let_def fst_conv snd_conv u16_mem_htons r
    by (simp add: u16_mem_be n poke_def str_def)
qed

lemma init_query_message: "fst (init_query rnd) = message_bytes (version_query (snd (init_query rnd)))"
proof -
  have "replicate 6 (0 :: byte) = be_bytes 2 0 @ be_bytes 2 0 @ be_bytes 2 0"
    by (simp add: be_bytes_2) (simp add: eval_nat_numeral)
  then show ?thesis
    by (simp add: init_query_layout message_bytes_def version_query_def header_bytes_def question_bytes_def name_bytes_def
        labels_bytes_def label_bytes_def str_def)
qed

lemma version_query_ok: "message_ok (version_query n)" "length (message_bytes (version_query n)) = 30"
  by (simp_all add: message_ok_def version_query_def question_ok_def labels_ok_def str_def message_bytes_def question_bytes_def
      name_bytes_def labels_bytes_def label_bytes_def)

text \<open>
  C22: the array that is sent is, for every value of \<open>rand\<close>, a message that the own decoder accepts: a
  query with the identifier that is kept, that asks for recursion and has one question, for the text of
  \<open>VERSION.BIND\<close> in the class CHAOS.
\<close>

theorem chaos_query_decoded:
  "\<exists>m. dns_decode (new_dns h) (fst (init_query rnd) @ rest) 30 = Inr (True, m) \<and>
     dns_get_id m = snd (init_query rnd) \<and> \<not> is_qr m \<and> is_rd m \<and> get_opcode m = 0 \<and>
     map (\<lambda>q. (m_qname q, unat (ntohs (m_qtype q)), unat (ntohs (m_qclass q)))) (m_quesiton m) =
       [(str ''VERSION.BIND'', DNS_TYPE_TXT, DNS_CLASS_CH)] \<and>
     m_answer m = [] \<and> m_authority m = [] \<and> m_additional m = []"
proof -
  obtain q n where qn: "init_query rnd = (q, n)" by fastforce
  let ?m = "message_added (new_dns h) (version_query n)"
  have "dns_decode (new_dns h) (message_bytes (version_query n) @ [] @ rest) (int (length (message_bytes (version_query n) @ []))) =
      Inr ([] = ([] :: byte list), ?m)"
    by (rule dns_decode_message) (simp_all add: version_query_ok)
  then have d: "dns_decode (new_dns h) (q @ rest) 30 = Inr (True, ?m)"
    using init_query_message [of rnd] qn by (simp add: version_query_ok)
  have f: "ntohs (u16_of (be_bytes 2 256)) = 256" by (simp add: word_unat_eq_iff)
  have i: "u16_of (be_bytes 2 (unat (ntohs n))) = n" by (simp add: u16_mem_be [symmetric] u16_mem_def)
  have m: "dns_get_id ?m = n" "\<not> is_qr ?m" "is_rd ?m" "get_opcode ?m = 0"
    "m_quesiton ?m = [question_value (Wire_question [str ''VERSION'', str ''BIND''] DNS_TYPE_TXT DNS_CLASS_CH)]"
    "m_answer ?m = []" "m_authority ?m = []" "m_additional ?m = []"
    by (simp_all add: message_added_def version_query_def new_dns_def dns_get_id_def is_qr_def is_rd_def get_opcode_def f i)
  show ?thesis
    by (rule exI [of _ ?m]) (simp add: qn d m question_value_def str_def)
qed

section \<open>Every server is asked once\<close>

text \<open>
  \<open>inet_pton\<close> only fails with -1 for an address family that it does not know, and the buffer has 1024
  bytes.
\<close>

definition chaos_env_ok :: "chaos_env \<Rightarrow> bool" where
  "chaos_env_ok env \<longleftrightarrow> (\<forall>s. 0 \<le> fst (ce_pton env s)) \<and> 1024 \<le> length (ce_junk env)"

definition query_to :: "chaos_env \<Rightarrow> byte list \<Rightarrow> byte list \<Rightarrow> byte list \<times> 16 word \<times> byte list" where
  "query_to env q s = (snd (ce_pton env (takeWhile (\<lambda>c. c \<noteq> 0) s)), ntohs 53, q)"

lemma send_loop_takes:
  "chaos_env_ok env \<Longrightarrow> 0 < k \<Longrightarrow>
     send_loop env q (1001 - int k) ss sent = (drop k ss, sent @ map (query_to env q) (take k ss))"
proof (induction ss arbitrary: k sent)
  case (Cons s ss)
  obtain r a where p: "ce_pton env (takeWhile (\<lambda>c. c \<noteq> 0) s) = (r, a)" by fastforce
  have r: "\<not> r < 0" using Cons.prems(1) p by (metis chaos_env_ok_def fst_conv not_le)
  obtain j where k: "k = Suc j" using Cons.prems(2) by (cases k) auto
  show ?case
  proof (cases "j = 0")
    case True
    then show ?thesis using k p r by (simp add: query_to_def)
  next
    case False
    with Cons.IH [OF Cons.prems(1), of j] k p r show ?thesis by (simp add: query_to_def)
  qed
qed simp

lemma first_version_reported:
  "list_all (rr_reported env) rs \<Longrightarrow> returns (first_version rs)"
proof (induction rs)
  case (Cons r rs)
  show ?case
  proof (cases "unat (ntohs (m_type r)) = DNS_TYPE_TXT")
    case True
    with Cons.prems have "\<exists>t. m_rdata r = Some (Rd_txt t)"
      by (cases "m_rdata r"; cases "the (m_rdata r)") (simp_all add: rr_reported_def rdata_fields_def returns_def)
    with Cons show ?thesis by auto
  next
    case False
    with Cons show ?thesis by simp
  qed
qed simp

interpretation version: dns_client first_version env for env
  by unfold_locales (rule first_version_reported)

text \<open>Events that happen before the program ends: the datagrams leave room for what the decoder reads behind them.\<close>

fun event_ok :: "chaos_event \<Rightarrow> bool" where
  "event_ok Ev_send = True"
| "event_ok (Ev_dns what recv) = (case recv of None \<Rightarrow> True | Some dg \<Rightarrow> length (cd_data dg) \<le> 1008)"
| "event_ok Ev_quit = False"

definition keeps :: "chaos \<Rightarrow> chaos \<Rightarrow> bool" where
  "keeps c c' \<longleftrightarrow> (\<exists>u ls. c' = c\<lparr>ch_updates := u, ch_lines := ls\<rparr>)"

lemma keeps_intros [intro, simp]:
  "keeps c c" "keeps c (c\<lparr>ch_lines := ls\<rparr>)" "keeps c (c\<lparr>ch_lines := ls, ch_updates := u\<rparr>)" "keeps c (c\<lparr>ch_updates := u, ch_lines := ls\<rparr>)"
  by (cases c; simp add: keeps_def)+

lemma keeps_fields:
  "keeps c c' \<Longrightarrow> ch_dns_servers c' = ch_dns_servers c \<and> ch_query c' = ch_query c \<and> ch_sent c' = ch_sent c \<and>
     ch_ev_send c' = ch_ev_send c \<and> ch_quit_timers c' = ch_quit_timers c \<and> ch_exited c' = ch_exited c"
  by (auto simp: keeps_def)

lemma callback_dns_keeps:
  assumes "chaos_env_ok env" "event_ok (Ev_dns what recv)"
  shows "\<exists>c'. callback_dns env what recv c = Inr c' \<and> keeps c c'"
proof (cases "what \<and> recv \<noteq> None")
  case True
  then obtain dg where dg: "recv = Some dg" by blast
  let ?buf = "take 1024 (cd_data dg @ ce_junk env)" and ?len = "int (min 1024 (length (cd_data dg)))"
  have "?len + 16 \<le> int (length ?buf)" using assms dg by (simp add: chaos_env_ok_def)
  from version.decoded [OF this, of "ce_header env"] obtain ok m where d: "dns_decode (new_dns (ce_header env)) ?buf ?len = Inr (ok, m)"
    and v: "ok \<Longrightarrow> returns (first_version (m_answer m))" by blast
  show ?thesis
  proof (cases "unat (ntohs (cd_port dg)) = 53 \<and> ok")
    case ok: True
    with v obtain t where "first_version (m_answer m) = Inr t" by (auto simp: returns_def)
    with True dg ok d show ?thesis by (simp add: callback_dns_def Let_def split: option.split)
  next
    case False
    with True dg d show ?thesis by (simp add: callback_dns_def Let_def)
  qed
qed (auto simp: callback_dns_def)

text \<open>After \<open>k\<close> ticks of the timer of a program that was started with the servers \<open>ss\<close>.\<close>

definition cycles :: "chaos_env \<Rightarrow> byte list \<Rightarrow> byte list list \<Rightarrow> nat \<Rightarrow> chaos \<Rightarrow> bool" where
  "cycles env q ss k c \<longleftrightarrow>
     ch_dns_servers c = drop (1001 * k) ss \<and> ch_query c = q \<and> ch_sent c = map (query_to env q) (take (1001 * k) ss) \<and>
     (ch_ev_send c \<longleftrightarrow> k = 0 \<or> 1001 * k < length ss) \<and> ch_quit_timers c = (if ch_ev_send c then 0 else 1) \<and> \<not> ch_exited c"

definition sends :: "chaos_event list \<Rightarrow> nat" where
  "sends es = length (filter (\<lambda>e. e = Ev_send) es)"

lemma send_query_cycles:
  assumes "chaos_env_ok env" "cycles env q ss k c" "ch_ev_send c"
  shows "cycles env q ss (Suc k) (send_query env c)"
proof -
  have e: "1001 * Suc k = 1001 * k + 1001" by simp
  have "send_loop env q 0 (drop (1001 * k) ss) (map (query_to env q) (take (1001 * k) ss)) =
      (drop (1001 * Suc k) ss, map (query_to env q) (take (1001 * Suc k) ss))"
    using send_loop_takes [OF assms(1), of 1001 q "drop (1001 * k) ss" "map (query_to env q) (take (1001 * k) ss)"]
    unfolding e take_add map_append by (simp add: add.commute)
  with assms(2,3) show ?thesis by (auto simp: cycles_def send_query_def Let_def)
qed

lemma dispatch_cycles:
  assumes "chaos_env_ok env" "cycles env q ss k c" "event_ok e"
  shows "\<exists>c'. chaos_dispatch env e c = Inr c' \<and> cycles env q ss (if e = Ev_send then Suc k else k) c'"
proof (cases e)
  case Ev_send
  show ?thesis
  proof (cases "ch_ev_send c")
    case True
    with send_query_cycles [OF assms(1,2)] assms(2) Ev_send show ?thesis by (simp add: chaos_dispatch_def cycles_def)
  next
    case False
    with assms(2) Ev_send show ?thesis by (auto simp: chaos_dispatch_def cycles_def)
  qed
next
  case (Ev_dns what recv)
  with assms callback_dns_keeps obtain c' where c: "callback_dns env what recv c = Inr c'" "keeps c c'" by blast
  from keeps_fields [OF c(2)] assms(2) have "cycles env q ss k c'" by (simp add: cycles_def)
  with Ev_dns c(1) assms(2) show ?thesis by (simp add: chaos_dispatch_def cycles_def)
qed (use assms(3) in simp)

lemma run_cycles:
  "chaos_env_ok env \<Longrightarrow> cycles env q ss k c \<Longrightarrow> list_all event_ok es \<Longrightarrow>
     \<exists>c'. chaos_run env es c = Inr c' \<and> cycles env q ss (k + sends es) c'"
proof (induction es arbitrary: k c)
  case (Cons e es)
  from Cons.prems obtain c1 where c1: "chaos_dispatch env e c = Inr c1" "cycles env q ss (if e = Ev_send then Suc k else k) c1"
    using dispatch_cycles by fastforce
  from Cons.IH [OF Cons.prems(1) c1(2)] Cons.prems(3) c1(1) show ?case by (auto simp: sends_def)
qed (simp add: sends_def)


definition sample_chaos_env :: chaos_env where
  "sample_chaos_env = \<lparr>ce_pton = (\<lambda>s. (1, [192, 0, 2, 1])), ce_junk = replicate 1024 0, ce_header = header_of (replicate 12 0)\<rparr>"


section \<open>The versions that are recorded\<close>

definition version_text :: "wire_rr \<Rightarrow> byte list option" where
  "version_text r = (case rr_data r of W_txt t \<Rightarrow> if rr_class r mod 65536 = DNS_CLASS_CH then Some t else None | _ \<Rightarrow> None)"

definition version_update :: "chaos_datagram \<Rightarrow> byte list \<Rightarrow> byte list \<times> bson_fields \<times> bson_fields \<times> bool" where
  "version_update dg t = (collection ''DNS.servers'', [(str ''_id'', B_str (inet_ntop4 (cd_addr dg)))],
     [(str ''$set'', B_obj [(str ''ver'', B_str t)])], False)"

lemma first_version_texts:
  "list_all rr_ok rs \<Longrightarrow> first_version (map rr_value rs) =
     Inr (case List.map_filter version_text rs of [] \<Rightarrow> None | t # ts \<Rightarrow> Some t)"
proof (induction rs)
  case (Cons r rs)
  then show ?case
    by (cases "rr_data r") (auto simp: rr_ok_def rr_value_def version_text_def List.map_filter_simps)
qed (simp add: List.map_filter_simps)

text \<open>
  C34: a message that fits into the buffer and comes from port 53 changes the document of its sender, and
  no other one: the first text of the class CHAOS among the answers becomes the version; a message
  without such a text changes nothing.
\<close>

theorem chaos_version_recorded:
  assumes "message_ok m" "cd_data dg = message_bytes m" "length (message_bytes m) \<le> 1024" "cd_port dg = ntohs 53"
  shows "\<exists>c'. callback_dns env True (Some dg) c = Inr c' \<and>
     ch_updates c' = ch_updates c @ map (version_update dg) (take 1 (List.map_filter version_text (w_an m)))"
proof -
  let ?rest = "take (1024 - length (message_bytes m)) (ce_junk env)"
  have "dns_decode (new_dns (ce_header env)) (message_bytes m @ [] @ ?rest) (int (length (message_bytes m @ []))) =
      Inr ([] = ([] :: byte list), message_added (new_dns (ce_header env)) m)"
    by (rule dns_decode_message) (use assms(1,3) in simp_all)
  then have d: "dns_decode (new_dns (ce_header env)) (take 1024 (cd_data dg @ ce_junk env)) (int (min 1024 (length (cd_data dg)))) =
      Inr (True, message_added (new_dns (ce_header env)) m)"
    using assms(2,3) by (simp add: min_def)
  have "list_all rr_ok (w_an m)" using assms(1) by (auto simp: message_ok_def list_all_iff)
  from first_version_texts [OF this] have v: "first_version (m_answer (message_added (new_dns (ce_header env)) m)) =
      Inr (case List.map_filter version_text (w_an m) of [] \<Rightarrow> None | t # ts \<Rightarrow> Some t)"
    by (simp add: message_added_def new_dns_def)
  show ?thesis
    using assms(4) v d by (cases "List.map_filter version_text (w_an m)") (simp_all add: callback_dns_def Let_def version_update_def)
qed

text \<open>An answer with the version 9.\<close>

definition sample_version_message :: wire_message where
  "sample_version_message = \<lparr>w_id = 7, w_flag = 0x8180, w_qd = [], w_an = [Wire_rr [] DNS_CLASS_CH 0 (W_txt (str ''9''))], w_ns = [], w_ar = []\<rparr>"

theorem chaos_version_recorded_witness:
  "let dg = \<lparr>cd_data = message_bytes sample_version_message, cd_addr = [192, 0, 2, 1], cd_port = ntohs 53\<rparr> in
   \<exists>c'. callback_dns sample_chaos_env True (Some dg) (chaos_init 5 []) = Inr c' \<and>
     ch_updates c' = ch_updates (chaos_init 5 []) @ [version_update dg (str ''9'')]"
proof -
  define dg where "dg = \<lparr>cd_data = message_bytes sample_version_message, cd_addr = [192, 0, 2, 1], cd_port = ntohs 53\<rparr>"
  have "message_ok sample_version_message" "length (message_bytes sample_version_message) \<le> 1024"
    "List.map_filter version_text (w_an sample_version_message) = [str ''9'']"
    by (simp_all add: sample_version_message_def message_ok_def rr_ok_def labels_ok_def str_def message_bytes_def rr_bytes_def
        string_bytes_def name_bytes_def labels_bytes_def version_text_def List.map_filter_simps)
  with chaos_version_recorded [of sample_version_message dg sample_chaos_env "chaos_init 5 []"]
  show ?thesis by (simp add: dg_def)
qed

end
