(* ===== verification/Soa.thy ===== *)
theory Soa
  imports Report_Datagram Dns_Wire
begin

text \<open>
  \<open>examples/mindyourprivacy/cdpi_mongo_soa.cpp\<close>: the program that asks, with libunbound, for the
  start-of-authority records of the domains that were seen, decodes the answers with the own decoder and
  writes the records to the database. It keeps count of the questions that are on their way.
\<close>

section \<open>State\<close>

abbreviation (input) RESOLVE_MAX :: int where "RESOLVE_MAX \<equiv> 4096"
abbreviation (input) DNS_CLASS_IN :: nat where "DNS_CLASS_IN \<equiv> 1"

text \<open>
  \<open>so_domains\<close> is what the loop over the domains has left, \<open>so_resolving\<close> the counter, \<open>so_updates\<close> the
  documents that were written, each with its collection and condition, and whether it is inserted when it
  is missing. \<open>so_pending\<close> and \<open>so_failed\<close> are not in the program: the questions without an answer,
  and the answers with an error.
\<close>

record soa =
  so_domains :: "byte list list"
  so_resolving :: int
  so_updates :: "(byte list \<times> bson_fields \<times> bson_fields \<times> bool) list"
  so_pending :: nat
  so_failed :: nat

text \<open>What libunbound answers: the error, whether there is data, the packet and what lies behind it in memory.\<close>

record ub_answer =
  ub_err :: int
  ub_havedata :: bool
  ub_packet :: "byte list"
  ub_behind :: "byte list"

section \<open>The callback\<close>

definition soa_update :: "int \<Rightarrow> byte list \<Rightarrow> cdpi_dns_soa \<Rightarrow> byte list \<times> bson_fields \<times> bson_fields \<times> bool" where
  "soa_update millis name s =
     (collection ''HTTP.soa'', [(str ''_id'', B_str name)],
      [(str ''_id'', B_str name), (str ''mname'', B_str (m_mname s)), (str ''rname'', B_str (m_rname s)),
       (str ''serial'', B_int (uint (m_serial s))), (str ''refresh'', B_int (uint (m_refresh s))),
       (str ''retry'', B_int (uint (m_retry s))), (str ''expire'', B_int (uint (m_expire s))),
       (str ''minimum'', B_int (uint (m_minimum s))), (str ''date'', B_date millis)], True)"

fun soa_updates :: "int \<Rightarrow> cdpi_dns_rr list \<Rightarrow> (byte list \<times> bson_fields \<times> bson_fields \<times> bool) list result" where
  "soa_updates millis [] = Inr []"
| "soa_updates millis (r # rs) =
     (if unat (ntohs (m_type r)) = DNS_TYPE_SOA \<and> unat (ntohs (m_class r)) = DNS_CLASS_IN
      then (case m_rdata r of
              Some (Rd_soa s) \<Rightarrow> bindR (soa_updates millis rs) (\<lambda>us. Inr (soa_update millis (m_name r) s # us))
            | _ \<Rightarrow> Inl NullPointer)
      else soa_updates millis rs)"

text \<open>\<open>h\<close> is what the header of a new decoder holds.\<close>

definition ubcallback :: "int \<Rightarrow> cdpi_dns_header \<Rightarrow> ub_answer \<Rightarrow> soa \<Rightarrow> soa result" where
  "ubcallback millis h a s =
     (if ub_err a < 0 then Inr s
      else
        let s1 = s\<lparr>so_resolving := so_resolving s - 1\<rparr> in
        if ub_havedata a then
          bindR (dns_decode (new_dns h) (ub_packet a @ ub_behind a) (int (length (ub_packet a)))) (\<lambda>(ok, m).
            if ok then bindR (soa_updates millis (m_answer m)) (\<lambda>us. Inr (s1\<lparr>so_updates := so_updates s1 @ us\<rparr>))
            else Inr s1)
        else Inr s1)"

section \<open>The loop\<close>

text \<open>\<open>get_domains\<close> fills a set, which is walked in the order of the names.\<close>

definition get_domains :: "byte list list \<Rightarrow> byte list list" where
  "get_domains names = sorted_list_of_set (set names)"

definition soa_init :: "byte list list \<Rightarrow> soa" where
  "soa_init names = \<lparr>so_domains = get_domains names, so_resolving = 0, so_updates = [], so_pending = 0, so_failed = 0\<rparr>"

text \<open>
  One turn of the loop, which the inner loop only allows when the counter is below its limit.
  \<open>retval\<close> is the result of \<open>ub_resolve_async\<close> for a domain.
\<close>

definition soa_ask :: "(byte list \<Rightarrow> int) \<Rightarrow> soa \<Rightarrow> soa" where
  "soa_ask retval s =
     (case so_domains s of
        [] \<Rightarrow> s
      | d # ds \<Rightarrow>
          let s1 = s\<lparr>so_domains := ds\<rparr> in
          if retval (takeWhile (\<lambda>c. c \<noteq> 0) d) \<noteq> 0 then s1
          else s1\<lparr>so_resolving := so_resolving s1 + 1, so_pending := so_pending s1 + 1\<rparr>)"

definition soa_answered :: "ub_answer \<Rightarrow> soa \<Rightarrow> soa" where
  "soa_answered a s = s\<lparr>so_pending := so_pending s - 1, so_failed := so_failed s + (if ub_err a < 0 then 1 else 0)\<rparr>"

inductive soa_step :: "(byte list \<Rightarrow> int) \<Rightarrow> int \<Rightarrow> cdpi_dns_header \<Rightarrow> soa \<Rightarrow> soa \<Rightarrow> bool"
  for retval millis h where
  ask: "so_domains s \<noteq> [] \<Longrightarrow> so_resolving s < RESOLVE_MAX \<Longrightarrow> soa_step retval millis h s (soa_ask retval s)"
| answer: "0 < so_pending s \<Longrightarrow> ubcallback millis h a s = Inr s' \<Longrightarrow> soa_step retval millis h s (soa_answered a s')"

inductive_cases soa_stepE: "soa_step retval millis h s s'"

definition soa_reach :: "(byte list \<Rightarrow> int) \<Rightarrow> int \<Rightarrow> cdpi_dns_header \<Rightarrow> soa \<Rightarrow> soa \<Rightarrow> bool" where
  "soa_reach retval millis h = (soa_step retval millis h)\<^sup>*\<^sup>*"

section \<open>The counter\<close>

definition soa_inv :: "soa \<Rightarrow> bool" where
  "soa_inv s \<longleftrightarrow> so_resolving s = int (so_pending s) + int (so_failed s) \<and> so_resolving s \<le> RESOLVE_MAX"

lemma ubcallback_counts:
  "ubcallback millis h a s = Inr s' \<Longrightarrow> so_domains s' = so_domains s \<and> so_pending s' = so_pending s \<and>
     so_failed s' = so_failed s \<and> so_resolving s' = so_resolving s - (if ub_err a < 0 then 0 else 1)"
  by (auto simp: ubcallback_def Let_def bindR_eq_Inr split: if_splits)

lemma soa_step_inv: "soa_step retval millis h s s' \<Longrightarrow> soa_inv s \<Longrightarrow> soa_inv s'"
proof (erule soa_stepE)
  assume "soa_inv s" "s' = soa_ask retval s" "so_resolving s < RESOLVE_MAX"
  then show "soa_inv s'" by (auto simp: soa_inv_def soa_ask_def Let_def split: list.splits)
next
  fix s1 a
  assume "soa_inv s" "s' = soa_answered a s1" "0 < so_pending s" "ubcallback millis h a s = Inr s1"
  then show "soa_inv s'" using ubcallback_counts [of millis h a s s1] by (auto simp: soa_inv_def soa_answered_def)
qed

lemma soa_reach_inv: "soa_reach retval millis h s s' \<Longrightarrow> soa_inv s \<Longrightarrow> soa_inv s'"
  unfolding soa_reach_def by (induction rule: rtranclp_induct) (auto intro: soa_step_inv)

text \<open>
  Never more than 4096 questions are on their way. An answer with an error is not taken off the counter:
  when there have been 4096 of them, no further domain is asked for, whatever happens.
\<close>

theorem soa_pending_bounded:
  assumes "soa_reach retval millis h (soa_init names) s"
  shows "so_pending s + so_failed s \<le> 4096"
  using soa_reach_inv [OF assms] by (simp add: soa_inv_def soa_init_def)

lemma soa_stuck_step:
  "soa_step retval millis h s s' \<Longrightarrow> soa_inv s \<Longrightarrow> 4096 \<le> so_failed s \<Longrightarrow> so_domains s' = so_domains s \<and> 4096 \<le> so_failed s'"
proof (erule soa_stepE)
  fix s1 a
  assume "4096 \<le> so_failed s" "s' = soa_answered a s1" "ubcallback millis h a s = Inr s1"
  then show ?thesis using ubcallback_counts [of millis h a s s1] by (auto simp: soa_answered_def)
qed (auto simp: soa_inv_def)

theorem soa_stuck:
  assumes "soa_reach retval millis h s s'" "soa_inv s" "4096 \<le> so_failed s"
  shows "so_domains s' = so_domains s"
proof -
  have "so_domains s' = so_domains s \<and> 4096 \<le> so_failed s' \<and> soa_inv s'"
    using assms unfolding soa_reach_def
  proof (induction rule: rtranclp_induct)
    case (step y z)
    then show ?case using soa_stuck_step [OF step.hyps(2)] soa_step_inv [OF step.hyps(2)] by simp
  qed simp
  then show ?thesis by simp
qed

section \<open>The records\<close>

lemma soa_updates_returns: "list_all (rr_reported env) rs \<Longrightarrow> returns (soa_updates millis rs)"
proof (induction rs)
  case (Cons r rs)
  show ?case
  proof (cases "unat (ntohs (m_type r)) = DNS_TYPE_SOA")
    case True
    with Cons.prems have "\<exists>s. m_rdata r = Some (Rd_soa s)"
      by (cases "m_rdata r"; cases "the (m_rdata r)") (simp_all add: rr_reported_def rdata_fields_def returns_def)
    with Cons show ?thesis by (auto simp: returns_def)
  next
    case False
    with Cons show ?thesis by simp
  qed
qed simp

interpretation soas: dns_client "soa_updates millis" env for millis env
  by unfold_locales (rule soa_updates_returns)

text \<open>With 16 bytes behind the packet every answer is worked on: no null pointer and no read behind the memory.\<close>

theorem ubcallback_returns:
  assumes "16 \<le> length (ub_behind a)"
  shows "returns (ubcallback millis h a s)"
proof -
  have "int (length (ub_packet a)) + 16 \<le> int (length (ub_packet a @ ub_behind a))" using assms by simp
  from soas.decoded [OF this, of h millis] obtain ok m where d: "dns_decode (new_dns h) (ub_packet a @ ub_behind a) (int (length (ub_packet a))) = Inr (ok, m)"
    and "ok \<Longrightarrow> returns (soa_updates millis (m_answer m))" by blast
  with d show ?thesis by (cases ok) (auto simp: ubcallback_def Let_def returns_def)
qed

end
