(* ===== verification/Console.thy ===== *)
theory Console
  imports Report_Datagram Capture
begin

text \<open>
  The listener of \<open>cdpi_main.cpp\<close>, which prints what it is told. Its state is the text on the standard
  output, and the tables of names of the SSL parser, to which a lookup of an unknown number adds.
\<close>

section \<open>Text\<close>

definition nl :: "byte list" where
  "nl = [10]"

definition tab :: "byte list" where
  "tab = [9]"

record console =
  cs_out :: "byte list"
  cs_ciphers :: "(16 word, string) omap"
  cs_compressions :: "(byte, string) omap"

definition put :: "byte list \<Rightarrow> console \<Rightarrow> console" where
  "put t c = c\<lparr>cs_out := cs_out c @ t\<rparr>"

definition print_binary :: "byte list \<Rightarrow> byte list" where
  "print_binary buf = concat (map (\<lambda>b.
     [hex_digits ! unat (drop_bit 4 b AND 0x0f)] @ [hex_digits ! unat (b AND 0x0f)]) buf)"

definition u16_text :: "16 word \<Rightarrow> byte list" where
  "u16_text n = num_text 10 (unat (ntohs n))"

text \<open>The two ends of a stream, which follow the name of the event in the first line.\<close>

definition ends_text :: "byte list \<Rightarrow> byte list \<Rightarrow> cdpi_id_dir \<Rightarrow> byte list" where
  "ends_text src dst d = str ''src = '' @ src @ str '':'' @ u16_text (get_port_src d) @
     str '', dst = '' @ dst @ str '':'' @ u16_text (get_port_dst d)"

definition head_text :: "report_env \<Rightarrow> string \<Rightarrow> cdpi_id_dir \<Rightarrow> byte list" where
  "head_text env title d = str title @ str '': '' @ ends_text (get_addr_src env d) (get_addr_dst env d) d"

section \<open>HTTP\<close>

definition request_text :: "cdpi_http \<Rightarrow> byte list" where
  "request_text h = tab @ str ''method: '' @ get_method h @ nl @ tab @ str ''uri: '' @ m_uri h @
     nl @ tab @ str ''ver: '' @ m_ver h @ nl"

definition response_text :: "cdpi_http \<Rightarrow> byte list" where
  "response_text h = tab @ str ''code: '' @ m_code h @ nl @ tab @ str ''msg: '' @ m_res_msg h @
     nl @ tab @ str ''ver: '' @ m_ver h @ nl"

definition keys_text :: "(byte list \<Rightarrow> byte list) \<Rightarrow> byte list list \<Rightarrow> byte list" where
  "keys_text get keys = concat (map (\<lambda>k. tab @ k @ str '': '' @ get k @ nl) keys)"

definition body_text :: "report_env \<Rightarrow> cdpi_http \<Rightarrow> byte list result" where
  "body_text env h =
     (case m_ptr (m_content h) of
        None \<Rightarrow> Inr []
      | Some a \<Rightarrow>
          let encoding = get_header h (str ''content-encoding'') in
          bindR (rdsi a 0 (m_len (m_content h))) (\<lambda>bs.
            Inr (if encoding = str ''gzip'' then re_gunzip env bs @ nl
                 else if encoding = str ''deflate'' then re_inflate env bs @ nl
                 else bs)))"

text \<open>The text of an event of the HTTP parser, and the parser after it.\<close>

definition console_http :: "report_env \<Rightarrow> cdpi_event \<Rightarrow> cdpi_id_dir \<Rightarrow> cdpi_http \<Rightarrow> (byte list \<times> cdpi_http) result" where
  "console_http env ev d h =
     (if ev = CDPI_EVENT_HTTP_READ_METHOD then
        Inr (head_text env ''HTTP read method'' d @ nl @ request_text h, h)
      else if ev = CDPI_EVENT_HTTP_READ_RESPONSE then
        (let h1 = add_mime_to_read (str ''text/html'') h in
         Inr (head_text env ''HTTP read response'' d @ nl @ response_text h1, h1))
      else if ev = CDPI_EVENT_HTTP_READ_HEAD then
        Inr (head_text env ''HTTP read head'' d @ nl @ keys_text (get_header h) (get_header_keys h), h)
      else if ev = CDPI_EVENT_HTTP_READ_BODY then
        bindR (body_text env h) (\<lambda>t. Inr (head_text env ''HTTP read body'' d @ nl @ t, h))
      else if ev = CDPI_EVENT_HTTP_READ_TRAILER then
        Inr (head_text env ''HTTP read trailer'' d @ nl @ keys_text (get_trailer h) (get_trailer_keys h), h)
      else Inr (head_text env ''HTTP proxy connect'' d @ nl @
        (if cdpi_http.m_type h = PROTO_HTTP_CLIENT then request_text h else []), h))"

section \<open>SSL\<close>

fun cipher_lines :: "byte list \<Rightarrow> 16 word list \<Rightarrow> (16 word, string) omap \<Rightarrow> byte list \<times> (16 word, string) omap" where
  "cipher_lines indent [] m = ([], m)"
| "cipher_lines indent (n # ns) m =
     (case num_to_cipher n m of (c, m1) \<Rightarrow>
        (case cipher_lines indent ns m1 of (t, m2) \<Rightarrow>
           (indent @ (if c = [] then [] else str c @ str '', '') @ print_binary (le_bytes 2 (unat (ntohs n))) @ nl @ t, m2)))"

fun compression_words :: "byte list \<Rightarrow> (byte, string) omap \<Rightarrow> byte list \<times> (byte, string) omap" where
  "compression_words [] m = ([], m)"
| "compression_words (n # ns) m =
     (case num_to_compression n m of (c, m1) \<Rightarrow>
        (case compression_words ns m1 of (t, m2) \<Rightarrow> (str c @ str '' '' @ t, m2)))"

text \<open>The two hellos differ in their name and in the layout of the cipher suites.\<close>

definition hello_text :: "report_env \<Rightarrow> bool \<Rightarrow> cdpi_id_dir \<Rightarrow> cdpi_ssl \<Rightarrow> console \<Rightarrow> console result" where
  "hello_text env client d s c =
     bindR (rds (ssl_random s) 0 32) (\<lambda>random.
       bindR (case m_ptr (ssl_session_id s) of
                None \<Rightarrow> Inr []
              | Some a \<Rightarrow> bindR (rdsi a 0 (m_len (ssl_session_id s))) (\<lambda>bs. Inr (nl @ str ''Session ID = '' @ print_binary bs)))
         (\<lambda>session.
           case cipher_lines (if client then tab else []) (ssl_cipher_suites s) (cs_ciphers c) of (ciphers, m1) \<Rightarrow>
             (case compression_words (ssl_compression_methods s) (cs_compressions c) of (words, m2) \<Rightarrow>
                Inr (put (head_text env (if client then ''SSL client hello'' else ''SSL server hello'') d @
                    nl @ str ''GMT UNIX Time = '' @ num_text 10 (unat (ssl_gmt_unix_time s)) @
                    nl @ str ''Random = '' @ print_binary random @ session @
                    nl @ str ''Cipher Suites = '' @ (if client then nl else []) @ ciphers @
                    str ''Compression Methods = '' @ words @ nl)
                  (c\<lparr>cs_ciphers := m1, cs_compressions := m2\<rparr>)))))"

text \<open>\<open>x509\<close> is the text that OpenSSL prints for a certificate; the loop ends at one that it cannot decode.\<close>

fun certs_text :: "(byte list \<Rightarrow> byte list option) \<Rightarrow> cdpi_bytes list \<Rightarrow> byte list result" where
  "certs_text x509 [] = Inr []"
| "certs_text x509 (b # bs) =
     bindR (rdsi (ptr_mem b) 0 (m_len b)) (\<lambda>der.
       case x509 der of
         None \<Rightarrow> Inr []
       | Some t \<Rightarrow> bindR (certs_text x509 bs) (\<lambda>ts. Inr (t @ ts)))"

definition console_ssl ::
    "report_env \<Rightarrow> (byte list \<Rightarrow> byte list option) \<Rightarrow> cdpi_event \<Rightarrow> cdpi_id_dir \<Rightarrow> cdpi_ssl \<Rightarrow> console \<Rightarrow> console result" where
  "console_ssl env x509 ev d s c =
     (if ev = CDPI_EVENT_SSL_CERTIFICATE
      then bindR (certs_text x509 (ssl_certificates s)) (\<lambda>t. Inr (put (head_text env ''SSL certificate'' d @ nl @ t) c))
      else hello_text env (ev = CDPI_EVENT_SSL_CLIENT_HELLO) d s c)"

section \<open>Streams\<close>

definition http_events :: "cdpi_event list" where
  "http_events = [CDPI_EVENT_HTTP_READ_METHOD, CDPI_EVENT_HTTP_READ_RESPONSE, CDPI_EVENT_HTTP_READ_HEAD,
     CDPI_EVENT_HTTP_READ_BODY, CDPI_EVENT_HTTP_READ_TRAILER, CDPI_EVENT_HTTP_PROXY]"

definition ssl_events :: "cdpi_event list" where
  "ssl_events = [CDPI_EVENT_SSL_CLIENT_HELLO, CDPI_EVENT_SSL_SERVER_HELLO, CDPI_EVENT_SSL_CERTIFICATE]"

text \<open>\<open>in_stream\<close>, with the store \<open>H\<close> and the address \<open>p\<close> that \<open>get_proto\<close> returns.\<close>

definition console_stream ::
    "report_env \<Rightarrow> (byte list \<Rightarrow> byte list option) \<Rightarrow> cdpi_proto list \<Rightarrow> cdpi_event \<Rightarrow> cdpi_id_dir \<Rightarrow> nat option \<Rightarrow> console \<Rightarrow>
     (cdpi_proto list \<times> console) result" where
  "console_stream env x509 H ev d p c =
     (if ev = CDPI_EVENT_STREAM_OPEN then Inr (H, put (head_text env ''stream open'' d @ nl) c)
      else if ev = CDPI_EVENT_STREAM_CLOSE then Inr (H, put (head_text env ''stream close'' d @ nl) c)
      else if ev \<in> set http_events then
        (case p of
           None \<Rightarrow> Inl NullPointer
         | Some a \<Rightarrow>
             (case H ! a of
                Http_obj h q \<Rightarrow> bindR (console_http env ev d h) (\<lambda>(t, h1). Inr (H[a := Http_obj h1 q], put t c))
              | Ssl_obj s \<Rightarrow> Inl NullPointer))
      else if ev \<in> set ssl_events then
        (case p of
           None \<Rightarrow> Inl NullPointer
         | Some a \<Rightarrow>
             (case H ! a of
                Http_obj h q \<Rightarrow> Inl NullPointer
              | Ssl_obj s \<Rightarrow> bindR (console_ssl env x509 ev d s c) (\<lambda>c1. Inr (H, c1))))
      else Inr (H, c))"

section \<open>Datagrams\<close>

definition question_text :: "cdpi_dns_question \<Rightarrow> byte list" where
  "question_text q = tab @ tab @ str ''name: '' @ m_qname q @ nl @ tab @ tab @ str ''type: '' @ u16_text (m_qtype q) @
     nl @ tab @ tab @ str ''class: '' @ u16_text (m_qclass q) @ nl"

definition rr_text :: "cdpi_dns_rr \<Rightarrow> byte list" where
  "rr_text r = tab @ tab @ str ''name: '' @ m_name r @ nl @ tab @ tab @ str ''type: '' @ u16_text (m_type r) @
     nl @ tab @ tab @ str ''class: '' @ u16_text (m_class r) @
     nl @ tab @ tab @ str ''ttl: '' @ num_text 10 (unat (ntohl (m_ttl r))) @ nl"

definition print_dns :: "cdpi_dns \<Rightarrow> byte list" where
  "print_dns m =
     tab @ str ''Question Section:'' @ nl @ concat (map question_text (m_quesiton m)) @
     tab @ str ''Answer Section:'' @ nl @ concat (map rr_text (m_answer m)) @
     tab @ str ''Authority Section:'' @ nl @ concat (map rr_text (m_authority m)) @
     tab @ str ''Additional Section:'' @ nl @ concat (map rr_text (m_additional m))"

fun print_bencode :: "ben_data \<Rightarrow> byte list result"
  and print_list :: "ben_data list \<Rightarrow> byte list result"
  and print_dict :: "(cdpi_bytes \<times> ben_data) list \<Rightarrow> byte list result" where
  "print_bencode (Ben_int n) = Inr (int_text n)"
| "print_bencode (Ben_str b) = bindR (str_bytes b) (\<lambda>bs. Inr (str ''0x'' @ print_binary bs))"
| "print_bencode (Ben_list l) = bindR (print_list l) (\<lambda>t. Inr (str ''['' @ t @ str '']''))"
| "print_bencode (Ben_dict m) = bindR (print_dict m) (\<lambda>t. Inr (str ''{'' @ t @ str ''}''))"
| "print_list [] = Inr []"
| "print_list (d # l) = bindR (print_bencode d) (\<lambda>t. bindR (print_list l) (\<lambda>ts. Inr (t @ str '', '' @ ts)))"
| "print_dict [] = Inr []"
| "print_dict ((k, d) # m) =
     bindR (str_bytes k) (\<lambda>ks. bindR (print_bencode d) (\<lambda>t. bindR (print_dict m) (\<lambda>ts.
       Inr ([0x22] @ ks @ [0x22] @ str '': '' @ t @ str '', '' @ ts))))"

text \<open>
  The addresses are copied into variables of four bytes first; for IPv6 \<open>inet_ntop\<close> is given a pointer to
  such a variable and reads 16 bytes. \<open>None\<close> stands for the return for another protocol.
\<close>

definition datagram_addrs :: "report_env \<Rightarrow> cdpi_id_dir \<Rightarrow> (byte list \<times> byte list) option result" where
  "datagram_addrs env d =
     (let src = le_bytes 4 (unat (get_ipv4_addr_src d)); dst = le_bytes 4 (unat (get_ipv4_addr_dst d)) in
      if m_l3_proto (m_id d) = IPPROTO_IP
      then bindR (rds src 0 4) (\<lambda>a. bindR (rds dst 0 4) (\<lambda>b. Inr (Some (inet_ntop4 a, inet_ntop4 b))))
      else if m_l3_proto (m_id d) = IPPROTO_IPV6
      then bindR (rds src 0 16) (\<lambda>a. bindR (rds dst 0 16) (\<lambda>b. Inr (Some (re_ntop6 env a, re_ntop6 env b))))
      else Inr None)"

definition console_datagram :: "report_env \<Rightarrow> udp_call \<Rightarrow> console \<Rightarrow> console result" where
  "console_datagram env call c =
     (case call of (ev, d, data) \<Rightarrow>
        bindR (datagram_addrs env d) (\<lambda>addrs.
          case addrs of
            None \<Rightarrow> Inr c
          | Some (src, dst) \<Rightarrow>
              if ev = CDPI_EVENT_BENCODE then
                (case data of
                   Bencode_message (Some v) h \<Rightarrow>
                     bindR (print_bencode v) (\<lambda>t. Inr (put (str ''bencode: '' @ ends_text src dst d @ nl @ t @ nl) c))
                 | _ \<Rightarrow> Inl NullPointer)
              else if ev = CDPI_EVENT_DNS then
                (case data of
                   Dns_message m \<Rightarrow> Inr (put (str ''dns: '' @ ends_text src dst d @ nl @ print_dns m) c)
                 | _ \<Rightarrow> Inl NullPointer)
              else Inr c))"

section \<open>What is printed\<close>

lemma str_bytes_ben_str: "str_bytes (ben_str bs) = Inr bs"
  by (simp add: str_bytes_def rdsi_def rds_def ptr_mem_def ben_str_def)

lemma str_bytes_canon: "canon_str b \<Longrightarrow> str_bytes b = Inr (block_bytes b)"
  using str_bytes_ben_str [of "block_bytes b"] by (simp add: canon_str_def)

lemma print_canon:
  "canon d \<Longrightarrow> returns (print_bencode d)"
  "canon_list l \<Longrightarrow> returns (print_list l)"
  "canon_dict m \<Longrightarrow> returns (print_dict m)"
proof (induction d and l and m rule: canon_canon_list_canon_dict.induct)
qed (auto simp: returns_def str_bytes_canon)

lemma datagram_addrs_ipv4: "m_l3_proto (m_id d) = IPPROTO_IP \<Longrightarrow> \<exists>src dst. datagram_addrs env d = Inr (Some (src, dst))"
  by (simp add: datagram_addrs_def rds_def)

lemma datagram_addrs_ipv6: "m_l3_proto (m_id d) = IPPROTO_IPV6 \<Longrightarrow> datagram_addrs env d = Inl OutOfBounds"
  by (simp add: datagram_addrs_def rds_def)

lemma datagram_addrs_other:
  "m_l3_proto (m_id d) \<noteq> IPPROTO_IP \<Longrightarrow> m_l3_proto (m_id d) \<noteq> IPPROTO_IPV6 \<Longrightarrow> datagram_addrs env d = Inr None"
  by (simp add: datagram_addrs_def)

lemma console_dns_returns:
  "returns (console_datagram env (CDPI_EVENT_DNS, d, Dns_message m) c) \<longleftrightarrow> m_l3_proto (m_id d) \<noteq> IPPROTO_IPV6"
proof (cases "m_l3_proto (m_id d) = IPPROTO_IP")
  case True
  with datagram_addrs_ipv4 obtain src dst where "datagram_addrs env d = Inr (Some (src, dst))" by blast
  with True show ?thesis by (simp add: console_datagram_def returns_def)
next
  case False
  then show ?thesis
    by (cases "m_l3_proto (m_id d) = IPPROTO_IPV6")
      (simp_all add: console_datagram_def datagram_addrs_ipv6 datagram_addrs_other returns_def)
qed

text \<open>Encoded data that the decoder delivers over IPv4 is printed.\<close>

lemma console_bencode_returns:
  "canon v \<Longrightarrow> m_l3_proto (m_id d) = IPPROTO_IP \<Longrightarrow>
     returns (console_datagram env (CDPI_EVENT_BENCODE, d, Bencode_message (Some v) h) c)"
  using print_canon(1) [of v] datagram_addrs_ipv4 [of d env]
  by (auto simp: console_datagram_def returns_def)

text \<open>
  C36: the listener of the database reports every message that the DNS decoder accepts, while the one
  that prints does so exactly when it does not come over IPv6: for IPv6 it reads 16 bytes from a variable
  of four.
\<close>

theorem console_ipv6_over_read:
  assumes "dns_decode (new_dns hd0) mem len = Inr (True, m)"
  shows "returns (report_datagram env (CDPI_EVENT_DNS, d, Dns_message m) l) \<and>
     (if m_l3_proto (m_id d) = IPPROTO_IPV6
      then console_datagram env (CDPI_EVENT_DNS, d, Dns_message m) c = Inl OutOfBounds
      else returns (console_datagram env (CDPI_EVENT_DNS, d, Dns_message m) c))"
proof -
  from in_dns_reported [OF assms, of env d l] have "returns (report_datagram env (CDPI_EVENT_DNS, d, Dns_message m) l)"
    by (auto simp: report_datagram_def returns_def)
  moreover have "m_l3_proto (m_id d) = IPPROTO_IPV6 \<Longrightarrow> console_datagram env (CDPI_EVENT_DNS, d, Dns_message m) c = Inl OutOfBounds"
    by (simp add: console_datagram_def datagram_addrs_ipv6)
  ultimately show ?thesis using console_dns_returns [of env d m c] by simp
qed

definition sample_ipv6_dir :: cdpi_id_dir where
  "sample_ipv6_dir = IdDir (Id (Peer (replicate 16 1) 0 0) (Peer (replicate 16 2) 0 0) IPPROTO_IPV6 IPPROTO_UDP) FROM_ADDR1"

theorem console_ipv6_over_read_witness:
  "\<exists>m. dns_decode (new_dns (header_of (replicate 12 0))) sample_answer_message 27 = Inr (True, m) \<and>
     returns (report_datagram sample_report_env (CDPI_EVENT_DNS, sample_ipv6_dir, Dns_message m) new_listener) \<and>
     console_datagram sample_report_env (CDPI_EVENT_DNS, sample_ipv6_dir, Dns_message m) \<lparr>cs_out = [], cs_ciphers = [], cs_compressions = []\<rparr> =
       Inl OutOfBounds"
proof -
  obtain m where m: "dns_decode (new_dns (header_of (replicate 12 0))) sample_answer_message 27 = Inr (True, m)"
    using sample_answer_decodes by blast
  from console_ipv6_over_read [OF m, of sample_report_env sample_ipv6_dir new_listener "\<lparr>cs_out = [], cs_ciphers = [], cs_compressions = []\<rparr>"]
  show ?thesis using m by (auto simp: sample_ipv6_dir_def)
qed

end
