(* ===== verification/Spec2Isabelle.thy ===== *)
theory Spec2Isabelle
  imports Ident Dns_Wire Tcp_Lifecycle Http_View Http_Safe Ssl_Run Stream_Typed Capture Divert Chaos Soa Console
begin

text \<open>
  Catenaccio DPI: a library that takes packets from a network interface, puts TCP streams together,
  finds out which protocol a stream or a datagram carries, parses it and tells a listener what it read.

  \<^bold>\<open>The program.\<close> \<open>cdpi_pcap\<close> and \<open>cdpi_divert\<close> read packets; \<open>cdpi_callback\<close> computes with \<open>cdpi_id\<close> an
  identifier of the connection and the direction, and hands the packet to \<open>cdpi_tcp\<close> or \<open>cdpi_udp\<close>. Each of
  them has a queue and a worker thread. The worker of TCP delivers the bytes of a direction in order, as
  blocks of \<open>cdpi_bytes\<close>, to \<open>cdpi_stream\<close>, which guesses the protocol from the first bytes and feeds
  one parser for each direction, \<open>cdpi_http\<close> or \<open>cdpi_ssl\<close>; the two parsers of an HTTP connection know each
  other, because a response cannot be parsed without the method of its request. The worker of UDP decodes a
  datagram as \<open>cdpi_dns\<close> or as \<open>cdpi_bencode\<close>. The listeners are programs of their own: \<open>cdpi_main\<close> prints,
  \<open>cdpi_mongo\<close> writes documents to a database. \<open>cdpi_mongo_chaos\<close> and the example \<open>cdpi_mongo_soa\<close> are
  clients of the DNS decoder.

  \<^bold>\<open>The theories\<close>, all file names under \<open>src/\<close>:
  \<^item> Prelude: bytes, faults, sequencing (\<open>bindR\<close>), reads and writes of memory, byte order, \<open>std::map\<close>.
  \<^item> Bytes: \<open>cdpi_bytes\<close>. Numbers: \<open>istream >> int\<close>, \<open>atoi\<close> and printing of numbers.
  \<^item> Ident: \<open>cdpi_id\<close>, with the extension headers of IPv6 and the order of the keys.
  \<^item> Event: the enumerations of \<open>cdpi_event\<close>, \<open>cdpi_proto\<close> and \<open>cdpi_stream\<close>.
  \<^item> Tcp: \<open>cdpi_tcp\<close>, one definition for each critical section, and the three threads as a step relation;
    Tcp_Reassembly: the promise of in-order delivery; Tcp_Lifecycle: opening, closing, overload, collection.
  \<^item> Dns: \<open>cdpi_dns\<close>; Dns_Wire: the format of RFC 1035 as an encoder, and the round trips.
  \<^item> Http: \<open>cdpi_http\<close>, a state machine with one step for each state; Http_View: the parser as a function of the
    bytes alone; Http_Parts, Http_Message, Http_Chunked: well-formed messages; Http_Safe: arbitrary bytes.
  \<^item> Ssl: \<open>cdpi_ssl\<close>; Ssl_Tables: its tables of names; Ssl_Run: records, bounds, round trips.
  \<^item> Stream: \<open>cdpi_stream\<close> with a store for the parsers, which are shared by pointers; Stream_Typed: its invariants.
  \<^item> Bencode: \<open>cdpi_bencode\<close> on a model of \<open>std::istream\<close>; Bencode_Codec: the round trip and the info hash.
  \<^item> Udp: \<open>cdpi_udp\<close>. Capture: \<open>cdpi_callback\<close> and \<open>cdpi_pcap\<close>. Divert: \<open>cdpi_divert\<close>.
  \<^item> Report, Report_Datagram: \<open>cdpi_mongo\<close>. Console: \<open>cdpi_main\<close>. Chaos: \<open>cdpi_mongo_chaos\<close>.
    Soa: \<open>examples/mindyourprivacy/cdpi_mongo_soa\<close>.
  \<^item> This theory: a datagram on its way from the packet to the database.

  \<^bold>\<open>State and faults.\<close> A class is a record, an enumeration a datatype, a fixed-width integer a word, and an \<open>int\<close>
  that is compared with lengths an integer with the conversions of the source written out. Definitions
  have the names of the functions that they translate. What ends an operation other than by returning is a
  value of the type of faults: a read or write outside of an array, a null pointer, a failed allocation, an
  exception. Memory is the list of the bytes that may be read, so that every access behind a buffer that the
  source does not guard is the fault \<open>OutOfBounds\<close> and not a default value. A \<open>std::map\<close> is a list with ascending
  keys; the locales of the library state what the components rely on (an order on the keys, a map, a
  queue of blocks as a byte string, a client that walks over the records of a DNS message) and are interpreted
  on the definitions of the model.

  \<^bold>\<open>What is shown.\<close> For the byte blocks, that they refine one byte string. For identifiers, that both directions
  of a connection get the same one, and that the keys of the maps are ordered strictly. For TCP, that
  segments in any order are delivered as the stream, that all interleavings of the threads keep the invariant
  and are never stuck, and how connections open, close, overflow and are collected. For HTTP and SSL, that the
  cutting of the stream into blocks does not matter, what well-formed messages are read to, and where the
  parsers stay inside of their arrays on arbitrary input. For the streams, that a pointer always has the type that
  is recorded for it, that requests and responses find each other, and that unknown protocols do not pile up memory.
  For DNS and bencode, that decoding undoes encoding. For the listeners, that requests and responses are
  reported in pairs, that what the decoder accepts can be reported without a null pointer, and what reaches the database from a
  packet. For the two DNS clients, that every server is asked once, and how many questions are on their way.
  Several theorems state what the code does where it does not do what it means to.

  \<^bold>\<open>Termination.\<close> No definition has fuel. Loops are structural or have a measure: blocks that get shorter, a depth
  of 256 for the pointers in DNS names, the bytes that are left. The loop of the TCP worker is a partial function with
  the result \<open>None\<close> for not returning, and is shown to return. The loop over extension headers and over VLAN tags
  ends because each turn reads from memory further on.

  \<^bold>\<open>Not modelled.\<close> The loop of libpcap and opening a device, the event loop of libevent, command lines,
  signals, and connecting to the database, because they only call other libraries; the start and the end of the
  threads and the destructors that join them; \<open>get_bps\<close>, a floating-point quotient that changes nothing;
  \<open>print_id\<close>. Parameters of the model are the regular expressions of Boost, the digest and the certificates of
  OpenSSL, the decompressors, \<open>inet_pton\<close>, the text of an IPv6 address, the clock, the answers of the operating
  system, and what memory holds that the program does not initialise.
\<close>

section \<open>From a datagram to the database\<close>

text \<open>The calls of the listener that one round of the worker makes.\<close>

fun report_calls :: "report_env \<Rightarrow> udp_call list \<Rightarrow> my_event_listener \<Rightarrow> my_event_listener result" where
  "report_calls env [] l = Inr l"
| "report_calls env (c # cs) l = bindR (report_datagram env c l) (report_calls env cs)"

definition datagram_report ::
    "udp_env \<Rightarrow> report_env \<Rightarrow> cdpi_id \<Rightarrow> cdpi_direction \<Rightarrow> byte list \<Rightarrow> int \<Rightarrow> nat \<Rightarrow> cdpi_udp \<times> my_event_listener \<Rightarrow>
     (cdpi_udp \<times> my_event_listener) result" where
  "datagram_report uenv renv i dir mem len l4 s =
     (case s of (u, l) \<Rightarrow>
        bindR (input_udp i dir mem len l4 u) (\<lambda>u1. bindR (run_udp uenv u1) (\<lambda>(u2, calls).
          bindR (report_calls renv calls l) (\<lambda>l1. Inr (u2, l1)))))"

definition wire_question_doc :: "wire_question \<Rightarrow> bson" where
  "wire_question_doc q = B_obj [(str ''qname'', B_str (dotted (q_name q) @ str ''.'')),
     (str ''qtype'', B_int (int (q_type q mod 65536))), (str ''qclass'', B_int (int (q_class q mod 65536)))]"

lemma uint_ntohs_wire: "uint (ntohs (u16_of (be_bytes 2 k))) = int (k mod 65536)"
  using unat_ntohs_u16 [of "be_bytes 2 k"] by (simp add: uint_nat)

lemma question_fields_wire: "question_fields (question_value q) = wire_question_doc q"
  by (simp add: question_fields_def question_value_def wire_question_doc_def dot_name_def uint_ntohs_wire)

text \<open>
  C2: a datagram to or from port 53 that carries an encoded DNS message is written to the database: one
  document, with the identifier of the message and, in the order of the wire, the name, the type and the
  class of every question. This spans the queue and the worker of the UDP component, the decoder and the
  listener.
\<close>

theorem dns_datagram_reported:
  assumes "u_queue u = []" "wants_dns (m_is_dns_53 u) (IdDir i dir)"
    and "message_ok m" "length (message_bytes m) < 2 ^ 31"
    and "length mem = l4 + 8 + length (message_bytes m)" "drop (l4 + 8) mem = message_bytes m"
  shows "\<exists>fs. datagram_report uenv renv i dir (mem @ pad) (int (length mem)) l4 (u, l) =
      Inr (u, insert_doc ''DNS.requests'' fs l) \<and>
    (str ''id'', B_int (int (w_id m mod 65536))) \<in> set fs \<and>
    (str ''query'', B_arr (map wire_question_doc (w_qd m))) \<in> set fs"
proof -
  let ?dns = "message_added (new_dns (ue_dns_header uenv)) m"
  have "dns_decode (new_dns (ue_dns_header uenv)) (message_bytes m @ [] @ []) (int (length (message_bytes m @ []))) =
      Inr ([] = ([] :: byte list), ?dns)"
    by (rule dns_decode_message) (use assms(3,4) in simp_all)
  then have d: "dns_decode (new_dns (ue_dns_header uenv)) (message_bytes m) (int (length (message_bytes m))) = Inr (True, ?dns)"
    by simp
  have "bindR (input_udp i dir (mem @ pad) (int (length mem)) l4 u) (run_udp uenv) =
      Inr (u, [(CDPI_EVENT_DNS, IdDir i dir, Dns_message ?dns)])"
    unfolding input_run_udp [OF assms(1,5,6)] using assms(2) d by simp
  then obtain u1 where "input_udp i dir (mem @ pad) (int (length mem)) l4 u = Inr u1"
    "run_udp uenv u1 = Inr (u, [(CDPI_EVENT_DNS, IdDir i dir, Dns_message ?dns)])" by (auto simp: bindR_eq_Inr)
  then have r: "datagram_report uenv renv i dir (mem @ pad) (int (length mem)) l4 (u, l) =
      bindR (in_dns renv (IdDir i dir) ?dns l) (\<lambda>l1. Inr (u, l1))"
    by (simp add: datagram_report_def report_datagram_def bindR_assoc)
  from in_dns_fields [OF d, of renv "IdDir i dir" l] obtain fs where
    "in_dns renv (IdDir i dir) ?dns l = Inr (insert_doc ''DNS.requests'' fs l)"
    "(str ''id'', B_int (uint (ntohs (dns_get_id ?dns)))) \<in> set fs"
    "(str ''query'', B_arr (map question_fields (m_quesiton ?dns))) \<in> set fs" by blast
  moreover have "uint (ntohs (dns_get_id ?dns)) = int (w_id m mod 65536)"
    by (simp add: dns_get_id_def message_added_def uint_ntohs_wire)
  moreover have "map question_fields (m_quesiton ?dns) = map wire_question_doc (w_qd m)"
    by (simp add: message_added_def new_dns_def question_fields_wire)
  ultimately show ?thesis unfolding r by auto
qed

definition sample_query :: wire_message where
  "sample_query = \<lparr>w_id = 7, w_flag = 0x0100, w_qd = [Wire_question [[0x61], [0x62, 0x63]] 1 1], w_an = [], w_ns = [], w_ar = []\<rparr>"

text \<open>From some port to port 53.\<close>

definition sample_dns_id :: cdpi_id where
  "sample_dns_id = Id (Peer [] 0 0) (Peer [] 0x3500 0) 0 17"

lemma sample_dns_ports: "wants_dns (m_is_dns_53 new_udp) (IdDir sample_dns_id FROM_ADDR1)"
proof -
  have "ntohs 0x3500 = 53" by (simp add: word_unat_eq_iff ntohs_def be_nat_def le_bytes_numeral)
  then show ?thesis by (simp add: wants_dns_def new_udp_def sample_dns_id_def get_port_src_def get_port_dst_def)
qed

theorem dns_datagram_reported_witness:
  "\<exists>fs. datagram_report sample_udp_env sample_report_env sample_dns_id FROM_ADDR1
      ((replicate 28 0 @ message_bytes sample_query) @ [0]) (int (28 + length (message_bytes sample_query))) 20 (new_udp, new_listener) =
      Inr (new_udp, insert_doc ''DNS.requests'' fs new_listener) \<and>
    (str ''query'', B_arr [B_obj [(str ''qname'', B_str [0x61, 0x2E, 0x62, 0x63, 0x2E]), (str ''qtype'', B_int 1), (str ''qclass'', B_int 1)]]) \<in> set fs"
proof -
  have m: "message_ok sample_query" "length (message_bytes sample_query) < 2 ^ 31"
    by (simp_all add: sample_query_def message_ok_def question_ok_def labels_ok_def message_bytes_def question_bytes_def
        name_bytes_def labels_bytes_def label_bytes_def)
  have q: "map wire_question_doc (w_qd sample_query) =
      [B_obj [(str ''qname'', B_str [0x61, 0x2E, 0x62, 0x63, 0x2E]), (str ''qtype'', B_int 1), (str ''qclass'', B_int 1)]]"
    by (simp add: sample_query_def wire_question_doc_def str_def)
  have u: "u_queue new_udp = []" by (simp add: new_udp_def)
  from dns_datagram_reported [OF u sample_dns_ports m, of "replicate 28 0 @ message_bytes sample_query" 20 sample_udp_env
      sample_report_env "[0]" new_listener] q
  show ?thesis by auto
qed

end
